(* ===== verification/Nails_Prelude.thy ===== *)
theory Nails_Prelude
  imports Main "HOL-Library.Sublist"
begin

text \<open>
  What every component of the development shares: the collections of rewrite rules the
  component proofs draw on, and the iterator idioms of the Rust standard library that the
  sources use on slices (\<^verbatim>\<open>find\<close>, \<^verbatim>\<open>find_map\<close>, \<^verbatim>\<open>filter_map\<close>, \<^verbatim>\<open>position\<close>,
  \<^verbatim>\<open>max_by_key\<close>, stable \<^verbatim>\<open>sort_by_key\<close>) with the lemmas about them.  Vectors and slices are
  lists; \<^verbatim>\<open>Option\<close> is \<^typ>\<open>'a option\<close>; \<^verbatim>\<open>Result\<close> is \<^typ>\<open>'e + 'a\<close> with \<^const>\<open>Inl\<close> for
  the error.
\<close>

section \<open>Collections of facts\<close>

named_theorems str_simps \<open>equations about the string operations\<close>
named_theorems path_simps \<open>equations about the path operations\<close>
named_theorems mount_simps \<open>equations about mount tables\<close>
named_theorems inv_intros \<open>introduction rules for the component invariants\<close>

section \<open>Iterator idioms\<close>

fun find_map :: "('a \<Rightarrow> 'b option) \<Rightarrow> 'a list \<Rightarrow> 'b option" where
  "find_map f [] = None"
| "find_map f (x # xs) = (case f x of None \<Rightarrow> find_map f xs | Some y \<Rightarrow> Some y)"

fun filter_map :: "('a \<Rightarrow> 'b option) \<Rightarrow> 'a list \<Rightarrow> 'b list" where
  "filter_map f [] = []"
| "filter_map f (x # xs) =
     (case f x of None \<Rightarrow> filter_map f xs | Some y \<Rightarrow> y # filter_map f xs)"

fun position :: "('a \<Rightarrow> bool) \<Rightarrow> 'a list \<Rightarrow> nat option" where
  "position P [] = None"
| "position P (x # xs) = (if P x then Some 0 else map_option Suc (position P xs))"

text \<open>\<^verbatim>\<open>Iterator::max_by_key\<close>: the last of the elements with the greatest key.\<close>

fun max_by_key :: "('a \<Rightarrow> nat) \<Rightarrow> 'a list \<Rightarrow> 'a option" where
  "max_by_key k [] = None"
| "max_by_key k (x # xs) =
     (case max_by_key k xs of None \<Rightarrow> Some x
      | Some y \<Rightarrow> if k x > k y then Some x else Some y)"

text \<open>\<^verbatim>\<open>slice::iter().rev().find(P)\<close>: the last element that satisfies \<open>P\<close>.\<close>

definition rfind :: "('a \<Rightarrow> bool) \<Rightarrow> 'a list \<Rightarrow> 'a option" where
  "rfind P xs = find P (rev xs)"

definition is_some_and :: "'a option \<Rightarrow> ('a \<Rightarrow> bool) \<Rightarrow> bool" where
  "is_some_and v P = (case v of None \<Rightarrow> False | Some x \<Rightarrow> P x)"

definition is_none_or :: "'a option \<Rightarrow> ('a \<Rightarrow> bool) \<Rightarrow> bool" where
  "is_none_or v P = (case v of None \<Rightarrow> True | Some x \<Rightarrow> P x)"

definition or_else :: "'a option \<Rightarrow> 'a option \<Rightarrow> 'a option" where
  "or_else a b = (case a of None \<Rightarrow> b | Some x \<Rightarrow> Some x)"

text \<open>Pushing each element that is not there yet, as the sources collect a list without
  duplicates.\<close>

fun push_new :: "'a list \<Rightarrow> 'a list \<Rightarrow> 'a list" where
  "push_new acc [] = acc"
| "push_new acc (x # xs) = push_new (if x \<in> set acc then acc else acc @ [x]) xs"

section \<open>Lemmas\<close>

lemma find_map_Some_split:
  "find_map f xs = Some y \<Longrightarrow>
     \<exists>us x vs. xs = us @ x # vs \<and> (\<forall>u\<in>set us. f u = None) \<and> f x = Some y"
proof (induction xs)
  case Nil
  then show ?case by simp
next
  case (Cons a xs)
  show ?case
  proof (cases "f a")
    case None
    with Cons obtain us x vs where
      "xs = us @ x # vs" "\<forall>u\<in>set us. f u = None" "f x = Some y"
      by auto
    with None have "a # xs = (a # us) @ x # vs" "\<forall>u\<in>set (a # us). f u = None"
      by simp_all
    with \<open>f x = Some y\<close> show ?thesis by blast
  next
    case (Some b)
    with Cons.prems have "a # xs = [] @ a # xs" "f a = Some y" by simp_all
    then show ?thesis by fastforce
  qed
qed

lemma find_map_SomeD: "find_map f xs = Some y \<Longrightarrow> \<exists>x\<in>set xs. f x = Some y"
  by (induction xs) (auto split: option.splits)

lemma find_map_None_iff: "find_map f xs = None \<longleftrightarrow> (\<forall>x\<in>set xs. f x = None)"
  by (induction xs) (auto split: option.splits)

lemma find_SomeD: "find P xs = Some x \<Longrightarrow> x \<in> set xs \<and> P x"
  by (induction xs) (auto split: if_splits)

lemma find_None_iff': "find P xs = None \<longleftrightarrow> (\<forall>x\<in>set xs. \<not> P x)"
  by (auto simp: find_None_iff)

lemma find_exI: "x \<in> set xs \<Longrightarrow> P x \<Longrightarrow> \<exists>y. find P xs = Some y"
  by (induction xs) auto

lemma rfind_SomeD: "rfind P xs = Some x \<Longrightarrow> x \<in> set xs \<and> P x"
  by (auto simp: rfind_def dest: find_SomeD)

lemma rfind_None_iff: "rfind P xs = None \<longleftrightarrow> (\<forall>x\<in>set xs. \<not> P x)"
  by (auto simp: rfind_def find_None_iff)

lemma set_filter_map: "set (filter_map f xs) = {y. \<exists>x\<in>set xs. f x = Some y}"
  by (induction xs) (auto split: option.splits)

lemma filter_map_append [simp]: "filter_map f (xs @ ys) = filter_map f xs @ filter_map f ys"
  by (induction xs) (auto split: option.splits)

lemma filter_map_eq_map: "(\<And>x. x \<in> set xs \<Longrightarrow> f x = Some (g x)) \<Longrightarrow> filter_map f xs = map g xs"
  by (induction xs) auto

lemma position_Some_iff:
  "position P xs = Some i \<longleftrightarrow> i < length xs \<and> P (xs ! i) \<and> (\<forall>j<i. \<not> P (xs ! j))"
proof (induction xs arbitrary: i)
  case Nil
  then show ?case by simp
next
  case (Cons x xs)
  show ?case
    by (cases i) (auto simp: Cons.IH All_less_Suc2)
qed

lemma position_None_iff: "position P xs = None \<longleftrightarrow> (\<forall>x\<in>set xs. \<not> P x)"
  by (induction xs) auto

lemma position_take_drop:
  "position P xs = Some i \<Longrightarrow> xs = take i xs @ xs ! i # drop (Suc i) xs"
  by (simp add: position_Some_iff id_take_nth_drop)

lemma max_by_key_None_iff: "max_by_key k xs = None \<longleftrightarrow> xs = []"
  by (cases xs) (auto split: option.splits)

lemma max_by_key_Some:
  "max_by_key k xs = Some x \<Longrightarrow> x \<in> set xs \<and> (\<forall>y\<in>set xs. k y \<le> k x)"
proof (induction xs arbitrary: x)
  case Nil
  then show ?case by simp
next
  case (Cons a xs)
  show ?case
  proof (cases "max_by_key k xs")
    case None
    with Cons.prems show ?thesis by (simp add: max_by_key_None_iff)
  next
    case (Some b)
    with Cons.IH have "b \<in> set xs \<and> (\<forall>y\<in>set xs. k y \<le> k b)" by blast
    with Some Cons.prems show ?thesis by (auto split: if_splits)
  qed
qed

lemma set_push_new [simp]: "set (push_new acc xs) = set acc \<union> set xs"
  by (induction acc xs rule: push_new.induct) auto

lemma distinct_push_new: "distinct acc \<Longrightarrow> distinct (push_new acc xs)"
  by (induction acc xs rule: push_new.induct) auto

lemma is_some_and_iff: "is_some_and v P \<longleftrightarrow> (\<exists>x. v = Some x \<and> P x)"
  by (auto simp: is_some_and_def split: option.splits)

lemma is_none_or_iff: "is_none_or v P \<longleftrightarrow> (\<forall>x. v = Some x \<longrightarrow> P x)"
  by (auto simp: is_none_or_def split: option.splits)

lemma foldl_invariant:
  assumes "P s" "\<And>s x. x \<in> set xs \<Longrightarrow> P s \<Longrightarrow> P (f s x)"
  shows "P (foldl f s xs)"
  using assms by (induction xs arbitrary: s) auto

lemma snoc_split_cases:
  assumes "l @ [e] = xs @ d # ys"
  obtains "ys = []" "xs = l" "d = e" | ys' where "ys = ys' @ [e]" "l = xs @ d # ys'"
  using assms by (cases ys rule: rev_cases) auto

lemma filter_map_Nil_iff: "filter_map f xs = [] \<longleftrightarrow> (\<forall>x\<in>set xs. f x = None)"
  by (induction xs) (auto split: option.splits)

end
