(* ===== verification/Rust_Str.thy ===== *)
theory Rust_Str
  imports Nails_Prelude
begin

text \<open>
  The part of Rust's \<^verbatim>\<open>str\<close>, \<^verbatim>\<open>[u8]\<close> and integer parsing that the sources use.  A \<^verbatim>\<open>&str\<close>, a
  \<^verbatim>\<open>String\<close> and a byte slice are all modelled by their bytes, a \<^typ>\<open>string\<close>: an Isabelle
  \<^typ>\<open>char\<close> is one byte, so a character outside ASCII is its UTF-8 sequence, and lengths and
  indices count bytes, as they do in Rust.  White space is Unicode's, read on its UTF-8
  sequences; \<^verbatim>\<open>String::from_utf8_lossy\<close> is written out, with the maximal-subpart replacement of
  the standard library.
\<close>

type_synonym bytes = string

section \<open>Definitions\<close>

abbreviation byte :: "char \<Rightarrow> nat" where
  "byte c \<equiv> of_char c"

definition newline :: char where "newline = CHR 0x0A"
definition backslash :: char where "backslash = CHR 0x5C"

definition is_digit :: "char \<Rightarrow> bool" where
  "is_digit c \<longleftrightarrow> 48 \<le> byte c \<and> byte c \<le> 57"

definition is_octal :: "char \<Rightarrow> bool" where
  "is_octal c \<longleftrightarrow> 48 \<le> byte c \<and> byte c \<le> 55"

definition is_ascii :: "char \<Rightarrow> bool" where
  "is_ascii c \<longleftrightarrow> byte c < 128"

definition is_alnum :: "char \<Rightarrow> bool" where
  "is_alnum c \<longleftrightarrow> is_digit c \<or> (65 \<le> byte c \<and> byte c \<le> 90) \<or> (97 \<le> byte c \<and> byte c \<le> 122)"

text \<open>The number of bytes of the white space character at the front, 0 for none.\<close>

definition ws_len :: "bytes \<Rightarrow> nat" where
  "ws_len s =
     (case s of [] \<Rightarrow> 0
      | a # r \<Rightarrow>
          if (9 \<le> byte a \<and> byte a \<le> 13) \<or> byte a = 32 then 1
          else (case r of [] \<Rightarrow> 0
            | b # r' \<Rightarrow>
                if byte a = 0xC2 \<and> (byte b = 0x85 \<or> byte b = 0xA0) then 2
                else (case r' of [] \<Rightarrow> 0
                  | c # _ \<Rightarrow>
                      if (byte a = 0xE1 \<and> byte b = 0x9A \<and> byte c = 0x80)
                       \<or> (byte a = 0xE2 \<and> byte b = 0x80 \<and>
                            (0x80 \<le> byte c \<and> byte c \<le> 0x8A \<or> byte c \<in> {0xA8, 0xA9, 0xAF}))
                       \<or> (byte a = 0xE2 \<and> byte b = 0x81 \<and> byte c = 0x9F)
                       \<or> (byte a = 0xE3 \<and> byte b = 0x80 \<and> byte c = 0x80)
                      then 3 else 0)))"

lemma ws_len_le: "ws_len s \<le> length s"
  by (auto simp: ws_len_def split: list.splits)

lemma ws_len_drop_less: "0 < ws_len s \<Longrightarrow> length s - ws_len s < length s"
  using ws_len_le [of s] by (cases s) (auto simp: ws_len_def)

text \<open>\<^verbatim>\<open>str::trim_start\<close>, \<^verbatim>\<open>str::trim_end\<close> and \<^verbatim>\<open>str::trim\<close>.\<close>

function trim_start :: "bytes \<Rightarrow> bytes" where
  "trim_start s = (if ws_len s = 0 then s else trim_start (drop (ws_len s) s))"
  by pat_completeness auto
termination
  by (relation "measure length") (auto simp: ws_len_drop_less)

declare trim_start.simps [simp del]

fun trim_end :: "bytes \<Rightarrow> bytes" where
  "trim_end [] = []"
| "trim_end (c # cs) = (if trim_start (c # cs) = [] then [] else c # trim_end cs)"

definition trim :: "bytes \<Rightarrow> bytes" where
  "trim s = trim_end (trim_start s)"

text \<open>\<^verbatim>\<open>str::split_whitespace\<close>, with the word read so far.\<close>

function split_ws :: "bytes \<Rightarrow> bytes \<Rightarrow> bytes list" where
  "split_ws cur s =
     (if s = [] then (if cur = [] then [] else [cur])
      else if ws_len s = 0 then split_ws (cur @ [hd s]) (tl s)
      else (if cur = [] then [] else [cur]) @ split_ws [] (drop (ws_len s) s))"
  by pat_completeness auto
termination
  by (relation "measure (length \<circ> snd)") (auto simp: ws_len_drop_less)

declare split_ws.simps [simp del]

definition split_whitespace :: "bytes \<Rightarrow> bytes list" where
  "split_whitespace s = split_ws [] s"

text \<open>\<^verbatim>\<open>str::split(c)\<close> and \<^verbatim>\<open>slice::split\<close> on one byte: always at least one piece.\<close>

fun split_on :: "char \<Rightarrow> bytes \<Rightarrow> bytes list" where
  "split_on d [] = [[]]"
| "split_on d (c # cs) =
     (if c = d then [] # split_on d cs
      else (case split_on d cs of [] \<Rightarrow> [[c]] | p # ps \<Rightarrow> (c # p) # ps))"

fun join_with :: "bytes \<Rightarrow> bytes list \<Rightarrow> bytes" where
  "join_with sep [] = []"
| "join_with sep [p] = p"
| "join_with sep (p # q # ps) = p @ sep @ join_with sep (q # ps)"

text \<open>\<^verbatim>\<open>str::lines\<close>: a line ends at a newline, and loses one carriage return before it; text
  after the last newline is a line of its own, kept as it is.\<close>

definition strip_cr :: "bytes \<Rightarrow> bytes" where
  "strip_cr s = (if s \<noteq> [] \<and> last s = CHR 0x0D then butlast s else s)"

fun lines_acc :: "bytes \<Rightarrow> bytes \<Rightarrow> bytes list" where
  "lines_acc cur [] = (if cur = [] then [] else [cur])"
| "lines_acc cur (c # cs) =
     (if c = newline then strip_cr cur # lines_acc [] cs else lines_acc (cur @ [c]) cs)"

definition lines_of :: "bytes \<Rightarrow> bytes list" where
  "lines_of s = lines_acc [] s"

fun strip_prefix :: "bytes \<Rightarrow> bytes \<Rightarrow> bytes option" where
  "strip_prefix [] s = Some s"
| "strip_prefix (p # ps) [] = None"
| "strip_prefix (p # ps) (c # cs) = (if p = c then strip_prefix ps cs else None)"

definition starts_with :: "bytes \<Rightarrow> bytes \<Rightarrow> bool" where
  "starts_with p s \<longleftrightarrow> strip_prefix p s \<noteq> None"

definition ends_with :: "bytes \<Rightarrow> bytes \<Rightarrow> bool" where
  "ends_with p s \<longleftrightarrow> strip_prefix (rev p) (rev s) \<noteq> None"

fun split_once :: "char \<Rightarrow> bytes \<Rightarrow> (bytes \<times> bytes) option" where
  "split_once d [] = None"
| "split_once d (c # cs) =
     (if c = d then Some ([], cs)
      else map_option (\<lambda>(a, b). (c # a, b)) (split_once d cs))"

subsection \<open>Integers\<close>

fun digits_val :: "nat \<Rightarrow> bytes \<Rightarrow> nat option" where
  "digits_val acc [] = Some acc"
| "digits_val acc (c # cs) =
     (if is_digit c then digits_val (10 * acc + (byte c - 48)) cs else None)"

text \<open>\<^verbatim>\<open>str::parse\<close> for \<^verbatim>\<open>u64\<close> and \<^verbatim>\<open>i32\<close>: an optional sign (\<^verbatim>\<open>-\<close> for the signed type only), at
  least one digit, nothing else, and a value in range.\<close>

definition parse_magnitude :: "bytes \<Rightarrow> nat option" where
  "parse_magnitude s = (if s = [] then None else digits_val 0 s)"

definition parse_u64 :: "bytes \<Rightarrow> nat option" where
  "parse_u64 s =
     (case parse_magnitude (case s of c # cs \<Rightarrow> if c = CHR ''+'' then cs else s | [] \<Rightarrow> []) of
        None \<Rightarrow> None
      | Some n \<Rightarrow> if int n < 2 ^ 64 then Some n else None)"

definition in_i32 :: "int \<Rightarrow> bool" where
  "in_i32 i \<longleftrightarrow> - (2 ^ 31) \<le> i \<and> i < 2 ^ 31"

definition parse_i32 :: "bytes \<Rightarrow> int option" where
  "parse_i32 s =
     (case s of [] \<Rightarrow> None
      | c # cs \<Rightarrow>
          (case (if c = CHR ''-'' then map_option (\<lambda>n. - int n) (parse_magnitude cs)
                 else map_option int (parse_magnitude (if c = CHR ''+'' then cs else s))) of
             None \<Rightarrow> None
           | Some i \<Rightarrow> if in_i32 i then Some i else None))"

text \<open>\<^verbatim>\<open>to_string\<close> of an integer.\<close>

function show_nat :: "nat \<Rightarrow> bytes" where
  "show_nat n = (if n < 10 then [char_of (48 + n)] else show_nat (n div 10) @ [char_of (48 + n mod 10)])"
  by pat_completeness auto
termination
  by (relation "measure id") auto

declare show_nat.simps [simp del]

definition show_int :: "int \<Rightarrow> bytes" where
  "show_int i = (if i < 0 then CHR ''-'' # show_nat (nat (- i)) else show_nat (nat i))"

subsection \<open>UTF-8\<close>

definition is_cont :: "char \<Rightarrow> bool" where
  "is_cont c \<longleftrightarrow> 0x80 \<le> byte c \<and> byte c \<le> 0xBF"

text \<open>The second byte a three- or four-byte sequence may have after its first.\<close>

definition second3_ok :: "char \<Rightarrow> char \<Rightarrow> bool" where
  "second3_ok a b \<longleftrightarrow>
     (byte a = 0xE0 \<and> 0xA0 \<le> byte b \<and> byte b \<le> 0xBF)
   \<or> (((0xE1 \<le> byte a \<and> byte a \<le> 0xEC) \<or> byte a = 0xEE \<or> byte a = 0xEF) \<and> is_cont b)
   \<or> (byte a = 0xED \<and> 0x80 \<le> byte b \<and> byte b \<le> 0x9F)"

definition second4_ok :: "char \<Rightarrow> char \<Rightarrow> bool" where
  "second4_ok a b \<longleftrightarrow>
     (byte a = 0xF0 \<and> 0x90 \<le> byte b \<and> byte b \<le> 0xBF)
   \<or> (0xF1 \<le> byte a \<and> byte a \<le> 0xF3 \<and> is_cont b)
   \<or> (byte a = 0xF4 \<and> 0x80 \<le> byte b \<and> byte b \<le> 0x8F)"

text \<open>The standard library's table of sequence lengths by first byte, 0 for a byte no character
  starts with.\<close>

definition utf8_width :: "char \<Rightarrow> nat" where
  "utf8_width a =
     (if byte a < 0x80 then 1
      else if 0xC2 \<le> byte a \<and> byte a \<le> 0xDF then 2
      else if 0xE0 \<le> byte a \<and> byte a \<le> 0xEF then 3
      else if 0xF0 \<le> byte a \<and> byte a \<le> 0xF4 then 4
      else 0)"

text \<open>What is at the front of a byte slice: a character of so many bytes, or so many bytes that
  belong to none (the maximal subpart of a sequence cut short).\<close>

definition utf8_step :: "bytes \<Rightarrow> bool \<times> nat" where
  "utf8_step s =
     (case s of [] \<Rightarrow> (False, 1)
      | a # r \<Rightarrow>
          if utf8_width a = 1 then (True, 1)
          else if utf8_width a = 2 then
            (case r of b # _ \<Rightarrow> if is_cont b then (True, 2) else (False, 1) | [] \<Rightarrow> (False, 1))
          else if utf8_width a = 3 then
            (case r of [] \<Rightarrow> (False, 1)
             | b # r2 \<Rightarrow>
                 if second3_ok a b then
                   (case r2 of c # _ \<Rightarrow> if is_cont c then (True, 3) else (False, 2) | [] \<Rightarrow> (False, 2))
                 else (False, 1))
          else if utf8_width a = 4 then
            (case r of [] \<Rightarrow> (False, 1)
             | b # r2 \<Rightarrow>
                 if second4_ok a b then
                   (case r2 of [] \<Rightarrow> (False, 2)
                    | c # r3 \<Rightarrow>
                        if is_cont c then
                          (case r3 of d # _ \<Rightarrow> if is_cont d then (True, 4) else (False, 3) | [] \<Rightarrow> (False, 3))
                        else (False, 2))
                 else (False, 1))
          else (False, 1))"

lemma utf8_step_pos: "0 < snd (utf8_step s)"
  by (auto simp: utf8_step_def split: list.splits)

text \<open>\<^verbatim>\<open>String::from_utf8_lossy\<close>: every maximal invalid part becomes one U+FFFD.\<close>

definition replacement :: bytes where
  "replacement = [CHR 0xEF, CHR 0xBF, CHR 0xBD]"

function utf8_lossy :: "bytes \<Rightarrow> bytes" where
  "utf8_lossy s =
     (if s = [] then []
      else (if fst (utf8_step s) then take (snd (utf8_step s)) s else replacement)
           @ utf8_lossy (drop (snd (utf8_step s)) s))"
  by pat_completeness auto
termination
  using utf8_step_pos by (relation "measure length") auto

declare utf8_lossy.simps [simp del]

function utf8_valid :: "bytes \<Rightarrow> bool" where
  "utf8_valid s =
     (if s = [] then True
      else if fst (utf8_step s) then utf8_valid (drop (snd (utf8_step s)) s) else False)"
  by pat_completeness auto
termination
  using utf8_step_pos by (relation "measure length") auto

declare utf8_valid.simps [simp del]

section \<open>Lemmas\<close>

subsection \<open>Splitting and joining\<close>

lemma split_on_not_Nil [simp]: "split_on d s \<noteq> []"
  by (cases s) (auto split: list.splits)

lemma split_on_hd_tl [simp]: "hd (split_on d s) # tl (split_on d s) = split_on d s"
  by simp

lemma split_on_no_delim: "p \<in> set (split_on d s) \<Longrightarrow> d \<notin> set p"
  by (induction s arbitrary: p) (auto split: if_splits list.splits)

lemma split_on_id: "d \<notin> set s \<Longrightarrow> split_on d s = [s]"
  by (induction s) auto

lemma split_on_append_delim: "split_on d (xs @ d # ys) = split_on d xs @ split_on d ys"
proof (induction xs)
  case (Cons c cs)
  then show ?case by (cases "split_on d cs") auto
qed auto

lemma join_split_on: "join_with [d] (split_on d s) = s"
proof (induction s)
  case (Cons c cs)
  obtain p ps where ps: "split_on d cs = p # ps"
    using split_on_not_Nil by (meson neq_Nil_conv)
  show ?case
    using Cons.IH ps by (cases ps) auto
qed auto

lemma split_on_join:
  assumes "ps \<noteq> []" and "\<forall>p\<in>set ps. d \<notin> set p"
  shows "split_on d (join_with [d] ps) = ps"
  using assms
proof (induction "[d]" ps rule: join_with.induct)
  case (3 p q ps)
  then show ?case by (simp add: split_on_append_delim split_on_id)
qed (auto simp: split_on_id)

lemma set_split_on: "x \<in> set s \<Longrightarrow> x \<noteq> d \<Longrightarrow> \<exists>p\<in>set (split_on d s). x \<in> set p"
proof (induction s)
  case (Cons c cs)
  obtain p ps where ps: "split_on d cs = p # ps"
    using split_on_not_Nil by (meson neq_Nil_conv)
  show ?case
    using Cons ps by auto
qed auto

lemma strip_prefix_Some_iff: "strip_prefix p s = Some r \<longleftrightarrow> s = p @ r"
  by (induction p s rule: strip_prefix.induct) auto

lemma starts_with_iff: "starts_with p s \<longleftrightarrow> (\<exists>r. s = p @ r)"
  by (auto simp: starts_with_def strip_prefix_Some_iff)

lemma starts_with_append [simp]: "starts_with p (p @ s)"
  by (auto simp: starts_with_iff)

lemma ends_with_iff: "ends_with p s \<longleftrightarrow> (\<exists>r. s = r @ p)"
  by (auto simp: ends_with_def strip_prefix_Some_iff rev_eq_append_conv)
    (metis rev_append rev_rev_ident)

lemma split_once_Some_iff:
  "split_once d s = Some (a, b) \<longleftrightarrow> s = a @ d # b \<and> d \<notin> set a"
proof (induction s arbitrary: a)
  case (Cons c cs)
  show ?case by (cases a) (auto simp: Cons.IH)
qed simp

lemma lines_acc_no_newline:
  "l \<in> set (lines_acc cur s) \<Longrightarrow> newline \<notin> set cur \<Longrightarrow> newline \<notin> set l"
  by (induction cur s rule: lines_acc.induct)
    (auto simp: strip_cr_def split: if_splits dest: in_set_butlastD)

lemma lines_of_no_newline: "l \<in> set (lines_of s) \<Longrightarrow> newline \<notin> set l"
  by (simp add: lines_of_def lines_acc_no_newline)

lemma lines_acc_append_newline:
  "newline \<notin> set l \<Longrightarrow> lines_acc cur (l @ newline # s) = strip_cr (cur @ l) # lines_acc [] s"
  by (induction l arbitrary: cur) auto

lemma lines_of_Cons_line:
  "newline \<notin> set l \<Longrightarrow> l = [] \<or> last l \<noteq> CHR 0x0D \<Longrightarrow> lines_of (l @ newline # s) = l # lines_of s"
  by (auto simp: lines_of_def lines_acc_append_newline strip_cr_def)

lemma lines_of_Nil [simp]: "lines_of [] = []"
  by (simp add: lines_of_def)

subsection \<open>White space\<close>

lemma ws_len_graphic: "32 < byte c \<Longrightarrow> byte c < 128 \<Longrightarrow> ws_len (c # r) = 0"
  by (simp add: ws_len_def split: list.split)

lemma trim_start_ws_free: "ws_len (trim_start s) = 0"
proof (induction s rule: trim_start.induct)
  case (1 s)
  then show ?case by (subst trim_start.simps) (auto simp: trim_start.simps [of s])
qed

lemma trim_start_id: "ws_len s = 0 \<Longrightarrow> trim_start s = s"
  by (simp add: trim_start.simps)

lemma trim_start_suffix: "suffix (trim_start s) s"
proof (induction s rule: trim_start.induct)
  case (1 s)
  then show ?case
    by (subst trim_start.simps) (auto intro: suffix_order.trans suffix_drop)
qed

subsection \<open>Integers\<close>

lemma digits_val_append:
  "digits_val acc (xs @ ys) = (case digits_val acc xs of None \<Rightarrow> None | Some n \<Rightarrow> digits_val n ys)"
  by (induction acc xs rule: digits_val.induct) auto

lemma is_digit_char_of: "(d::nat) < 10 \<Longrightarrow> is_digit (char_of (48 + d))"
  by (simp add: is_digit_def)

lemma byte_digit: "(d::nat) < 10 \<Longrightarrow> byte (char_of (48 + d)) = 48 + d"
  by simp

lemma show_nat_not_Nil [simp]: "show_nat n \<noteq> []"
  by (subst show_nat.simps) simp

lemma show_nat_digits: "c \<in> set (show_nat n) \<Longrightarrow> is_digit c"
proof (induction n rule: show_nat.induct)
  case (1 n)
  show ?case
  proof (cases "n < 10")
    case True
    with "1.prems" show ?thesis
      by (simp add: show_nat.simps [of n] is_digit_char_of)
  next
    case False
    with "1.prems" have "c = char_of (48 + n mod 10) \<or> c \<in> set (show_nat (n div 10))"
      by (auto simp: show_nat.simps [of n])
    with False "1.IH" show ?thesis by (auto simp: is_digit_char_of)
  qed
qed

lemma digits_val_show_nat: "digits_val 0 (show_nat n) = Some n"
proof (induction n rule: show_nat.induct)
  case (1 n)
  show ?case
  proof (cases "n < 10")
    case True
    then show ?thesis
      by (simp add: show_nat.simps [of n] is_digit_char_of byte_digit)
  next
    case False
    with 1 have "digits_val 0 (show_nat (n div 10)) = Some (n div 10)" by simp
    with False show ?thesis
      by (simp add: show_nat.simps [of n] digits_val_append is_digit_char_of byte_digit)
  qed
qed

lemma parse_magnitude_show_nat [simp]: "parse_magnitude (show_nat n) = Some n"
  by (simp add: parse_magnitude_def digits_val_show_nat)

lemma show_nat_hd_digit: "is_digit (hd (show_nat n))"
  by (rule show_nat_digits [of _ n]) simp

lemma not_digit_sign [simp]: "\<not> is_digit (CHR ''-'')" "\<not> is_digit (CHR ''+'')"
  "\<not> is_digit (CHR '' '')" "\<not> is_digit (CHR 0x09)" "\<not> is_digit (CHR 0x0A)"
  by (simp_all add: is_digit_def)

theorem parse_i32_show_int: "in_i32 i \<Longrightarrow> parse_i32 (show_int i) = Some i"
proof -
  assume range: "in_i32 i"
  obtain c cs where cs: "show_nat (nat \<bar>i\<bar>) = c # cs" and dig: "is_digit c"
    using show_nat_hd_digit [of "nat \<bar>i\<bar>"] show_nat_not_Nil by (metis list.exhaust_sel)
  from dig have ns: "c \<noteq> CHR ''-''" "c \<noteq> CHR ''+''" by auto
  have mag: "parse_magnitude (c # cs) = Some (nat \<bar>i\<bar>)"
    using parse_magnitude_show_nat [of "nat \<bar>i\<bar>"] cs by simp
  show ?thesis
  proof (cases "i < 0")
    case True
    then have "show_int i = CHR ''-'' # c # cs" using cs by (simp add: show_int_def)
    with mag True range show ?thesis by (simp add: parse_i32_def)
  next
    case False
    then have "show_int i = c # cs" using cs by (simp add: show_int_def)
    with mag ns False range show ?thesis by (simp add: parse_i32_def)
  qed
qed

lemma parse_i32_range: "parse_i32 s = Some i \<Longrightarrow> in_i32 i"
  by (auto simp: parse_i32_def split: list.splits option.splits if_splits)

lemma parse_u64_range: "parse_u64 s = Some n \<Longrightarrow> n < 2 ^ 64"
  by (auto simp: parse_u64_def split: option.splits if_splits)

subsection \<open>UTF-8\<close>

lemma utf8_step_ascii: "is_ascii c \<Longrightarrow> utf8_step (c # s) = (True, 1)"
  by (simp add: utf8_step_def is_ascii_def utf8_width_def)

lemma utf8_valid_Nil [simp]: "utf8_valid []"
  by (simp add: utf8_valid.simps)

lemma utf8_lossy_Nil [simp]: "utf8_lossy [] = []"
  by (simp add: utf8_lossy.simps)

lemma utf8_valid_ascii_Cons [simp]: "is_ascii c \<Longrightarrow> utf8_valid (c # s) \<longleftrightarrow> utf8_valid s"
  by (subst utf8_valid.simps) (simp add: utf8_step_ascii)

lemma utf8_lossy_ascii_Cons [simp]: "is_ascii c \<Longrightarrow> utf8_lossy (c # s) = c # utf8_lossy s"
  by (subst utf8_lossy.simps) (simp add: utf8_step_ascii)

lemma utf8_lossy_valid: "utf8_valid s \<Longrightarrow> utf8_lossy s = s"
proof (induction s rule: utf8_lossy.induct)
  case (1 s)
  show ?case
  proof (cases "s = []")
    case False
    with "1.prems" have "fst (utf8_step s)" "utf8_valid (drop (snd (utf8_step s)) s)"
      by (simp_all add: utf8_valid.simps [of s] split: if_splits)
    with 1 False show ?thesis by (simp add: utf8_lossy.simps [of s])
  qed simp
qed

lemma ascii_utf8_valid: "(\<forall>c\<in>set s. is_ascii c) \<Longrightarrow> utf8_valid s"
  by (induction s) auto

text \<open>A valid character at the front stays one whatever follows it, and outside ASCII none of its
  bytes is ASCII.\<close>

text \<open>The four shapes of a valid character.\<close>

definition utf8_char :: "bytes \<Rightarrow> bool" where
  "utf8_char cs \<longleftrightarrow>
     (\<exists>a. cs = [a] \<and> utf8_width a = 1)
   \<or> (\<exists>a b. cs = [a, b] \<and> utf8_width a = 2 \<and> is_cont b)
   \<or> (\<exists>a b c. cs = [a, b, c] \<and> utf8_width a = 3 \<and> second3_ok a b \<and> is_cont c)
   \<or> (\<exists>a b c d. cs = [a, b, c, d] \<and> utf8_width a = 4 \<and> second4_ok a b \<and> is_cont c \<and> is_cont d)"

lemma utf8_char_step: "utf8_char cs \<Longrightarrow> utf8_step (cs @ r) = (True, length cs)"
  by (auto simp: utf8_char_def utf8_step_def)

lemma utf8_step_char:
  assumes "fst (utf8_step s)"
  shows "utf8_char (take (snd (utf8_step s)) s)"
proof (cases s)
  case Nil
  with assms show ?thesis by (simp add: utf8_step_def)
next
  case s: (Cons a r)
  consider "utf8_width a = 1" | "utf8_width a = 2" | "utf8_width a = 3" | "utf8_width a = 4"
    using assms s by (auto simp: utf8_step_def split: if_splits)
  then show ?thesis
  proof cases
    case 1
    with s show ?thesis by (simp add: utf8_step_def utf8_char_def)
  next
    case 2
    with s assms obtain b r' where "r = b # r'" "is_cont b"
      by (cases r) (auto simp: utf8_step_def split: if_splits)
    with s 2 show ?thesis by (simp add: utf8_step_def utf8_char_def)
  next
    case 3
    with s assms obtain b c r' where "r = b # c # r'" "second3_ok a b" "is_cont c"
      by (auto simp: utf8_step_def split: if_splits list.splits)
    with s 3 show ?thesis by (simp add: utf8_step_def utf8_char_def)
  next
    case 4
    with s assms obtain b c d r' where "r = b # c # d # r'" "second4_ok a b" "is_cont c" "is_cont d"
      by (auto simp: utf8_step_def split: if_splits list.splits)
    with s 4 show ?thesis by (simp add: utf8_step_def utf8_char_def)
  qed
qed

lemma not_ascii_bytes:
  "utf8_width a \<noteq> 1 \<Longrightarrow> \<not> is_ascii a" "is_cont b \<Longrightarrow> \<not> is_ascii b"
  "second3_ok a b \<Longrightarrow> \<not> is_ascii b" "second4_ok a b \<Longrightarrow> \<not> is_ascii b"
  by (auto simp: utf8_width_def is_ascii_def is_cont_def second3_ok_def second4_ok_def)

lemma utf8_char_cases:
  assumes "utf8_char cs"
  obtains c where "cs = [c]" "is_ascii c" | "cs \<noteq> []" "\<forall>c\<in>set cs. \<not> is_ascii c"
  using assms
proof (cases "\<exists>a. cs = [a] \<and> utf8_width a = 1")
  case True
  then show ?thesis
    using that(1) by (auto simp: utf8_width_def is_ascii_def split: if_splits)
next
  case False
  with assms have "cs \<noteq> [] \<and> (\<forall>c\<in>set cs. \<not> is_ascii c)"
    by (auto simp: utf8_char_def not_ascii_bytes)
  then show ?thesis using that(2) by blast
qed

text \<open>Induction over the characters of a valid string: ASCII ones, and sequences of bytes that
  are not ASCII.\<close>

lemma utf8_valid_induct [consumes 1, case_names Nil ascii multi]:
  assumes "utf8_valid s"
    and "P []"
    and "\<And>c s. is_ascii c \<Longrightarrow> utf8_valid s \<Longrightarrow> P s \<Longrightarrow> P (c # s)"
    and "\<And>cs s. utf8_char cs \<Longrightarrow> cs \<noteq> [] \<Longrightarrow> \<forall>c\<in>set cs. \<not> is_ascii c \<Longrightarrow> utf8_valid s \<Longrightarrow> P s \<Longrightarrow> P (cs @ s)"
  shows "P s"
  using assms(1)
proof (induction s rule: utf8_valid.induct)
  case (1 s)
  show ?case
  proof (cases "s = []")
    case True
    then show ?thesis using assms(2) by simp
  next
    case False
    let ?n = "snd (utf8_step s)"
    from False "1.prems" have ok: "fst (utf8_step s)" and rest: "utf8_valid (drop ?n s)"
      by (simp_all add: utf8_valid.simps [of s] split: if_splits)
    with 1 False have IH: "P (drop ?n s)" by simp
    from utf8_step_char [OF ok] have "P (take ?n s @ drop ?n s)"
    proof (cases rule: utf8_char_cases)
      case (1 c)
      with rest IH assms(3) show ?thesis by simp
    next
      case 2
      with rest IH assms(4) utf8_step_char [OF ok] show ?thesis by blast
    qed
    then show ?thesis by simp
  qed
qed

lemma utf8_valid_char_append: "utf8_char cs \<Longrightarrow> utf8_valid (cs @ s) \<longleftrightarrow> utf8_valid s"
  by (subst utf8_valid.simps) (auto simp: utf8_char_step)

lemma utf8_valid_append: "utf8_valid s \<Longrightarrow> utf8_valid t \<Longrightarrow> utf8_valid (s @ t)"
  by (induction s rule: utf8_valid_induct) (auto simp: utf8_valid_char_append)

lemma utf8_valid_replacement: "utf8_valid replacement"
proof -
  have "utf8_char replacement"
    by (simp add: utf8_char_def replacement_def utf8_width_def second3_ok_def is_cont_def)
  then show ?thesis using utf8_valid_char_append [of replacement "[]"] by simp
qed

lemma utf8_lossy_is_valid: "utf8_valid (utf8_lossy s)"
proof (induction s rule: utf8_lossy.induct)
  case (1 s)
  show ?case
  proof (cases "s = []")
    case False
    with 1 have "utf8_valid (utf8_lossy (drop (snd (utf8_step s)) s))" by simp
    moreover have "utf8_valid replacement" by (rule utf8_valid_replacement)
    ultimately show ?thesis
      using False utf8_step_char [of s]
      by (simp add: utf8_lossy.simps [of s] utf8_valid_char_append utf8_valid_append)
  qed simp
qed

end
