(* ===== verification/Rust_Path.thy ===== *)
theory Rust_Path
  imports Rust_Str
begin

text \<open>
  \<^verbatim>\<open>std::path\<close> on Unix as the sources use it.  A \<^verbatim>\<open>Path\<close> is its bytes; what the sources compare
  are its components (\<^verbatim>\<open>Path\<close>'s equality and \<^verbatim>\<open>starts_with\<close> ignore repeated slashes, inner
  \<^verbatim>\<open>.\<close> components and a trailing slash), so those are the equations that matter:
  \<open>path_eq\<close>, \<open>path_starts_with\<close>, \<open>join\<close> and \<open>path_strip_prefix\<close>.
\<close>

type_synonym path = bytes

datatype component = RootDir | CurDir | ParentDir | Normal bytes

section \<open>Definitions\<close>

abbreviation slash :: char where "slash \<equiv> CHR ''/''"

definition is_absolute :: "path \<Rightarrow> bool" where
  "is_absolute p \<longleftrightarrow> p \<noteq> [] \<and> hd p = slash"

text \<open>The component a piece between two slashes stands for, after the first one.\<close>

definition component_of :: "bytes \<Rightarrow> component option" where
  "component_of s =
     (if s = [] \<or> s = ''.'' then None else if s = ''..'' then Some ParentDir else Some (Normal s))"

text \<open>\<^verbatim>\<open>Path::components\<close>: a leading \<^verbatim>\<open>.\<close> of a relative path is kept.\<close>

definition components :: "path \<Rightarrow> component list" where
  "components p =
     (if is_absolute p then [RootDir]
      else if hd (split_on slash p) = ''.'' then [CurDir] else [])
     @ filter_map component_of (split_on slash p)"

definition path_eq :: "path \<Rightarrow> path \<Rightarrow> bool" where
  "path_eq p q \<longleftrightarrow> components p = components q"

text \<open>\<open>path_starts_with p base\<close> is \<^verbatim>\<open>p.starts_with(base)\<close>.\<close>

definition path_starts_with :: "path \<Rightarrow> path \<Rightarrow> bool" where
  "path_starts_with p base \<longleftrightarrow> prefix (components base) (components p)"

text \<open>\<open>join p q\<close> is \<^verbatim>\<open>p.join(q)\<close>: an absolute \<open>q\<close> replaces \<open>p\<close>.\<close>

definition join :: "path \<Rightarrow> path \<Rightarrow> path" where
  "join p q =
     (if is_absolute q then q
      else if p = [] \<or> last p = slash then p @ q else p @ slash # q)"

text \<open>What \<^verbatim>\<open>Components::as_path\<close> drops at the two ends.\<close>

fun trim_left :: "bytes \<Rightarrow> bytes" where
  "trim_left [] = []"
| "trim_left (c # cs) =
     (if c = slash then trim_left cs
      else if c = CHR ''.'' \<and> (cs = [] \<or> hd cs = slash) then trim_left (tl cs)
      else c # cs)"

fun trim_right_rev :: "bytes \<Rightarrow> bytes" where
  "trim_right_rev [] = []"
| "trim_right_rev (c # cs) =
     (if c = slash then trim_right_rev cs
      else if c = CHR ''.'' \<and> (cs = [] \<or> hd cs = slash) then trim_right_rev (tl cs)
      else c # cs)"

definition trim_body :: "bytes \<Rightarrow> bytes" where
  "trim_body s = rev (trim_right_rev (rev (trim_left s)))"

text \<open>The bytes after the first \<open>n\<close> components, which must be there.\<close>

fun drop_names :: "nat \<Rightarrow> bytes \<Rightarrow> bytes" where
  "drop_names 0 s = s"
| "drop_names (Suc n) s = drop_names n (tl (dropWhile (\<lambda>c. c \<noteq> slash) (trim_left s)))"

definition drop_components :: "nat \<Rightarrow> path \<Rightarrow> path" where
  "drop_components n p =
     (if n = 0 then (if is_absolute p then slash # rev (trim_right_rev (rev (tl p)))
                     else rev (trim_right_rev (rev p)))
      else if is_absolute p then trim_body (drop_names (n - 1) (tl p))
      else if hd (split_on slash p) = ''.'' then trim_body (drop_names (n - 1) p)
      else trim_body (drop_names n p))"

text \<open>\<open>path_strip_prefix base p\<close> is \<^verbatim>\<open>p.strip_prefix(base).ok()\<close>.\<close>

definition path_strip_prefix :: "path \<Rightarrow> path \<Rightarrow> path option" where
  "path_strip_prefix base p =
     (if path_starts_with p base then Some (drop_components (length (components base)) p) else None)"

text \<open>\<^verbatim>\<open>root.join(path.strip_prefix("/").unwrap_or(path))\<close>: an absolute path seen below
  another root, as several modules write it.\<close>

definition below_root :: "path \<Rightarrow> path \<Rightarrow> path" where
  "below_root root p =
     join root (case path_strip_prefix ''/'' p of None \<Rightarrow> p | Some r \<Rightarrow> r)"

text \<open>The components of \<^verbatim>\<open>Path::ancestors\<close>, the path itself first: \<^verbatim>\<open>parent\<close> drops the last
  component, and the root and the empty path have none.\<close>

fun ancestors_rev :: "component list \<Rightarrow> component list list" where
  "ancestors_rev [] = [[]]"
| "ancestors_rev (c # cs) = rev (c # cs) # (if c = RootDir then [] else ancestors_rev cs)"

definition ancestors :: "component list \<Rightarrow> component list list" where
  "ancestors cs = ancestors_rev (rev cs)"

definition is_plain :: "component \<Rightarrow> bool" where
  "is_plain c \<longleftrightarrow> (case c of RootDir \<Rightarrow> True | Normal _ \<Rightarrow> True | _ \<Rightarrow> False)"

section \<open>Lemmas\<close>

lemma path_eq_refl [simp]: "path_eq p p"
  by (simp add: path_eq_def)

lemma path_eq_sym: "path_eq p q \<longleftrightarrow> path_eq q p"
  by (auto simp: path_eq_def)

lemma path_eq_trans: "path_eq p q \<Longrightarrow> path_eq q r \<Longrightarrow> path_eq p r"
  by (simp add: path_eq_def)

lemma path_starts_with_refl [simp]: "path_starts_with p p"
  by (simp add: path_starts_with_def)

lemma path_starts_with_trans:
  "path_starts_with p q \<Longrightarrow> path_starts_with q r \<Longrightarrow> path_starts_with p r"
  by (auto simp: path_starts_with_def intro: prefix_order.trans)

lemma path_starts_with_eq_left: "path_eq p q \<Longrightarrow> path_starts_with p b \<longleftrightarrow> path_starts_with q b"
  by (simp add: path_eq_def path_starts_with_def)

lemma components_root [simp, path_simps]: "components ''/'' = [RootDir]"
  by (simp add: components_def is_absolute_def component_of_def)

lemma components_absolute: "is_absolute p \<Longrightarrow> \<exists>cs. components p = RootDir # cs"
  by (simp add: components_def)

lemma component_of_cases:
  "component_of s = Some c \<Longrightarrow> c = ParentDir \<or> (c = Normal s \<and> s \<noteq> [])"
  by (auto simp: component_of_def split: if_splits)

lemma RootDir_only_first: "RootDir \<notin> set (filter_map component_of ps)"
  by (auto simp: set_filter_map component_of_def split: if_splits)

lemma CurDir_only_first: "CurDir \<notin> set (filter_map component_of ps)"
  by (auto simp: set_filter_map component_of_def split: if_splits)

lemma starts_with_root_iff: "path_starts_with p ''/'' \<longleftrightarrow> is_absolute p"
proof
  assume "path_starts_with p ''/''"
  then obtain cs where cs: "components p = RootDir # cs"
    by (auto simp: path_starts_with_def prefix_def)
  show "is_absolute p"
  proof (rule ccontr)
    assume "\<not> is_absolute p"
    with cs have "RootDir \<in> set (filter_map component_of (split_on slash p))"
      by (auto simp: components_def split: if_splits)
    then show False using RootDir_only_first by blast
  qed
next
  assume "is_absolute p"
  then obtain cs where "components p = RootDir # cs"
    using components_absolute by blast
  then show "path_starts_with p ''/''"
    by (simp add: path_starts_with_def)
qed

text \<open>The components of a joined relative path are those of the two parts, as long as the first
  part is not empty.\<close>

lemma filter_map_component_Nil [simp]: "filter_map component_of ([] # ps) = filter_map component_of ps"
  by (simp add: component_of_def)

lemma split_on_join_path:
  assumes "p \<noteq> []" "\<not> is_absolute q"
  shows "filter_map component_of (split_on slash (join p q)) =
         filter_map component_of (split_on slash p) @ filter_map component_of (split_on slash q)"
proof (cases "last p = slash")
  case True
  with assms(1) obtain p' where p: "p = p' @ [slash]"
    by (metis append_butlast_last_id)
  have "join p q = p' @ slash # q"
    using assms True p by (simp add: join_def)
  then show ?thesis
    using p by (simp add: split_on_append_delim component_of_def)
next
  case False
  then have "join p q = p @ slash # q"
    using assms by (simp add: join_def)
  then show ?thesis by (simp add: split_on_append_delim)
qed

lemma is_absolute_join: "p \<noteq> [] \<Longrightarrow> \<not> is_absolute q \<Longrightarrow> is_absolute (join p q) \<longleftrightarrow> is_absolute p"
  by (cases p) (auto simp: join_def is_absolute_def)

lemma components_join:
  assumes "is_absolute p" "\<not> is_absolute q"
  shows "components (join p q) = components p @ filter_map component_of (split_on slash q)"
  using assms split_on_join_path [of p q] is_absolute_join [of p q]
  by (auto simp: components_def is_absolute_def)

lemma join_starts_with: "is_absolute p \<Longrightarrow> \<not> is_absolute q \<Longrightarrow> path_starts_with (join p q) p"
  by (simp add: path_starts_with_def components_join)

lemma trim_left_not_slash: "trim_left s = [] \<or> hd (trim_left s) \<noteq> slash"
  by (induction s rule: trim_left.induct) auto

lemma trim_right_rev_suffix: "suffix (trim_right_rev s) s"
proof (induction s rule: trim_right_rev.induct)
  case (2 c cs)
  show ?case
  proof (cases "c = slash \<or> (c = CHR ''.'' \<and> (cs = [] \<or> hd cs = slash))")
    case True
    then have "suffix (trim_right_rev (c # cs)) cs"
      using 2 by (auto intro: suffix_order.trans suffix_tl)
    then show ?thesis by (simp add: suffix_ConsI del: trim_right_rev.simps)
  next
    case False
    then show ?thesis by auto
  qed
qed simp

lemma trim_body_not_absolute: "\<not> is_absolute (trim_body s)"
proof -
  have "prefix (trim_body s) (trim_left s)"
    using trim_right_rev_suffix [of "rev (trim_left s)"]
    by (simp add: trim_body_def suffix_to_prefix)
  then show ?thesis
    using trim_left_not_slash [of s]
    by (cases "trim_body s") (auto simp: is_absolute_def prefix_def)
qed

lemma drop_components_not_absolute: "0 < n \<Longrightarrow> \<not> is_absolute (drop_components n p)"
  by (simp add: drop_components_def trim_body_not_absolute)

text \<open>Whatever path is asked for below an absolute root stays below it.\<close>

lemma below_root_starts_with:
  assumes "is_absolute root"
  shows "path_starts_with (below_root root p) root"
proof (cases "is_absolute p")
  case True
  then have "path_strip_prefix ''/'' p = Some (drop_components 1 p)"
    by (simp add: path_strip_prefix_def starts_with_root_iff)
  then show ?thesis
    using assms by (simp add: below_root_def join_starts_with drop_components_not_absolute)
next
  case False
  then have "path_strip_prefix ''/'' p = None"
    by (simp add: path_strip_prefix_def starts_with_root_iff)
  then show ?thesis
    using assms False by (simp add: below_root_def join_starts_with)
qed

lemma ancestors_self: "cs \<in> set (ancestors cs)"
  by (cases "rev cs") (auto simp: ancestors_def rev_swap)

lemma ancestors_rev_suffixes: "a \<in> set (ancestors_rev rs) \<Longrightarrow> suffix (rev a) rs"
  by (induction rs) (auto split: if_splits intro: suffix_ConsI)

lemma ancestors_prefixes: "a \<in> set (ancestors cs) \<Longrightarrow> prefix a cs"
  by (auto simp: ancestors_def suffix_to_prefix dest: ancestors_rev_suffixes)

end
