(* ===== verification/Mountinfo.thy ===== *)
theory Mountinfo
  imports Rust_Path
begin

text \<open>
  The mount-table parser, \<^verbatim>\<open>nails-teardown/src/mountinfo.rs\<close>, with the two small readers next to
  it in \<^verbatim>\<open>nails-base/src/filesystem/mountinfo.rs\<close> and the overlay option string that
  \<^verbatim>\<open>nails-teardown/src/whole_root/nextroot.rs\<close> builds.  First the definitions, function by
  function; then the specification of a mount-table line and the lemmas: decoding inverts the
  octal and the overlay escapes, a printed line parses back, the visible mount is a mount of the
  table at the path asked for, and on a table with distinct mount IDs nothing is stacked on it.
\<close>

section \<open>Definitions\<close>

record mount_entry =
  mount_id :: int
  parent_id :: int
  m_dev :: bytes
  m_root :: path
  mount_point :: path
  mount_opts :: bytes
  m_fstype :: bytes
  m_source :: path
  super_opts :: bytes

definition read_only :: "mount_entry \<Rightarrow> bool" where
  "read_only e \<longleftrightarrow> (\<exists>opt\<in>set (split_on (CHR '','') (mount_opts e)). opt = ''ro'')"

definition mount_is_read_only :: "mount_entry \<Rightarrow> bool" where
  "mount_is_read_only e \<longleftrightarrow>
     read_only e \<or> (\<exists>opt\<in>set (split_on (CHR '','') (super_opts e)). opt = ''ro'')"

record overlay_opts =
  lowerdir :: "path list"
  upperdir :: "path option"
  workdir :: "path option"

definition default_overlay_opts :: overlay_opts where
  "default_overlay_opts = \<lparr>lowerdir = [], upperdir = None, workdir = None\<rparr>"

text \<open>The byte three octal digits name, when it is one.\<close>

definition octal_at :: "bytes \<Rightarrow> char option" where
  "octal_at s =
     (case s of a # b # c # _ \<Rightarrow>
        (if is_octal a \<and> is_octal b \<and> is_octal c
         then (let v = (byte a - 48) * 64 + (byte b - 48) * 8 + (byte c - 48)
               in if v \<le> 255 then Some (char_of v) else None)
         else None)
      | _ \<Rightarrow> None)"

text \<open>\<^verbatim>\<open>unescape\<close>: octal escapes, and any other backslash takes the next byte literally.\<close>

fun unescape_bytes :: "bytes \<Rightarrow> bytes" where
  "unescape_bytes [] = []"
| "unescape_bytes (c # cs) =
     (if c = backslash then
        (case octal_at cs of
           Some v \<Rightarrow> v # unescape_bytes (drop 3 cs)
         | None \<Rightarrow> (case cs of [] \<Rightarrow> [backslash] | d # ds \<Rightarrow> d # unescape_bytes ds))
      else c # unescape_bytes cs)"

definition unescape :: "bytes \<Rightarrow> bytes" where
  "unescape s = utf8_lossy (unescape_bytes s)"

text \<open>\<^verbatim>\<open>unescape_octal\<close>: octal escapes only; any other escaped pair stays as it is.\<close>

fun unescape_octal_bytes :: "bytes \<Rightarrow> bytes" where
  "unescape_octal_bytes [] = []"
| "unescape_octal_bytes (c # cs) =
     (if c = backslash then
        (case octal_at cs of
           Some v \<Rightarrow> v # unescape_octal_bytes (drop 3 cs)
         | None \<Rightarrow> (case cs of [] \<Rightarrow> [backslash] | d # ds \<Rightarrow> backslash # d # unescape_octal_bytes ds))
      else c # unescape_octal_bytes cs)"

definition unescape_octal :: "bytes \<Rightarrow> bytes" where
  "unescape_octal s = utf8_lossy (unescape_octal_bytes s)"

text \<open>\<^verbatim>\<open>split_raw\<close>: the loop with its two variables, whether the last byte was a backslash and
  the piece read so far.\<close>

fun split_raw_loop :: "char \<Rightarrow> bool \<Rightarrow> bytes \<Rightarrow> bytes \<Rightarrow> bytes list" where
  "split_raw_loop delim escaped cur [] = [if escaped then cur @ [backslash] else cur]"
| "split_raw_loop delim escaped cur (c # cs) =
     (if escaped then split_raw_loop delim False (cur @ [backslash, c]) cs
      else if c = backslash then split_raw_loop delim True cur cs
      else if c = delim then cur # split_raw_loop delim False [] cs
      else split_raw_loop delim False (cur @ [c]) cs)"

definition split_raw :: "bytes \<Rightarrow> char \<Rightarrow> bytes list" where
  "split_raw s delim = split_raw_loop delim False [] s"

definition parse_line :: "bytes \<Rightarrow> mount_entry option" where
  "parse_line line =
     (let tokens = split_on (CHR '' '') (trim_start line) in
      case position (\<lambda>t. t = ''-'') tokens of None \<Rightarrow> None
      | Some sep \<Rightarrow>
          if sep < 6 \<or> length tokens \<le> sep + 3 then None
          else (case parse_i32 (tokens ! 0) of None \<Rightarrow> None
            | Some mid \<Rightarrow>
                (case parse_i32 (tokens ! 1) of None \<Rightarrow> None
                 | Some pid \<Rightarrow>
                     Some \<lparr>mount_id = mid, parent_id = pid, m_dev = tokens ! 2,
                           m_root = unescape (tokens ! 3), mount_point = unescape (tokens ! 4),
                           mount_opts = tokens ! 5, m_fstype = tokens ! (sep + 1),
                           m_source = unescape (tokens ! (sep + 2)),
                           super_opts = tokens ! (sep + 3)\<rparr>)))"

definition parse_mountinfo :: "bytes \<Rightarrow> mount_entry list" where
  "parse_mountinfo content = filter_map parse_line (lines_of content)"

fun unescape_overlay :: "bytes \<Rightarrow> bytes" where
  "unescape_overlay [] = []"
| "unescape_overlay (c # cs) =
     (if c = backslash then (case cs of [] \<Rightarrow> [backslash] | d # ds \<Rightarrow> d # unescape_overlay ds)
      else c # unescape_overlay cs)"

definition overlay_opt_step :: "overlay_opts \<Rightarrow> bytes \<Rightarrow> overlay_opts" where
  "overlay_opt_step opts raw =
     (case strip_prefix ''lowerdir='' raw of
        Some v \<Rightarrow> opts\<lparr>lowerdir := map unescape_overlay
                    (filter (\<lambda>s. s \<noteq> []) (split_raw (unescape_octal v) (CHR '':'')))\<rparr>
      | None \<Rightarrow>
         (case strip_prefix ''upperdir='' raw of
            Some v \<Rightarrow> opts\<lparr>upperdir := Some (unescape_overlay (unescape_octal v))\<rparr>
          | None \<Rightarrow>
             (case strip_prefix ''workdir='' raw of
                Some v \<Rightarrow> opts\<lparr>workdir := Some (unescape_overlay (unescape_octal v))\<rparr>
              | None \<Rightarrow> opts)))"

definition parse_overlay_opts :: "bytes \<Rightarrow> overlay_opts" where
  "parse_overlay_opts s = foldl overlay_opt_step default_overlay_opts (split_raw s (CHR '',''))"

definition overlay_special :: "char \<Rightarrow> bool" where
  "overlay_special c \<longleftrightarrow> c = backslash \<or> c = CHR '':'' \<or> c = CHR '',''"

fun escape_overlay :: "bytes \<Rightarrow> bytes" where
  "escape_overlay [] = []"
| "escape_overlay (c # cs) = (if overlay_special c then [backslash, c] else [c]) @ escape_overlay cs"

definition escape_overlay_path :: "path \<Rightarrow> bytes option" where
  "escape_overlay_path p =
     (let s = utf8_lossy p in if newline \<in> set s then None else Some (escape_overlay s))"

text \<open>\<^verbatim>\<open>overlay_data\<close>: the \<^verbatim>\<open>mount(2)\<close> data of a one-lower overlay; \<^const>\<open>None\<close> is the
  \<^verbatim>\<open>InvalidInput\<close> error of a path that holds a newline.\<close>

definition overlay_feature_options :: bytes where
  "overlay_feature_options = ''index=off,metacopy=off,redirect_dir=nofollow''"

definition overlay_data :: "path \<Rightarrow> path \<Rightarrow> path \<Rightarrow> bytes option" where
  "overlay_data lower upper work =
     (case escape_overlay_path lower of None \<Rightarrow> None
      | Some l \<Rightarrow> (case escape_overlay_path upper of None \<Rightarrow> None
        | Some u \<Rightarrow> (case escape_overlay_path work of None \<Rightarrow> None
          | Some w \<Rightarrow>
             Some (''lowerdir='' @ l @ '',upperdir='' @ u @ '',workdir='' @ w @ '','' @
                   overlay_feature_options))))"

subsection \<open>The visible mount at a path\<close>

text \<open>The mount the walk starts from: one at \<^verbatim>\<open>/\<close> that does not sit on another one at \<^verbatim>\<open>/\<close>.\<close>

definition at_point :: "mount_entry \<Rightarrow> component list \<Rightarrow> bool" where
  "at_point e cs \<longleftrightarrow> components (mount_point e) = cs"

definition walk_start :: "mount_entry list \<Rightarrow> mount_entry option" where
  "walk_start entries =
     find (\<lambda>e. at_point e [RootDir] \<and>
               \<not> (\<exists>below\<in>set entries. mount_id below = parent_id e \<and> at_point below [RootDir]))
       entries"

definition stacked_on :: "mount_entry list \<Rightarrow> mount_entry \<Rightarrow> component list \<Rightarrow> mount_entry option" where
  "stacked_on entries at cs =
     find (\<lambda>e. at_point e cs \<and> parent_id e = mount_id at \<and> mount_id e \<noteq> mount_id at) entries"

fun climb :: "nat \<Rightarrow> mount_entry list \<Rightarrow> mount_entry \<Rightarrow> component list \<Rightarrow> mount_entry" where
  "climb 0 entries at cs = at"
| "climb (Suc n) entries at cs =
     (case stacked_on entries at cs of
        Some e \<Rightarrow> climb n entries e cs
      | None \<Rightarrow> at)"

fun walk_prefixes :: "mount_entry list \<Rightarrow> mount_entry \<Rightarrow> component list \<Rightarrow> component list \<Rightarrow> mount_entry" where
  "walk_prefixes entries current pre [] = current"
| "walk_prefixes entries current pre (c # cs) =
     walk_prefixes entries (climb (length entries) entries current (pre @ [c])) (pre @ [c]) cs"

text \<open>\<^verbatim>\<open>top_mount_at\<close> on the components of its target.\<close>

definition top_mount_at_components :: "mount_entry list \<Rightarrow> component list \<Rightarrow> mount_entry option" where
  "top_mount_at_components entries target =
     (case walk_start entries of None \<Rightarrow> None
      | Some start \<Rightarrow>
          (let current = walk_prefixes entries (climb (length entries) entries start [RootDir]) [RootDir] (drop 1 target)
           in if at_point current target then Some current else None))"

definition top_mount_at :: "mount_entry list \<Rightarrow> path \<Rightarrow> mount_entry option" where
  "top_mount_at entries target = top_mount_at_components entries (components target)"

definition root_is_hidden_overlay :: "mount_entry list \<Rightarrow> path \<Rightarrow> bytes option" where
  "root_is_hidden_overlay entries hidden_root =
     (case top_mount_at entries ''/'' of None \<Rightarrow> None
      | Some r \<Rightarrow>
          if m_fstype r \<noteq> ''overlay'' then None
          else (case upperdir (parse_overlay_opts (super_opts r)) of None \<Rightarrow> None
            | Some upper \<Rightarrow>
                if path_starts_with upper hidden_root then Some (utf8_lossy upper) else None))"

definition is_mount_point :: "mount_entry list \<Rightarrow> path \<Rightarrow> bool" where
  "is_mount_point entries p \<longleftrightarrow> (\<exists>e\<in>set entries. path_eq (mount_point e) p)"

section \<open>Lemmas\<close>

subsection \<open>Escapes\<close>

lemma not_octal_backslash [simp]: "\<not> is_octal backslash"
  by (simp add: is_octal_def backslash_def)

lemma byte_less_256: "byte c < 256"
  by simp

text \<open>The three-digit octal escape of a byte, as the kernel prints it.\<close>

definition octal_escape :: "char \<Rightarrow> bytes" where
  "octal_escape c =
     [backslash, char_of (48 + byte c div 64), char_of (48 + byte c div 8 mod 8),
      char_of (48 + byte c mod 8)]"

definition octal_encode :: "(char \<Rightarrow> bool) \<Rightarrow> bytes \<Rightarrow> bytes" where
  "octal_encode S s = concat (map (\<lambda>c. if S c then octal_escape c else [c]) s)"

lemma octal_digit: "(n::nat) < 8 \<Longrightarrow> is_octal (char_of (48 + n)) \<and> byte (char_of (48 + n)) = 48 + n"
  by (simp add: is_octal_def)

lemma octal_at_digits:
  assumes "(a::nat) < 8" "(b::nat) < 8" "(c::nat) < 8" "a * 64 + b * 8 + c \<le> 255"
  shows "octal_at (char_of (48 + a) # char_of (48 + b) # char_of (48 + c) # s)
         = Some (char_of (a * 64 + b * 8 + c))"
  using octal_digit [OF assms(1)] octal_digit [OF assms(2)] octal_digit [OF assms(3)] assms(4)
  by (simp add: octal_at_def Let_def del: of_char_of)

lemma octal_digits_sum: "(n::nat) div 64 * 64 + n div 8 mod 8 * 8 + n mod 8 = n"
proof -
  have "n div 64 = n div 8 div 8" by (simp add: div_mult2_eq [symmetric])
  then have "n div 64 * 8 + n div 8 mod 8 = n div 8" by simp
  then have "(n div 64 * 8 + n div 8 mod 8) * 8 + n mod 8 = n" by simp
  then show ?thesis by (simp add: algebra_simps)
qed

lemma octal_at_escape:
  "octal_at (char_of (48 + byte c div 64) # char_of (48 + byte c div 8 mod 8)
     # char_of (48 + byte c mod 8) # s) = Some c"
proof -
  have "byte c div 64 < 8" using byte_less_256 [of c] by linarith
  moreover have "byte c div 64 * 64 + byte c div 8 mod 8 * 8 + byte c mod 8 \<le> 255"
    using byte_less_256 [of c] by (simp only: octal_digits_sum)
  ultimately show ?thesis
    using octal_at_digits [of "byte c div 64" "byte c div 8 mod 8" "byte c mod 8" s]
    by (simp only: octal_digits_sum) simp
qed

lemma octal_encode_Nil [simp]: "octal_encode S [] = []"
  by (simp add: octal_encode_def)

lemma octal_encode_Cons:
  "octal_encode S (c # s) = (if S c then octal_escape c else [c]) @ octal_encode S s"
  by (simp add: octal_encode_def)

lemma unescape_bytes_encode: "S backslash \<Longrightarrow> unescape_bytes (octal_encode S s) = s"
proof (induction s)
  case (Cons c s)
  show ?case
  proof (cases "S c")
    case True
    then show ?thesis
      using Cons by (simp add: octal_encode_Cons octal_escape_def octal_at_escape)
  next
    case False
    then have "c \<noteq> backslash" using Cons.prems by auto
    with False show ?thesis
      using Cons by (simp add: octal_encode_Cons)
  qed
qed simp

lemma unescape_octal_bytes_encode: "S backslash \<Longrightarrow> unescape_octal_bytes (octal_encode S s) = s"
proof (induction s)
  case (Cons c s)
  show ?case
  proof (cases "S c")
    case True
    then show ?thesis
      using Cons by (simp add: octal_encode_Cons octal_escape_def octal_at_escape)
  next
    case False
    then have "c \<noteq> backslash" using Cons.prems by auto
    with False show ?thesis
      using Cons by (simp add: octal_encode_Cons)
  qed
qed simp

lemma unescape_encode:
  "S backslash \<Longrightarrow> utf8_valid s \<Longrightarrow> unescape (octal_encode S s) = s"
  by (simp add: unescape_def unescape_bytes_encode utf8_lossy_valid)

lemma backslash_not_digit: "is_octal c \<Longrightarrow> c \<noteq> backslash"
  by auto

lemma octal_encode_chars:
  assumes "x \<in> set (octal_encode S s)" "x \<noteq> backslash" "\<not> is_octal x"
  shows "x \<in> set s \<and> \<not> S x"
  using assms
proof (induction s)
  case (Cons c s)
  have "byte c div 64 < 8" using byte_less_256 [of c] by linarith
  then have "\<forall>y\<in>set (octal_escape c). y = backslash \<or> is_octal y"
    using octal_digit by (simp add: octal_escape_def)
  with Cons show ?case
    by (auto simp: octal_encode_Cons split: if_splits)
qed simp

subsection \<open>The overlay escape\<close>

lemma unescape_overlay_escape: "unescape_overlay (escape_overlay s) = s"
  by (induction s) (auto simp: overlay_special_def)

lemma overlay_special_not_octal: "overlay_special c \<Longrightarrow> \<not> is_octal c"
  by (auto simp: overlay_special_def is_octal_def backslash_def)

lemma octal_at_special: "overlay_special c \<Longrightarrow> octal_at (c # s) = None"
  by (auto simp: octal_at_def overlay_special_not_octal split: list.splits)

lemma unescape_octal_bytes_escape_append:
  "unescape_octal_bytes (escape_overlay s @ r) = escape_overlay s @ unescape_octal_bytes r"
proof (induction s)
  case (Cons c s)
  show ?case
  proof (cases "overlay_special c")
    case True
    then show ?thesis
      using Cons by (simp add: octal_at_special)
  next
    case False
    then have "c \<noteq> backslash" by (auto simp: overlay_special_def)
    with False Cons show ?thesis by simp
  qed
qed simp

lemma unescape_octal_bytes_escape: "unescape_octal_bytes (escape_overlay s) = escape_overlay s"
  using unescape_octal_bytes_escape_append [of s "[]"] by simp

text \<open>Splitting an option string at a separator the escape protects.\<close>

lemma split_raw_loop_escape:
  assumes "overlay_special delim" "delim \<noteq> backslash"
  shows "split_raw_loop delim False cur (escape_overlay s @ r) =
         split_raw_loop delim False (cur @ escape_overlay s) r"
  using assms by (induction s arbitrary: cur) (auto simp: overlay_special_def)

lemma split_raw_loop_plain:
  assumes "backslash \<notin> set s" "delim \<notin> set s" "delim \<noteq> backslash"
  shows "split_raw_loop delim False cur (s @ r) = split_raw_loop delim False (cur @ s) r"
  using assms by (induction s arbitrary: cur) auto

lemma split_raw_loop_delim:
  "delim \<noteq> backslash \<Longrightarrow>
   split_raw_loop delim False cur (delim # r) = cur # split_raw_loop delim False [] r"
  by simp

subsection \<open>The visible mount\<close>

lemma stacked_on_SomeD:
  "stacked_on es at cs = Some e \<Longrightarrow>
     e \<in> set es \<and> at_point e cs \<and> parent_id e = mount_id at \<and> mount_id e \<noteq> mount_id at"
  by (auto simp: stacked_on_def dest: find_SomeD)

lemma stacked_on_None_iff:
  "stacked_on es at cs = None \<longleftrightarrow>
     (\<forall>e\<in>set es. \<not> (at_point e cs \<and> parent_id e = mount_id at \<and> mount_id e \<noteq> mount_id at))"
  by (auto simp: stacked_on_def find_None_iff)

lemma walk_start_SomeD:
  "walk_start es = Some e \<Longrightarrow>
     e \<in> set es \<and> at_point e [RootDir] \<and>
     (\<forall>b\<in>set es. mount_id b = parent_id e \<longrightarrow> \<not> at_point b [RootDir])"
  by (auto simp: walk_start_def dest: find_SomeD)

lemma climb_in: "at \<in> set es \<Longrightarrow> climb n es at cs \<in> set es"
  by (induction n es at cs rule: climb.induct) (auto split: option.splits dest: stacked_on_SomeD)

lemma walk_prefixes_in: "cur \<in> set es \<Longrightarrow> walk_prefixes es cur pre cs \<in> set es"
  by (induction es cur pre cs rule: walk_prefixes.induct) (auto intro: climb_in)

lemma top_mount_at_components_SomeD:
  assumes "top_mount_at_components es target = Some e"
  shows "e \<in> set es \<and> at_point e target"
  using assms
  by (auto simp: top_mount_at_components_def Let_def split: option.splits if_splits
      dest!: walk_start_SomeD intro: walk_prefixes_in climb_in)

text \<open>The chain a climb goes through: each mount sits on the one before it.\<close>

fun climb_chain :: "nat \<Rightarrow> mount_entry list \<Rightarrow> mount_entry \<Rightarrow> component list \<Rightarrow> mount_entry list" where
  "climb_chain 0 es at cs = [at]"
| "climb_chain (Suc n) es at cs =
     (case stacked_on es at cs of
        Some e \<Rightarrow> at # climb_chain n es e cs
      | None \<Rightarrow> [at])"

lemma climb_chain_not_Nil [simp]: "climb_chain n es at cs \<noteq> []"
  by (cases n) (auto split: option.splits)

lemma climb_chain_last: "last (climb_chain n es at cs) = climb n es at cs"
  by (induction n es at cs rule: climb_chain.induct) (auto split: option.splits)

lemma climb_chain_hd [simp]: "hd (climb_chain n es at cs) = at"
  by (cases n) (auto split: option.splits)

lemma climb_chain_subset: "at \<in> set es \<Longrightarrow> set (climb_chain n es at cs) \<subseteq> set es"
  by (induction n es at cs rule: climb_chain.induct) (auto split: option.splits dest: stacked_on_SomeD)

lemma climb_chain_link:
  "Suc i < length (climb_chain n es at cs) \<Longrightarrow>
     parent_id (climb_chain n es at cs ! Suc i) = mount_id (climb_chain n es at cs ! i)
   \<and> mount_id (climb_chain n es at cs ! Suc i) \<noteq> mount_id (climb_chain n es at cs ! i)
   \<and> at_point (climb_chain n es at cs ! Suc i) cs"
proof (induction n es at cs arbitrary: i rule: climb_chain.induct)
  case (2 n es at cs)
  show ?case
  proof (cases "stacked_on es at cs")
    case None
    with "2.prems" show ?thesis by simp
  next
    case (Some b)
    show ?thesis
    proof (cases i)
      case 0
      with Some stacked_on_SomeD [OF Some] show ?thesis
        by (simp add: hd_conv_nth [symmetric])
    next
      case (Suc k)
      with Some 2 show ?thesis by simp
    qed
  qed
qed simp

lemma climb_stops_or_long:
  "stacked_on es (climb n es at cs) cs = None \<or> length (climb_chain n es at cs) = Suc n"
  by (induction n es at cs rule: climb_chain.induct) (auto split: option.splits)

lemma unique_ids_eq:
  assumes "distinct (map mount_id es)" "a \<in> set es" "b \<in> set es" "mount_id a = mount_id b"
  shows "a = b"
  using assms by (auto simp: distinct_map inj_on_def)

text \<open>With unique IDs each mount has one parent, so a chain that meets a mount twice comes back
  to its first mount.\<close>

lemma climb_chain_repeat:
  assumes uniq: "distinct (map mount_id es)" and "at \<in> set es"
  shows "\<lbrakk>i < j; j < length (climb_chain n es at cs);
          climb_chain n es at cs ! i = climb_chain n es at cs ! j\<rbrakk>
         \<Longrightarrow> \<exists>k>0. k < length (climb_chain n es at cs) \<and> climb_chain n es at cs ! k = at"
proof (induction i arbitrary: j)
  case 0
  then show ?case
    by (metis climb_chain_hd climb_chain_not_Nil hd_conv_nth)
next
  case (Suc i)
  let ?c = "climb_chain n es at cs"
  from Suc.prems obtain j' where j: "j = Suc j'" "i < j'" by (cases j) auto
  have "mount_id (?c ! i) = mount_id (?c ! j')"
    using climb_chain_link [of i n es at cs] climb_chain_link [of j' n es at cs] Suc.prems j
    by simp
  moreover have "?c ! i \<in> set es" "?c ! j' \<in> set es"
    using climb_chain_subset [OF assms(2), of n cs] Suc.prems j
    by (meson nth_mem less_trans lessI subsetD)+
  ultimately have "?c ! i = ?c ! j'"
    using unique_ids_eq [OF uniq] by blast
  then show ?case using Suc.IH [of j'] j Suc.prems by auto
qed

text \<open>A climb that starts at the bottom of its stack ends at the top of it.\<close>

lemma climb_top:
  assumes uniq: "distinct (map mount_id es)" and at: "at \<in> set es"
    and bottom: "at_point at cs \<Longrightarrow> \<forall>b\<in>set es. mount_id b = parent_id at \<longrightarrow> \<not> at_point b cs"
  shows "stacked_on es (climb (length es) es at cs) cs = None"
proof (rule ccontr)
  let ?c = "climb_chain (length es) es at cs"
  assume "stacked_on es (climb (length es) es at cs) cs \<noteq> None"
  then have len: "length ?c = Suc (length es)"
    using climb_stops_or_long [of es "length es" at cs] by auto
  have "\<not> distinct ?c"
    using len climb_chain_subset [OF at, of "length es" cs]
    by (metis Suc_n_not_le_n card_length card_mono distinct_card List.finite_set order_trans)
  then obtain i j where "i < j" "j < length ?c" "?c ! i = ?c ! j"
    by (metis distinct_conv_nth linorder_neqE_nat)
  then obtain k where k: "0 < k" "k < length ?c" "?c ! k = at"
    using climb_chain_repeat [OF uniq at] by blast
  from k(1) obtain k' where k': "k = Suc k'" by (cases k) auto
  have link: "parent_id at = mount_id (?c ! k')" "mount_id at \<noteq> mount_id (?c ! k')" "at_point at cs"
    using climb_chain_link [of k' "length es" es at cs] k k' by auto
  have "k' \<noteq> 0"
    using link(2) by (metis climb_chain_hd climb_chain_not_Nil hd_conv_nth)
  then have "at_point (?c ! k') cs"
    using climb_chain_link [of "k' - 1" "length es" es at cs] k k' by auto
  moreover have "?c ! k' \<in> set es"
    using climb_chain_subset [OF at, of "length es" cs] k k'
    by (meson nth_mem less_trans lessI subsetD)
  ultimately show False using bottom link by auto
qed

lemma climb_point:
  "at_point (climb n es at cs) cs \<or> climb n es at cs = at"
proof (induction n es at cs rule: climb.induct)
  case (2 n es at cs)
  show ?case
  proof (cases "stacked_on es at cs")
    case (Some b)
    then have "at_point b cs" by (auto dest: stacked_on_SomeD)
    with 2 [OF Some] Some show ?thesis by auto
  qed simp
qed simp

lemma walk_prefixes_top:
  assumes uniq: "distinct (map mount_id es)" and "cur \<in> set es"
    and "prefix (components (mount_point cur)) pre"
    and "stacked_on es cur pre = None"
  shows "stacked_on es (walk_prefixes es cur pre cs) (pre @ cs) = None"
  using assms(2-)
proof (induction cs arbitrary: cur pre)
  case (Cons c cs)
  let ?n = "climb (length es) es cur (pre @ [c])"
  have np: "\<not> at_point cur (pre @ [c])"
    using Cons.prems(2) by (auto simp: at_point_def prefix_def)
  then have "stacked_on es ?n (pre @ [c]) = None"
    using climb_top [OF uniq Cons.prems(1)] by blast
  moreover have "?n \<in> set es" using Cons.prems(1) by (rule climb_in)
  moreover have "prefix (components (mount_point ?n)) (pre @ [c])"
    using climb_point [of "length es" es cur "pre @ [c]"] Cons.prems(2)
    by (auto simp: at_point_def)
  ultimately show ?case using Cons.IH [of ?n "pre @ [c]"] by simp
qed simp

lemma top_mount_at_components_top:
  assumes uniq: "distinct (map mount_id es)"
    and top: "top_mount_at_components es (RootDir # cs) = Some e"
  shows "stacked_on es e (RootDir # cs) = None"
proof -
  from top obtain start where start: "walk_start es = Some start"
    by (auto simp: top_mount_at_components_def split: option.splits)
  let ?r = "climb (length es) es start [RootDir]"
  from walk_start_SomeD [OF start] have s: "start \<in> set es" "at_point start [RootDir]"
    "\<forall>b\<in>set es. mount_id b = parent_id start \<longrightarrow> \<not> at_point b [RootDir]"
    by blast+
  have "stacked_on es ?r [RootDir] = None"
    using climb_top [OF uniq s(1)] s(3) by blast
  moreover have "at_point ?r [RootDir]"
    using climb_point [of "length es" es start "[RootDir]"] s(2) by auto
  ultimately have "stacked_on es (walk_prefixes es ?r [RootDir] cs) ([RootDir] @ cs) = None"
    using walk_prefixes_top [OF uniq climb_in [OF s(1)], of "length es" "[RootDir]" "[RootDir]" cs]
    by (simp add: at_point_def)
  moreover from top start have "e = walk_prefixes es ?r [RootDir] cs"
    by (auto simp: top_mount_at_components_def Let_def split: if_splits)
  ultimately show ?thesis by simp
qed

subsection \<open>Round trips\<close>

lemma escape_overlay_append: "escape_overlay (xs @ ys) = escape_overlay xs @ escape_overlay ys"
  by (induction xs) auto

lemma escape_overlay_non_ascii: "\<forall>c\<in>set cs. \<not> is_ascii c \<Longrightarrow> escape_overlay cs = cs"
  by (induction cs) (auto simp: overlay_special_def is_ascii_def backslash_def)

lemma escape_overlay_valid: "utf8_valid s \<Longrightarrow> utf8_valid (escape_overlay s)"
proof (induction s rule: utf8_valid_induct)
  case (ascii c s)
  then show ?case by (simp add: is_ascii_def backslash_def)
next
  case (multi cs s)
  then show ?case
    by (simp add: escape_overlay_append escape_overlay_non_ascii utf8_valid_char_append)
qed simp

lemma unescape_octal_escape: "utf8_valid s \<Longrightarrow> unescape_octal (escape_overlay s) = escape_overlay s"
  by (simp add: unescape_octal_def unescape_octal_bytes_escape utf8_lossy_valid escape_overlay_valid)

lemma split_raw_escape: "split_raw (escape_overlay s) (CHR '':'') = [escape_overlay s]"
  using split_raw_loop_escape [of "CHR '':''" "[]" s "[]"]
  by (simp add: split_raw_def overlay_special_def backslash_def)

lemma escape_overlay_Nil_iff [simp]: "escape_overlay s = [] \<longleftrightarrow> s = []"
  by (cases s) auto

lemma split_raw_overlay_data:
  "split_raw (''lowerdir='' @ escape_overlay l @ '',upperdir='' @ escape_overlay u @ '',workdir='' @
      escape_overlay w @ '','' @ overlay_feature_options) (CHR '','')
   = [''lowerdir='' @ escape_overlay l, ''upperdir='' @ escape_overlay u, ''workdir='' @ escape_overlay w,
      ''index=off'', ''metacopy=off'', ''redirect_dir=nofollow'']"
  using split_raw_loop_escape [of "CHR '',''"]
  by (simp add: split_raw_def overlay_feature_options_def overlay_special_def backslash_def)

lemma parse_overlay_opts_data:
  assumes "utf8_valid l" "utf8_valid u" "utf8_valid w" "l \<noteq> []" "overlay_data l u w = Some d"
  shows "parse_overlay_opts d = \<lparr>lowerdir = [l], upperdir = Some u, workdir = Some w\<rparr>"
proof -
  have d: "d = ''lowerdir='' @ escape_overlay l @ '',upperdir='' @ escape_overlay u @ '',workdir='' @
      escape_overlay w @ '','' @ overlay_feature_options"
    using assms by (auto simp: overlay_data_def escape_overlay_path_def utf8_lossy_valid Let_def
        split: option.splits if_splits)
  show ?thesis
    unfolding parse_overlay_opts_def d split_raw_overlay_data
    using assms
    by (simp add: overlay_opt_step_def default_overlay_opts_def unescape_octal_escape
        split_raw_escape unescape_overlay_escape)
qed

text \<open>A line of \<^verbatim>\<open>/proc/<pid>/mountinfo\<close> as proc(5) describes it: the entry's fields separated by
  single spaces, with any number of optional fields before the separator, and space, tab, newline
  and backslash octal-escaped in the three path fields.\<close>

definition kernel_escaped :: "char \<Rightarrow> bool" where
  "kernel_escaped c \<longleftrightarrow> c = CHR '' '' \<or> c = CHR 0x09 \<or> c = newline \<or> c = backslash"

definition mountinfo_tokens :: "mount_entry \<Rightarrow> bytes list \<Rightarrow> bytes list" where
  "mountinfo_tokens e optional =
     [show_int (mount_id e), show_int (parent_id e), m_dev e, octal_encode kernel_escaped (m_root e),
      octal_encode kernel_escaped (mount_point e), mount_opts e] @ optional @
     [''-'', m_fstype e, octal_encode kernel_escaped (m_source e), super_opts e]"

definition mountinfo_line :: "mount_entry \<Rightarrow> bytes list \<Rightarrow> bytes" where
  "mountinfo_line e optional = join_with '' '' (mountinfo_tokens e optional)"

definition plain_field :: "bytes \<Rightarrow> bool" where
  "plain_field f \<longleftrightarrow> CHR '' '' \<notin> set f \<and> newline \<notin> set f \<and> CHR 0x0D \<notin> set f"

definition printable_entry :: "mount_entry \<Rightarrow> bytes list \<Rightarrow> bool" where
  "printable_entry e optional \<longleftrightarrow>
     in_i32 (mount_id e) \<and> in_i32 (parent_id e) \<and>
     utf8_valid (m_root e) \<and> utf8_valid (mount_point e) \<and> utf8_valid (m_source e) \<and>
     m_root e \<noteq> ''-'' \<and> mount_point e \<noteq> ''-'' \<and> super_opts e \<noteq> [] \<and>
     (\<forall>f\<in>set ([m_dev e, mount_opts e] @ optional). f \<noteq> ''-'' \<and> plain_field f) \<and>
     plain_field (m_fstype e) \<and> plain_field (super_opts e)"

lemma show_int_chars: "c \<in> set (show_int i) \<Longrightarrow> is_digit c \<or> c = CHR ''-''"
  by (auto simp: show_int_def split: if_splits dest: show_nat_digits)

lemma show_int_not_sep: "show_int i \<noteq> ''-''"
proof
  assume "show_int i = ''-''"
  then show False
    using show_nat_not_Nil show_nat_hd_digit [of "nat i"]
    by (auto simp: show_int_def split: if_splits)
qed

lemma octal_encode_no_space: "CHR '' '' \<notin> set (octal_encode kernel_escaped s)"
  and octal_encode_no_newline: "newline \<notin> set (octal_encode kernel_escaped s)"
  using octal_encode_chars [of "CHR '' ''" kernel_escaped s] octal_encode_chars [of newline kernel_escaped s]
  by (auto simp: kernel_escaped_def newline_def backslash_def is_octal_def)

lemma octal_encode_Nil_iff [simp]: "octal_encode S s = [] \<longleftrightarrow> s = []"
  by (cases s) (auto simp: octal_encode_Cons octal_escape_def)

lemma octal_encode_sep: "octal_encode kernel_escaped s = ''-'' \<Longrightarrow> s = ''-''"
  by (cases s) (auto simp: octal_encode_Cons octal_escape_def kernel_escaped_def split: if_splits)

lemma show_int_plain [simp]: "CHR '' '' \<notin> set (show_int i)" "newline \<notin> set (show_int i)"
  using show_int_chars not_digit_sign by (fastforce simp: newline_def)+

lemma mountinfo_tokens_plain:
  assumes "printable_entry e optional" "t \<in> set (mountinfo_tokens e optional)"
  shows "CHR '' '' \<notin> set t \<and> newline \<notin> set t"
  using assms octal_encode_no_space octal_encode_no_newline
  by (auto simp: mountinfo_tokens_def printable_entry_def plain_field_def) (simp add: newline_def)

lemma position_first: "x \<notin> set xs \<Longrightarrow> position (\<lambda>t. t = x) (xs @ x # ys) = Some (length xs)"
  by (induction xs) auto

lemma plain_field_last: "plain_field f \<Longrightarrow> f \<noteq> [] \<Longrightarrow> last f \<noteq> CHR 0x0D"
  by (metis last_in_set plain_field_def)

lemma split_mountinfo_line:
  assumes "printable_entry e optional"
  shows "split_on (CHR '' '') (mountinfo_line e optional) = mountinfo_tokens e optional"
  unfolding mountinfo_line_def
  using mountinfo_tokens_plain [OF assms] by (intro split_on_join) (auto simp: mountinfo_tokens_def)

lemma position_sep:
  assumes "printable_entry e optional"
  shows "position (\<lambda>t. t = ''-'') (mountinfo_tokens e optional) = Some (6 + length optional)"
proof -
  let ?xs = "[show_int (mount_id e), show_int (parent_id e), m_dev e,
      octal_encode kernel_escaped (m_root e), octal_encode kernel_escaped (mount_point e), mount_opts e] @ optional"
  have "show_int (mount_id e) \<noteq> ''-''" "show_int (parent_id e) \<noteq> ''-''"
    "octal_encode kernel_escaped (m_root e) \<noteq> ''-''" "octal_encode kernel_escaped (mount_point e) \<noteq> ''-''"
    "m_dev e \<noteq> ''-''" "mount_opts e \<noteq> ''-''" "''-'' \<notin> set optional"
    using assms octal_encode_sep show_int_not_sep by (auto simp: printable_entry_def)
  then have "''-'' \<notin> set ?xs" by (simp add: eq_commute [of "''-''"])
  from position_first [OF this] show ?thesis by (simp add: mountinfo_tokens_def)
qed

lemma join_with_hd: "p \<noteq> [] \<Longrightarrow> \<exists>r. join_with sep (p # ps) = p @ r"
  by (cases ps) auto

lemma join_with_snoc: "ps \<noteq> [] \<Longrightarrow> join_with sep (ps @ [q]) = join_with sep ps @ sep @ q"
  by (induction sep ps rule: join_with.induct) auto

lemma mountinfo_line_trim: "trim_start (mountinfo_line e optional) = mountinfo_line e optional"
proof (rule trim_start_id)
  have "show_int (mount_id e) \<noteq> []" by (simp add: show_int_def)
  then obtain c cs where c: "show_int (mount_id e) = c # cs" by (meson neq_Nil_conv)
  then have "is_digit c \<or> c = CHR ''-''" using show_int_chars [of c "mount_id e"] by simp
  then have "48 \<le> byte c \<and> byte c \<le> 57 \<or> byte c = 45" by (auto simp: is_digit_def)
  moreover obtain r where "mountinfo_line e optional = c # r"
    using c by (auto simp: mountinfo_line_def mountinfo_tokens_def)
  ultimately show "ws_len (mountinfo_line e optional) = 0"
    using ws_len_graphic [of c r] by auto
qed

lemma parse_mountinfo_line:
  assumes "printable_entry e optional"
  shows "parse_line (mountinfo_line e optional) = Some e"
proof -
  let ?t = "mountinfo_tokens e optional"
  have len: "length ?t = 10 + length optional" by (simp add: mountinfo_tokens_def)
  have nth: "?t ! 0 = show_int (mount_id e)" "?t ! 1 = show_int (parent_id e)" "?t ! 2 = m_dev e"
    "?t ! 3 = octal_encode kernel_escaped (m_root e)"
    "?t ! 4 = octal_encode kernel_escaped (mount_point e)" "?t ! 5 = mount_opts e"
    "?t ! (7 + length optional) = m_fstype e"
    "?t ! (8 + length optional) = octal_encode kernel_escaped (m_source e)"
    "?t ! (9 + length optional) = super_opts e"
    by (simp_all add: mountinfo_tokens_def nth_append numeral_eq_Suc)
  have dec: "unescape (octal_encode kernel_escaped p) = p" if "utf8_valid p" for p
    using that by (rule unescape_encode [rotated]) (simp add: kernel_escaped_def)
  show ?thesis
    using assms nth len position_sep [OF assms] dec
    by (simp add: parse_line_def mountinfo_line_trim split_mountinfo_line printable_entry_def
        parse_i32_show_int add.commute [of _ "length optional"] add.assoc)
qed

lemma mountinfo_line_plain:
  assumes "printable_entry e optional"
  shows "newline \<notin> set (mountinfo_line e optional)" "last (mountinfo_line e optional) \<noteq> CHR 0x0D"
proof -
  have "set (join_with sep ps) \<subseteq> set sep \<union> \<Union> (set ` set ps)" for sep ps
    by (induction sep ps rule: join_with.induct) auto
  then show "newline \<notin> set (mountinfo_line e optional)"
    using mountinfo_tokens_plain [OF assms] unfolding mountinfo_line_def
    by (fastforce simp: newline_def)
  have "mountinfo_line e optional =
      join_with '' '' ([show_int (mount_id e), show_int (parent_id e), m_dev e, octal_encode kernel_escaped (m_root e),
      octal_encode kernel_escaped (mount_point e), mount_opts e] @ optional @
     [''-'', m_fstype e, octal_encode kernel_escaped (m_source e)]) @ '' '' @ super_opts e"
    unfolding mountinfo_line_def mountinfo_tokens_def
    by (subst join_with_snoc [symmetric]) simp_all
  then show "last (mountinfo_line e optional) \<noteq> CHR 0x0D"
    using assms plain_field_last [of "super_opts e"] by (simp add: printable_entry_def del: join_with.simps)
qed

definition mountinfo_text :: "(mount_entry \<times> bytes list) list \<Rightarrow> bytes" where
  "mountinfo_text xs = concat (map (\<lambda>(e, optional). mountinfo_line e optional @ [newline]) xs)"

section \<open>Properties\<close>

text \<open>Reading a mount table printed in the format of proc(5), with the three path fields
  octal-escaped and any optional fields, gives back exactly the mounts it lists, in order.\<close>

theorem mountinfo_roundtrip:
  assumes "\<forall>(e, optional)\<in>set xs. printable_entry e optional"
  shows "parse_mountinfo (mountinfo_text xs) = map fst xs"
  using assms
proof (induction xs)
  case (Cons x xs)
  obtain e optional where x: "x = (e, optional)" by force
  with Cons.prems have ok: "printable_entry e optional" by simp
  have "lines_of (mountinfo_text (x # xs)) = mountinfo_line e optional # lines_of (mountinfo_text xs)"
    using lines_of_Cons_line mountinfo_line_plain [OF ok] by (simp add: mountinfo_text_def x)
  then show ?case
    using Cons x parse_mountinfo_line [OF ok] by (simp add: parse_mountinfo_def)
qed (simp add: parse_mountinfo_def mountinfo_text_def)

definition sample_entry :: mount_entry where
  "sample_entry = \<lparr>mount_id = 36, parent_id = 35, m_dev = ''98:0'', m_root = ''/'',
     mount_point = ''/mnt/hidden root'', mount_opts = ''rw,relatime'', m_fstype = ''ext4'',
     m_source = ''/dev/sda1'', super_opts = ''rw''\<rparr>"

lemma sample_printable: "printable_entry sample_entry [''shared:9'']"
proof -
  have "utf8_valid s" if "\<forall>c\<in>set s. byte c < 128" for s
    using that by (intro ascii_utf8_valid) (simp add: is_ascii_def)
  then show ?thesis
    by (simp add: printable_entry_def sample_entry_def in_i32_def plain_field_def newline_def)
qed

theorem mountinfo_roundtrip_witness:
  "parse_mountinfo (mountinfo_text [(sample_entry, [''shared:9''])]) = [sample_entry]"
  using mountinfo_roundtrip [of "[(sample_entry, [''shared:9''])]"] sample_printable by simp

text \<open>The option string NAILS hands to \<^verbatim>\<open>mount(2)\<close> for an overlay decodes back to exactly the
  lower, upper and work directory it was built from, whatever commas, colons and backslashes
  the paths hold; a path with a newline is refused instead.\<close>

theorem overlay_data_roundtrip:
  assumes "utf8_valid lower" "utf8_valid upper" "utf8_valid work" "lower \<noteq> []"
  shows "case overlay_data lower upper work of
           None \<Rightarrow> newline \<in> set lower \<or> newline \<in> set upper \<or> newline \<in> set work
         | Some d \<Rightarrow> parse_overlay_opts d =
             \<lparr>lowerdir = [lower], upperdir = Some upper, workdir = Some work\<rparr>"
proof (cases "overlay_data lower upper work")
  case None
  then show ?thesis
    using assms by (auto simp: overlay_data_def escape_overlay_path_def Let_def utf8_lossy_valid
        split: option.splits if_splits)
next
  case (Some d)
  with parse_overlay_opts_data [OF assms] show ?thesis by simp
qed

theorem overlay_data_roundtrip_witness:
  "\<exists>d. overlay_data ''/a,b'' ''/h/x:y'' ''/h/w'' = Some d \<and>
       parse_overlay_opts d = \<lparr>lowerdir = [''/a,b''], upperdir = Some ''/h/x:y'', workdir = Some ''/h/w''\<rparr>"
proof -
  have v: "utf8_valid ''/a,b''" "utf8_valid ''/h/x:y''" "utf8_valid ''/h/w''"
    by (simp_all add: ascii_utf8_valid is_ascii_def)
  have "overlay_data ''/a,b'' ''/h/x:y'' ''/h/w'' \<noteq> None"
    by (simp add: overlay_data_def escape_overlay_path_def utf8_lossy_valid v newline_def)
  then show ?thesis
    using overlay_data_roundtrip [OF v] by (auto split: option.splits)
qed

text \<open>C24: The mount the lookup of an absolute path reports is a mount of the table at that path,
  and when no mount ID occurs twice in the table nothing is mounted on top of it there: it is the
  mount a write to the path reaches.\<close>

theorem top_mount_at_is_visible:
  assumes "is_absolute target" "top_mount_at entries target = Some e"
  shows "e \<in> set entries \<and> path_eq (mount_point e) target \<and>
    (distinct (map mount_id entries) \<longrightarrow>
       (\<forall>f\<in>set entries. path_eq (mount_point f) target \<and> parent_id f = mount_id e
          \<longrightarrow> mount_id f = mount_id e))"
proof -
  obtain cs where cs: "components target = RootDir # cs"
    using components_absolute [OF assms(1)] by blast
  have top: "top_mount_at_components entries (RootDir # cs) = Some e"
    using assms(2) cs by (simp add: top_mount_at_def)
  have "e \<in> set entries \<and> at_point e (RootDir # cs)"
    using top_mount_at_components_SomeD [OF top] .
  moreover have "\<forall>f\<in>set entries. path_eq (mount_point f) target \<and> parent_id f = mount_id e
      \<longrightarrow> mount_id f = mount_id e" if "distinct (map mount_id entries)"
    using top_mount_at_components_top [OF that top] cs
    by (auto simp: stacked_on_None_iff at_point_def path_eq_def)
  ultimately show ?thesis by (auto simp: at_point_def path_eq_def cs)
qed

definition stacked_table :: "mount_entry list" where
  "stacked_table = parse_mountinfo (
     ''1 0 8:1 / / rw - ext4 /dev/sda1 rw'' @ [newline] @
     ''2 1 0:30 / /tmp rw - tmpfs tmpfs rw'' @ [newline] @
     ''4 2 0:50 / /tmp rw - overlay overlay rw'' @ [newline])"

theorem top_mount_at_is_visible_witness:
  "\<exists>e. top_mount_at stacked_table ''/tmp'' = Some e \<and> mount_id e = 4 \<and> distinct (map mount_id stacked_table) \<and>
     e \<in> set stacked_table \<and>
     (\<forall>f\<in>set stacked_table. path_eq (mount_point f) ''/tmp'' \<and> parent_id f = mount_id e \<longrightarrow> mount_id f = mount_id e)"
proof -
  have t: "map_option mount_id (top_mount_at stacked_table ''/tmp'') = Some 4"
    "distinct (map mount_id stacked_table)"
    by code_simp+
  then obtain e where "top_mount_at stacked_table ''/tmp'' = Some e" "mount_id e = 4" by auto
  with t(2) top_mount_at_is_visible [of "''/tmp''" stacked_table e] show ?thesis
    by (auto simp: is_absolute_def)
qed

end
