(* ===== verification/Line_Table.thy ===== *)
theory Line_Table
  imports Rust_Path
begin

text \<open>
  The shape \<^verbatim>\<open>/etc/fstab\<close> and \<^verbatim>\<open>/etc/crypttab\<close> share: one entry per line, fields separated by
  white space, blank lines and lines that start with \<^verbatim>\<open>#\<close> skipped.  The locale \<open>line_table\<close> is the
  contract between such a parser and its users: whatever entries can be printed field by field
  are read back from the printed text, in order.  Both parsers are interpretations of it.
\<close>

section \<open>Definitions\<close>

text \<open>\<^verbatim>\<open>text.lines().map(str::trim).filter(|l| !l.is_empty() && !l.starts_with('#'))\<close>\<close>

definition table_lines :: "bytes \<Rightarrow> bytes list" where
  "table_lines text = filter (\<lambda>l. l \<noteq> [] \<and> hd l \<noteq> CHR ''#'') (map trim (lines_of text))"

text \<open>No suffix starts with a white space character: a field.\<close>

definition ws_free :: "bytes \<Rightarrow> bool" where
  "ws_free s \<longleftrightarrow> (\<forall>u. u \<noteq> [] \<longrightarrow> suffix u s \<longrightarrow> ws_len u = 0)"

section \<open>Lemmas\<close>

lemma ws_len_space [simp]: "ws_len (CHR '' '' # r) = 1"
  by (simp add: ws_len_def)

lemma byte_space [simp]: "byte (CHR '' '') = 32"
  by simp

lemma ws_len_append_space:
  assumes "s \<noteq> []"
  shows "ws_len (s @ CHR '' '' # r) = ws_len s"
proof -
  from assms obtain a s1 where s: "s = a # s1" by (meson neq_Nil_conv)
  show ?thesis
  proof (cases s1)
    case Nil
    with s show ?thesis by (simp add: ws_len_def split: list.split)
  next
    case (Cons b s2)
    with s show ?thesis by (cases s2) (simp_all add: ws_len_def)
  qed
qed

lemma ws_free_tl: "ws_free (c # s) \<Longrightarrow> ws_free s"
  by (auto simp: ws_free_def suffix_ConsI)

lemma ws_free_ws_len: "ws_free s \<Longrightarrow> ws_len s = 0"
  by (cases "s = []") (auto simp: ws_free_def ws_len_def)

lemma ws_free_Nil [simp]: "ws_free []"
  by (simp add: ws_free_def)

lemma ws_free_graphic: "\<forall>c\<in>set s. 32 < byte c \<and> byte c < 128 \<Longrightarrow> ws_free s"
  unfolding ws_free_def by (metis list.exhaust list.set_intros(1) set_mono_suffix subsetD ws_len_graphic)

lemma split_ws_field_append:
  "ws_free f \<Longrightarrow> split_ws cur (f @ CHR '' '' # r) = split_ws (cur @ f) (CHR '' '' # r)"
proof (induction f arbitrary: cur)
  case (Cons c f)
  have "ws_len ((c # f) @ CHR '' '' # r) = 0"
    using ws_len_append_space [of "c # f"] ws_free_ws_len [OF Cons.prems] by simp
  then show ?case
    using Cons ws_free_tl by (subst split_ws.simps) auto
qed simp

lemma split_ws_field: "ws_free f \<Longrightarrow> split_ws cur f = (if cur @ f = [] then [] else [cur @ f])"
proof (induction f arbitrary: cur)
  case (Cons c f)
  then show ?case
    using ws_free_ws_len [OF Cons.prems] ws_free_tl [OF Cons.prems]
    by (subst split_ws.simps) auto
qed (simp add: split_ws.simps)

text \<open>A line made of fields splits into them.\<close>

lemma split_whitespace_fields:
  assumes "\<forall>f\<in>set fs. f \<noteq> [] \<and> ws_free f"
  shows "split_whitespace (join_with '' '' fs) = fs"
  using assms
proof (induction "'' ''" fs rule: join_with.induct)
  case 1
  then show ?case by (simp add: split_whitespace_def split_ws.simps)
next
  case (2 p)
  then show ?case by (simp add: split_whitespace_def split_ws_field)
next
  case (3 p q ps)
  have "split_ws [] (p @ CHR '' '' # join_with '' '' (q # ps)) = p # split_ws [] (join_with '' '' (q # ps))"
    using 3 by (simp add: split_ws_field_append split_ws.simps [of p])
  with 3 show ?case by (simp add: split_whitespace_def)
qed

text \<open>Trimming leaves a line alone that starts and ends with a field.\<close>

lemma trim_start_Nil_suffix:
  "trim_start s = [] \<Longrightarrow> s \<noteq> [] \<Longrightarrow> \<exists>u. u \<noteq> [] \<and> suffix u s \<and> ws_len u = length u"
proof (induction s rule: trim_start.induct)
  case (1 s)
  then have pos: "ws_len s \<noteq> 0" by (auto simp: trim_start.simps [of s] split: if_splits)
  show ?case
  proof (cases "drop (ws_len s) s = []")
    case True
    then have "ws_len s = length s" using ws_len_le [of s] by simp
    with "1.prems" show ?thesis by blast
  next
    case False
    with 1 pos obtain u where "u \<noteq> []" "suffix u (drop (ws_len s) s)" "ws_len u = length u"
      by (auto simp: trim_start.simps [of s])
    then show ?thesis using suffix_order.trans suffix_drop by blast
  qed
qed

definition ends_in_field :: "bytes \<Rightarrow> bool" where
  "ends_in_field s \<longleftrightarrow> (\<forall>u. u \<noteq> [] \<longrightarrow> suffix u s \<longrightarrow> ws_len u \<noteq> length u)"

lemma trim_end_id: "ends_in_field s \<Longrightarrow> trim_end s = s"
proof (induction s)
  case (Cons c s)
  then have "ends_in_field s" by (auto simp: ends_in_field_def suffix_ConsI)
  moreover have "trim_start (c # s) \<noteq> []"
    using trim_start_Nil_suffix [of "c # s"] Cons.prems by (auto simp: ends_in_field_def)
  ultimately show ?case using Cons.IH by simp
qed simp

lemma ws_free_ends: "ws_free f \<Longrightarrow> ends_in_field f"
  by (auto simp: ws_free_def ends_in_field_def)

lemma ends_in_field_append:
  assumes "ends_in_field s" "s \<noteq> []"
  shows "ends_in_field (p @ CHR '' '' # s)"
  unfolding ends_in_field_def
proof (intro allI impI)
  fix u
  assume u: "u \<noteq> []" "suffix u (p @ CHR '' '' # s)"
  then consider "suffix u s" | x where "u = x @ CHR '' '' # s"
    by (auto simp: suffix_append suffix_Cons)
  then show "ws_len u \<noteq> length u"
  proof cases
    case 1
    with u assms show ?thesis by (simp add: ends_in_field_def)
  next
    case (2 x)
    show ?thesis
    proof (cases "x = []")
      case True
      with 2 assms show ?thesis by simp
    next
      case False
      then have "ws_len u \<le> length x"
        using ws_len_append_space [of x s] ws_len_le [of x] 2 by simp
      with 2 show ?thesis by simp
    qed
  qed
qed

lemma join_fields_ends:
  assumes "fs \<noteq> []" "\<forall>f\<in>set fs. f \<noteq> [] \<and> ws_free f"
  shows "ends_in_field (join_with '' '' fs) \<and> join_with '' '' fs \<noteq> []"
  using assms
proof (induction "'' ''" fs rule: join_with.induct)
  case (3 p q ps)
  then show ?case using ends_in_field_append by simp
qed (auto simp: ws_free_ends)

lemma join_fields_start:
  assumes "fs \<noteq> []" "\<forall>f\<in>set fs. f \<noteq> [] \<and> ws_free f"
  shows "ws_len (join_with '' '' fs) = 0"
  using assms
  by (cases fs rule: remdups_adj.cases)
    (auto simp: ws_free_ws_len ws_len_append_space)

lemma trim_join_fields:
  assumes "fs \<noteq> []" "\<forall>f\<in>set fs. f \<noteq> [] \<and> ws_free f"
  shows "trim (join_with '' '' fs) = join_with '' '' fs"
  using join_fields_ends [OF assms] join_fields_start [OF assms]
  by (simp add: trim_def trim_start_id trim_end_id)

lemma ws_free_no_newline: "ws_free f \<Longrightarrow> newline \<notin> set f"
proof
  assume f: "ws_free f" "newline \<in> set f"
  then obtain a b where "f = a @ newline # b" by (meson split_list)
  then have "suffix (newline # b) f" by (auto simp: suffix_def)
  with f show False by (auto simp: ws_free_def ws_len_def newline_def)
qed

lemma ws_free_last: "ws_free f \<Longrightarrow> f \<noteq> [] \<Longrightarrow> last f \<noteq> CHR 0x0D"
proof
  assume f: "ws_free f" "f \<noteq> []" "last f = CHR 0x0D"
  then have "suffix [CHR 0x0D] f" by (metis append_butlast_last_id suffixI)
  with f show False by (auto simp: ws_free_def ws_len_def)
qed

lemma join_fields_line:
  assumes "fs \<noteq> []" "\<forall>f\<in>set fs. f \<noteq> [] \<and> ws_free f"
  shows "newline \<notin> set (join_with '' '' fs) \<and> last (join_with '' '' fs) \<noteq> CHR 0x0D"
  using assms
proof (induction "'' ''" fs rule: join_with.induct)
  case (3 p q ps)
  have "join_with '' '' (q # ps) \<noteq> []" using join_fields_ends 3 by auto
  moreover have "newline \<noteq> CHR '' ''" by (simp add: newline_def)
  ultimately show ?case using 3 by (auto simp: ws_free_no_newline)
qed (auto simp: ws_free_no_newline ws_free_last)

lemma table_lines_Cons:
  assumes "fs \<noteq> []" "\<forall>f\<in>set fs. f \<noteq> [] \<and> ws_free f" "hd (hd fs) \<noteq> CHR ''#''"
  shows "table_lines (join_with '' '' fs @ newline # text) = join_with '' '' fs # table_lines text"
proof -
  have l: "join_with '' '' fs \<noteq> []" using join_fields_ends [OF assms(1,2)] by simp
  moreover have "hd (join_with '' '' fs) = hd (hd fs)"
    using assms(1,2) by (cases fs rule: remdups_adj.cases) auto
  ultimately show ?thesis
    using assms join_fields_line [OF assms(1,2)]
    by (simp add: table_lines_def lines_of_Cons_line trim_join_fields)
qed

section \<open>The contract of a line table\<close>

locale line_table =
  fixes print_fields :: "'e \<Rightarrow> bytes list"
    and read_fields :: "bytes list \<Rightarrow> 'e option"
    and printable :: "'e \<Rightarrow> bool"
  assumes read_print: "printable e \<Longrightarrow> read_fields (print_fields e) = Some e"
    and fields_exist: "printable e \<Longrightarrow> print_fields e \<noteq> []"
    and fields_plain: "printable e \<Longrightarrow> f \<in> set (print_fields e) \<Longrightarrow> f \<noteq> [] \<and> ws_free f"
    and no_comment: "printable e \<Longrightarrow> hd (hd (print_fields e)) \<noteq> CHR ''#''"
begin

definition print_table :: "'e list \<Rightarrow> bytes" where
  "print_table es = concat (map (\<lambda>e. join_with '' '' (print_fields e) @ [newline]) es)"

definition read_table :: "bytes \<Rightarrow> 'e list" where
  "read_table text = filter_map (\<lambda>l. read_fields (split_whitespace l)) (table_lines text)"

lemma read_print_table:
  assumes "\<forall>e\<in>set es. printable e"
  shows "read_table (print_table es) = es"
  using assms
proof (induction es)
  case Nil
  then show ?case by (simp add: read_table_def print_table_def table_lines_def)
next
  case (Cons e es)
  then have fs: "print_fields e \<noteq> []" "\<forall>f\<in>set (print_fields e). f \<noteq> [] \<and> ws_free f"
    "hd (hd (print_fields e)) \<noteq> CHR ''#''"
    using fields_exist fields_plain no_comment by auto
  have "table_lines (print_table (e # es)) = join_with '' '' (print_fields e) # table_lines (print_table es)"
    using table_lines_Cons [OF fs] by (simp add: print_table_def)
  moreover have "read_fields (split_whitespace (join_with '' '' (print_fields e))) = Some e"
    using split_whitespace_fields [OF fs(2)] read_print Cons.prems by simp
  ultimately show ?case using Cons by (simp add: read_table_def)
qed

end

end
