(* ===== verification/Fstab.thy ===== *)
theory Fstab
  imports Mountinfo Line_Table
begin

text \<open>
  The tables a decoy boots with: \<^verbatim>\<open>nails-base/src/fstab.rs\<close> (the fstab parser, the classes of file
  system, the device a spec names, systemd's path escaping), \<^verbatim>\<open>nails-base/src/crypttab.rs\<close> (the
  crypttab parser) and the unit names of \<^verbatim>\<open>nails-session/src/session/fstab.rs\<close>.  Both parsers are
  interpretations of \<open>line_table\<close>; the lemmas show that a printed table is read back, that the
  name of a unit determines the path it is for, and that an encoded label stays one path
  component.
\<close>

section \<open>Definitions\<close>

record fstab_entry =
  spec :: bytes
  fs_file :: path
  vfstype :: bytes
  options :: "bytes list"

definition VIRTUAL_TYPES :: "bytes list" where
  "VIRTUAL_TYPES =
     [''tmpfs'', ''ramfs'', ''proc'', ''sysfs'', ''devtmpfs'', ''devpts'', ''cgroup'', ''cgroup2'',
      ''securityfs'', ''debugfs'', ''tracefs'', ''configfs'', ''fusectl'', ''mqueue'', ''hugetlbfs'',
      ''bpf'', ''pstore'', ''efivarfs'', ''binfmt_misc'', ''autofs'', ''rpc_pipefs'', ''nsfs'', ''zram'']"

definition HOST_SHARE_TYPES :: "bytes list" where
  "HOST_SHARE_TYPES = [''9p'', ''virtiofs'']"

definition NETWORK_TYPES :: "bytes list" where
  "NETWORK_TYPES =
     [''nfs'', ''nfs4'', ''cifs'', ''smb3'', ''smbfs'', ''ceph'', ''glusterfs'', ''sshfs'', ''davfs'']"

definition has_option :: "fstab_entry \<Rightarrow> bytes \<Rightarrow> bool" where
  "has_option e name \<longleftrightarrow> name \<in> set (options e)"

definition value_in :: "bytes list \<Rightarrow> bytes \<Rightarrow> bytes option" where
  "value_in opts key =
     find_map (\<lambda>o1. case strip_prefix key o1 of None \<Rightarrow> None | Some rest \<Rightarrow> strip_prefix ''='' rest) opts"

definition option_value :: "fstab_entry \<Rightarrow> bytes \<Rightarrow> bytes option" where
  "option_value e key = value_in (options e) key"

definition is_swap :: "fstab_entry \<Rightarrow> bool" where
  "is_swap e \<longleftrightarrow> vfstype e = ''swap''"

definition is_virtual :: "fstab_entry \<Rightarrow> bool" where
  "is_virtual e \<longleftrightarrow> vfstype e \<in> set VIRTUAL_TYPES"

definition is_host_share :: "fstab_entry \<Rightarrow> bool" where
  "is_host_share e \<longleftrightarrow> vfstype e \<in> set HOST_SHARE_TYPES"

definition is_network :: "fstab_entry \<Rightarrow> bool" where
  "is_network e \<longleftrightarrow>
     vfstype e \<in> set NETWORK_TYPES \<or> starts_with ''fuse.sshfs'' (vfstype e) \<or> has_option e ''_netdev''"

definition is_bind :: "fstab_entry \<Rightarrow> bool" where
  "is_bind e \<longleftrightarrow> has_option e ''bind'' \<or> has_option e ''rbind''"

definition is_automount :: "fstab_entry \<Rightarrow> bool" where
  "is_automount e \<longleftrightarrow> has_option e ''x-systemd.automount''"

definition is_noauto :: "fstab_entry \<Rightarrow> bool" where
  "is_noauto e \<longleftrightarrow> has_option e ''noauto'' \<and> \<not> is_automount e"

text \<open>\<^verbatim>\<open>parse_fstab\<close>: one line's fields, then the whole text.\<close>

fun fstab_fields :: "bytes list \<Rightarrow> fstab_entry option" where
  "fstab_fields (sp # fi # rest) =
     Some \<lparr>spec = unescape_octal sp, fs_file = unescape_octal fi,
           vfstype = (case rest of [] \<Rightarrow> ''auto'' | ty # _ \<Rightarrow> ty),
           options = split_on (CHR '','') (case rest of _ # opts # _ \<Rightarrow> opts | _ \<Rightarrow> ''defaults'')\<rparr>"
| "fstab_fields _ = None"

definition parse_fstab :: "bytes \<Rightarrow> fstab_entry list" where
  "parse_fstab text = filter_map (\<lambda>line. fstab_fields (split_whitespace line)) (table_lines text)"

text \<open>\<^verbatim>\<open>unquote\<close>: one pair of matching quotes goes.\<close>

definition is_quote :: "char \<Rightarrow> bool" where
  "is_quote c \<longleftrightarrow> c = CHR 0x22 \<or> c = CHR 0x27"

definition unquote :: "bytes \<Rightarrow> bytes" where
  "unquote v =
     (case v of q # r \<Rightarrow> if is_quote q \<and> r \<noteq> [] \<and> last r = q then butlast r else v | [] \<Rightarrow> v)"

text \<open>\<^verbatim>\<open>format!("\\x{byte:02x}")\<close>.\<close>

definition hex_digit :: "nat \<Rightarrow> char" where
  "hex_digit n = char_of (if n < 10 then 48 + n else 87 + n)"

definition hex_escape :: "char \<Rightarrow> bytes" where
  "hex_escape c = [backslash, CHR ''x'', hex_digit (byte c div 16), hex_digit (byte c mod 16)]"

text \<open>\<^verbatim>\<open>u32::from(c)\<close> of the character a UTF-8 sequence spells.\<close>

definition code_point :: "bytes \<Rightarrow> nat" where
  "code_point cs =
     (case map byte cs of
        [a] \<Rightarrow> a
      | [a, b] \<Rightarrow> (a mod 32) * 64 + b mod 64
      | [a, b, c] \<Rightarrow> (a mod 16) * 4096 + (b mod 64) * 64 + c mod 64
      | [a, b, c, d] \<Rightarrow> (a mod 8) * 262144 + (b mod 64) * 4096 + (c mod 64) * 64 + d mod 64
      | _ \<Rightarrow> 0)"

definition devnode_kept :: "bytes \<Rightarrow> bool" where
  "devnode_kept cs \<longleftrightarrow>
     (if is_ascii (hd cs) then is_alnum (hd cs) \<or> hd cs \<in> set ''#+-.:=@_''
      else \<not> (0xFDD0 \<le> code_point cs \<and> code_point cs \<le> 0xFDEF) \<and> code_point cs mod 0x10000 div 2 \<noteq> 0x7FFF)"

function encode_devnode_name :: "bytes \<Rightarrow> bytes" where
  "encode_devnode_name s =
     (if s = [] then []
      else (let n = snd (utf8_step s); cs = take n s in
            (if devnode_kept cs then cs else concat (map hex_escape cs))
            @ encode_devnode_name (drop n s)))"
  by pat_completeness auto
termination
  using utf8_step_pos by (relation "measure length") auto

declare encode_devnode_name.simps [simp del]

definition spec_device :: "bytes \<Rightarrow> path option" where
  "spec_device s =
     (if starts_with ''/dev/'' s then Some s
      else (case split_once (CHR ''='') s of None \<Rightarrow> None
        | Some (key, v) \<Rightarrow>
            (let in_dir = (\<lambda>d. Some (join (join ''/dev/disk'' d) (encode_devnode_name (unquote v)))) in
             if key = ''UUID'' then in_dir ''by-uuid''
             else if key = ''LABEL'' then in_dir ''by-label''
             else if key = ''PARTUUID'' then in_dir ''by-partuuid''
             else if key = ''PARTLABEL'' then in_dir ''by-partlabel''
             else None)))"

definition device :: "fstab_entry \<Rightarrow> path option" where
  "device e = spec_device (spec e)"

text \<open>\<^verbatim>\<open>escape_path\<close>: the components it keeps, then the bytes of their names.\<close>

definition simplify_step :: "bool \<Rightarrow> bytes list \<Rightarrow> bytes \<Rightarrow> bytes list" where
  "simplify_step absolute kept c =
     (if absolute \<and> kept = [] \<and> c = ''..'' then kept else kept @ [c])"

definition path_simplify :: "bytes \<Rightarrow> bytes list" where
  "path_simplify text =
     foldl (simplify_step (starts_with ''/'' text)) []
       (filter (\<lambda>c. c \<noteq> [] \<and> c \<noteq> ''.'') (split_on slash text))"

definition escape_kept :: "char \<Rightarrow> bool" where
  "escape_kept c \<longleftrightarrow> is_alnum c \<or> c = CHR '':'' \<or> c = CHR ''_'' \<or> c = CHR ''.''"

definition escape_byte :: "char \<Rightarrow> bytes" where
  "escape_byte c = (if c = slash then ''-'' else if escape_kept c then [c] else hex_escape c)"

definition escape_bytes :: "bytes \<Rightarrow> bytes" where
  "escape_bytes s =
     (case s of [] \<Rightarrow> []
      | c # cs \<Rightarrow> (if c = CHR ''.'' then hex_escape c else escape_byte c) @ concat (map escape_byte cs))"

definition escape_path :: "path \<Rightarrow> bytes" where
  "escape_path p =
     (let kept = path_simplify (utf8_lossy p) in
      if kept = [] then ''-'' else escape_bytes (join_with ''/'' kept))"

definition mount_unit :: "path \<Rightarrow> bytes" where
  "mount_unit p = escape_path p @ ''.mount''"

definition automount_unit :: "path \<Rightarrow> bytes" where
  "automount_unit p = escape_path p @ ''.automount''"

definition swap_unit :: "bytes \<Rightarrow> bytes option" where
  "swap_unit s =
     map_option (\<lambda>p. escape_path p @ ''.swap'')
       (or_else (spec_device s) (if starts_with ''/'' s then Some s else None))"

subsection \<open>crypttab\<close>

record crypttab_entry =
  ct_name :: bytes
  ct_source :: bytes
  ct_key :: "bytes option"
  ct_options :: "bytes list"

definition ct_has_option :: "crypttab_entry \<Rightarrow> bytes \<Rightarrow> bool" where
  "ct_has_option e name \<longleftrightarrow> name \<in> set (ct_options e)"

definition ct_option_value :: "crypttab_entry \<Rightarrow> bytes \<Rightarrow> bytes option" where
  "ct_option_value e key = value_in (ct_options e) key"

definition is_tcrypt_hidden :: "crypttab_entry \<Rightarrow> bool" where
  "is_tcrypt_hidden e \<longleftrightarrow> ct_has_option e ''tcrypt-hidden'' \<or> ct_has_option e ''tcrypthidden''"

definition is_veracrypt :: "crypttab_entry \<Rightarrow> bool" where
  "is_veracrypt e \<longleftrightarrow> ct_has_option e ''tcrypt-veracrypt'' \<or> ct_has_option e ''veracrypt''"

definition is_tcrypt :: "crypttab_entry \<Rightarrow> bool" where
  "is_tcrypt e \<longleftrightarrow>
     (\<exists>o1\<in>set (ct_options e). o1 = ''tcrypt'' \<or> o1 = ''tcrypt-system'' \<or> starts_with ''tcrypt-keyfile='' o1)
     \<or> is_tcrypt_hidden e \<or> is_veracrypt e"

definition ct_device :: "crypttab_entry \<Rightarrow> path option" where
  "ct_device e = spec_device (ct_source e)"

fun crypttab_fields :: "bytes list \<Rightarrow> crypttab_entry option" where
  "crypttab_fields (nm # src # rest) =
     Some \<lparr>ct_name = nm, ct_source = src,
           ct_key = (case rest of [] \<Rightarrow> None
                     | key # _ \<Rightarrow> if key = ''none'' \<or> key = ''-'' then None else Some key),
           ct_options = (case rest of _ # opts # _ \<Rightarrow> split_on (CHR '','') opts | _ \<Rightarrow> [])\<rparr>"
| "crypttab_fields _ = None"

definition parse_crypttab :: "bytes \<Rightarrow> crypttab_entry list" where
  "parse_crypttab text = filter_map (\<lambda>line. crypttab_fields (split_whitespace line)) (table_lines text)"

section \<open>The tables are read back\<close>

text \<open>\<^verbatim>\<open>mangle()\<close> of mount(8): the bytes an fstab writer puts in octal.\<close>

definition fstab_mangled :: "char \<Rightarrow> bool" where
  "fstab_mangled c \<longleftrightarrow> c = CHR '' '' \<or> c = CHR 0x09 \<or> c = newline \<or> c = backslash \<or> c = CHR ''#''"

definition option_list :: "bytes list \<Rightarrow> bool" where
  "option_list opts \<longleftrightarrow> opts \<noteq> [] \<and> join_with '','' opts \<noteq> [] \<and> ws_free (join_with '','' opts)
     \<and> (\<forall>o1\<in>set opts. CHR '','' \<notin> set o1)"

definition fstab_line :: "fstab_entry \<Rightarrow> bytes list" where
  "fstab_line e = [octal_encode fstab_mangled (spec e), octal_encode fstab_mangled (fs_file e),
                   vfstype e, join_with '','' (options e)]"

definition fstab_printable :: "fstab_entry \<Rightarrow> bool" where
  "fstab_printable e \<longleftrightarrow>
     spec e \<noteq> [] \<and> utf8_valid (spec e) \<and> ws_free (octal_encode fstab_mangled (spec e))
     \<and> fs_file e \<noteq> [] \<and> utf8_valid (fs_file e) \<and> ws_free (octal_encode fstab_mangled (fs_file e))
     \<and> vfstype e \<noteq> [] \<and> ws_free (vfstype e) \<and> option_list (options e)"

definition crypttab_line :: "crypttab_entry \<Rightarrow> bytes list" where
  "crypttab_line e = [ct_name e, ct_source e, case ct_key e of None \<Rightarrow> ''none'' | Some k \<Rightarrow> k]
     @ (if ct_options e = [] then [] else [join_with '','' (ct_options e)])"

definition crypttab_printable :: "crypttab_entry \<Rightarrow> bool" where
  "crypttab_printable e \<longleftrightarrow>
     ct_name e \<noteq> [] \<and> ws_free (ct_name e) \<and> hd (ct_name e) \<noteq> CHR ''#''
     \<and> ct_source e \<noteq> [] \<and> ws_free (ct_source e)
     \<and> (\<forall>k. ct_key e = Some k \<longrightarrow> k \<noteq> [] \<and> ws_free k \<and> k \<noteq> ''none'' \<and> k \<noteq> ''-'')
     \<and> (ct_options e = [] \<or> option_list (ct_options e))"

lemma unescape_octal_encode:
  "S backslash \<Longrightarrow> utf8_valid s \<Longrightarrow> unescape_octal (octal_encode S s) = s"
  by (simp add: unescape_octal_def unescape_octal_bytes_encode utf8_lossy_valid)

lemma octal_encode_hd:
  assumes "s \<noteq> []" "S (CHR ''#'')"
  shows "hd (octal_encode S s) \<noteq> CHR ''#''"
  using assms by (cases s) (auto simp: octal_encode_Cons octal_escape_def backslash_def)

lemma ws_free_word: "ws_free ''none''"
  by (rule ws_free_graphic) auto

interpretation fstab_table: line_table fstab_line fstab_fields fstab_printable
proof unfold_locales
  fix e f
  assume e: "fstab_printable e"
  then show "fstab_fields (fstab_line e) = Some e"
    using split_on_join [of "options e" "CHR '',''"]
    by (simp add: fstab_line_def fstab_printable_def unescape_octal_encode fstab_mangled_def option_list_def)
  from e show "fstab_line e \<noteq> []" by (simp add: fstab_line_def)
  from e show "hd (hd (fstab_line e)) \<noteq> CHR ''#''"
    by (simp add: fstab_line_def fstab_printable_def octal_encode_hd fstab_mangled_def)
  assume "f \<in> set (fstab_line e)"
  with e show "f \<noteq> [] \<and> ws_free f"
    by (auto simp: fstab_line_def fstab_printable_def option_list_def)
qed

interpretation crypttab_table: line_table crypttab_line crypttab_fields crypttab_printable
proof unfold_locales
  fix e f
  assume e: "crypttab_printable e"
  then show "crypttab_fields (crypttab_line e) = Some e"
    using split_on_join [of "ct_options e" "CHR '',''"]
    by (cases e; cases "ct_key e") (auto simp: crypttab_line_def crypttab_printable_def option_list_def)
  show "crypttab_line e \<noteq> []" by (simp add: crypttab_line_def)
  from e show "hd (hd (crypttab_line e)) \<noteq> CHR ''#''"
    by (simp add: crypttab_line_def crypttab_printable_def)
  assume "f \<in> set (crypttab_line e)"
  with e show "f \<noteq> [] \<and> ws_free f"
    by (cases "ct_key e")
      (auto simp: crypttab_line_def crypttab_printable_def option_list_def ws_free_word split: if_splits)
qed

lemma parse_fstab_read_table: "parse_fstab = fstab_table.read_table"
  by (rule ext) (simp add: parse_fstab_def fstab_table.read_table_def)

lemma parse_crypttab_read_table: "parse_crypttab = crypttab_table.read_table"
  by (rule ext) (simp add: parse_crypttab_def crypttab_table.read_table_def)

section \<open>Unit names and link names\<close>

text \<open>systemd's reading of an escaped name: \<open>dash\<close> is what a plain \<^verbatim>\<open>-\<close> stands for.\<close>

definition hex_val :: "char \<Rightarrow> nat" where
  "hex_val c = (if is_digit c then byte c - 48 else byte c - 87)"

fun unhex :: "char \<Rightarrow> bytes \<Rightarrow> bytes" where
  "unhex dash [] = []"
| "unhex dash (c # cs) =
     (if c = backslash then
        (case cs of _ # a # b # r \<Rightarrow> char_of (hex_val a * 16 + hex_val b) # unhex dash r | _ \<Rightarrow> [])
      else (if c = CHR ''-'' then dash else c) # unhex dash cs)"

lemma hex_val_digit: "n < 16 \<Longrightarrow> hex_val (hex_digit n) = n"
  by (auto simp: hex_val_def hex_digit_def is_digit_def)

lemma unhex_hex_escape: "unhex dash (hex_escape c @ r) = c # unhex dash r"
  using byte_less_256 [of c]
  by (simp add: hex_escape_def hex_val_digit less_mult_imp_div_less div_mult_mod_eq)

lemma escape_kept_plain: "escape_kept c \<Longrightarrow> c \<noteq> backslash \<and> c \<noteq> CHR ''-'' \<and> c \<noteq> slash"
  by (auto simp: escape_kept_def is_alnum_def is_digit_def backslash_def)

lemma unhex_escape_byte: "unhex slash (escape_byte c @ r) = c # unhex slash r"
  using escape_kept_plain [of c] by (auto simp: escape_byte_def unhex_hex_escape backslash_def)

lemma unhex_escape_concat: "unhex slash (concat (map escape_byte s)) = s"
  by (induction s) (auto simp: unhex_escape_byte)

lemma unhex_escape_bytes: "unhex slash (escape_bytes s) = s"
  by (cases s) (auto simp: escape_bytes_def unhex_escape_byte unhex_escape_concat unhex_hex_escape)

lemma simplify_fold_set: "set (foldl (simplify_step a) k cs) \<subseteq> set k \<union> set cs"
proof (induction cs arbitrary: k)
  case (Cons c cs)
  from Cons [of "simplify_step a k c"] show ?case
    by (auto simp: simplify_step_def split: if_splits)
qed simp

lemma path_simplify_names:
  "c \<in> set (path_simplify s) \<Longrightarrow> c \<noteq> [] \<and> c \<noteq> ''.'' \<and> slash \<notin> set c"
  using simplify_fold_set [of "starts_with ''/'' s" "[]"] split_on_no_delim
  unfolding path_simplify_def by fastforce

lemma simplify_fold_no_dots: "''..'' \<notin> set cs \<Longrightarrow> foldl (simplify_step a) k cs = k @ cs"
  by (induction cs arbitrary: k) (auto simp: simplify_step_def)

lemma escape_path_not_dash:
  assumes "kept \<noteq> []" "\<forall>c\<in>set kept. c \<noteq> [] \<and> slash \<notin> set c"
  shows "escape_bytes (join_with ''/'' kept) \<noteq> ''-''"
proof
  assume "escape_bytes (join_with ''/'' kept) = ''-''"
  then have "unhex slash (escape_bytes (join_with ''/'' kept)) = ''/''" by (simp add: backslash_def)
  then have "join_with ''/'' kept = ''/''" by (simp add: unhex_escape_bytes)
  then have "split_on slash (join_with ''/'' kept) = [[], []]" by simp
  with assms have "kept = [[], []]" by (simp add: split_on_join)
  with assms show False by simp
qed

lemma escape_path_eq_iff:
  assumes "utf8_valid p" "utf8_valid q"
  shows "escape_path p = escape_path q \<longleftrightarrow> path_simplify p = path_simplify q"
proof -
  let ?P = "path_simplify p" and ?Q = "path_simplify q"
  have n: "\<forall>c\<in>set ?P. c \<noteq> [] \<and> slash \<notin> set c" "\<forall>c\<in>set ?Q. c \<noteq> [] \<and> slash \<notin> set c"
    using path_simplify_names by auto
  have "?P \<noteq> [] \<Longrightarrow> ?Q \<noteq> [] \<Longrightarrow> join_with ''/'' ?P = join_with ''/'' ?Q \<Longrightarrow> ?P = ?Q"
    using n by (metis split_on_join)
  then show ?thesis
    using assms n escape_path_not_dash [of ?P] escape_path_not_dash [of ?Q]
    by (auto simp: escape_path_def utf8_lossy_valid Let_def) (metis unhex_escape_bytes)
qed

lemma component_of_kept:
  "c \<noteq> ''..'' \<Longrightarrow> component_of c = (if c \<noteq> [] \<and> c \<noteq> ''.'' then Some (Normal c) else None)"
  by (auto simp: component_of_def)

lemma components_simplify:
  assumes "is_absolute p" "''..'' \<notin> set (split_on slash p)"
  shows "components p = RootDir # map Normal (path_simplify p)"
proof -
  have f: "''..'' \<notin> set ps \<Longrightarrow>
      filter_map component_of ps = map Normal (filter (\<lambda>c. c \<noteq> [] \<and> c \<noteq> ''.'') ps)" for ps
    by (induction ps) (auto simp: component_of_kept)
  have "path_simplify p = filter (\<lambda>c. c \<noteq> [] \<and> c \<noteq> ''.'') (split_on slash p)"
    using assms(2) unfolding path_simplify_def by (subst simplify_fold_no_dots) auto
  with assms f [OF assms(2)] show ?thesis by (simp add: components_def)
qed

lemma utf8_step_valid:
  assumes "utf8_valid s" "s \<noteq> []"
  shows "utf8_char (take (snd (utf8_step s)) s)" "utf8_valid (drop (snd (utf8_step s)) s)"
  using assms utf8_valid.simps [of s] utf8_step_char [of s] by (auto split: if_splits)

text \<open>A kept sequence is one ASCII byte that is not a backslash or a slash, or has no ASCII byte.\<close>

lemma devnode_kept_plain:
  assumes "utf8_char cs" "devnode_kept cs"
  shows "backslash \<notin> set cs \<and> slash \<notin> set cs"
  using assms(1)
proof (cases rule: utf8_char_cases)
  case (1 c)
  with assms(2) show ?thesis
    by (auto simp: devnode_kept_def is_alnum_def is_digit_def backslash_def)
next
  case 2
  moreover have "is_ascii backslash" "is_ascii slash" by (simp_all add: is_ascii_def backslash_def)
  ultimately show ?thesis by blast
qed

lemma unhex_plain: "backslash \<notin> set s \<Longrightarrow> unhex (CHR ''-'') (s @ r) = s @ unhex (CHR ''-'') r"
  by (induction s) auto

lemma unhex_escapes: "unhex dash (concat (map hex_escape s) @ r) = s @ unhex dash r"
  by (induction s) (auto simp: unhex_hex_escape)

lemma unhex_encode_devnode_name:
  "utf8_valid s \<Longrightarrow> unhex (CHR ''-'') (encode_devnode_name s) = s"
proof (induction s rule: encode_devnode_name.induct)
  case (1 s)
  show ?case
  proof (cases "s = []")
    case False
    let ?n = "snd (utf8_step s)"
    have IH: "unhex (CHR ''-'') (encode_devnode_name (drop ?n s)) = drop ?n s"
      using 1 False utf8_step_valid by simp
    have "unhex (CHR ''-'') (encode_devnode_name s) = take ?n s @ drop ?n s"
      using False devnode_kept_plain [of "take ?n s"] utf8_step_valid(1) [OF 1(2) False]
      by (subst encode_devnode_name.simps) (auto simp: Let_def unhex_plain unhex_escapes IH)
    then show ?thesis by simp
  qed (simp add: encode_devnode_name.simps)
qed

lemma hex_escape_no_slash: "slash \<notin> set (hex_escape c)"
proof -
  have "hex_digit n \<noteq> slash" if "n < 16" for n
  proof
    assume "hex_digit n = slash"
    then have "byte (hex_digit n) = 47" by simp
    with that show False by (simp add: hex_digit_def split: if_splits)
  qed
  from this [of "byte c div 16"] this [of "byte c mod 16"] show ?thesis
    using byte_less_256 [of c] by (simp add: hex_escape_def backslash_def less_mult_imp_div_less)
qed

lemma encode_devnode_name_no_slash: "utf8_valid s \<Longrightarrow> slash \<notin> set (encode_devnode_name s)"
proof (induction s rule: encode_devnode_name.induct)
  case (1 s)
  show ?case
  proof (cases "s = []")
    case False
    then show ?thesis
      using 1 devnode_kept_plain [of "take (snd (utf8_step s)) s"] utf8_step_valid [OF 1(2) False]
        hex_escape_no_slash
      by (subst encode_devnode_name.simps) (auto simp: Let_def)
  qed (simp add: encode_devnode_name.simps)
qed

section \<open>Properties\<close>

text \<open>\<open>parse_fstab\<close> reads back every table written field by field with mount(8)'s escaping:
  all entries, in order, and nothing else.\<close>

theorem parse_fstab_roundtrip:
  assumes "\<forall>e\<in>set es. fstab_printable e"
  shows "parse_fstab (concat (map (\<lambda>e. join_with '' '' (fstab_line e) @ [newline]) es)) = es"
  using fstab_table.read_print_table [OF assms]
  by (simp add: parse_fstab_read_table fstab_table.print_table_def)

definition sample_fstab :: "fstab_entry list" where
  "sample_fstab =
     [\<lparr>spec = ''UUID=1a2b'', fs_file = ''/mnt/my data'', vfstype = ''ext4'', options = [''defaults'', ''noauto'']\<rparr>,
      \<lparr>spec = ''/dev/sda2'', fs_file = ''none'', vfstype = ''swap'', options = [''sw'']\<rparr>]"

lemma sample_fstab_printable: "\<forall>e\<in>set sample_fstab. fstab_printable e"
  by (auto simp: sample_fstab_def fstab_printable_def option_list_def octal_encode_def octal_escape_def
      fstab_mangled_def newline_def backslash_def is_ascii_def
      intro!: ws_free_graphic ascii_utf8_valid)

theorem parse_fstab_roundtrip_witness:
  "parse_fstab (concat (map (\<lambda>e. join_with '' '' (fstab_line e) @ [newline]) sample_fstab)) = sample_fstab"
  using parse_fstab_roundtrip [OF sample_fstab_printable] by simp

text \<open>\<open>parse_crypttab\<close> reads back every crypttab written field by field, a missing key as
  \<^verbatim>\<open>none\<close>.\<close>

theorem parse_crypttab_roundtrip:
  assumes "\<forall>e\<in>set es. crypttab_printable e"
  shows "parse_crypttab (concat (map (\<lambda>e. join_with '' '' (crypttab_line e) @ [newline]) es)) = es"
  using crypttab_table.read_print_table [OF assms]
  by (simp add: parse_crypttab_read_table crypttab_table.print_table_def)

definition sample_crypttab :: "crypttab_entry list" where
  "sample_crypttab =
     [\<lparr>ct_name = ''root'', ct_source = ''UUID=77'', ct_key = None, ct_options = [''luks'', ''discard'']\<rparr>,
      \<lparr>ct_name = ''vc'', ct_source = ''/dev/sdb1'', ct_key = Some ''/etc/k'', ct_options = []\<rparr>]"

lemma sample_crypttab_printable: "\<forall>e\<in>set sample_crypttab. crypttab_printable e"
  by (auto simp: sample_crypttab_def crypttab_printable_def option_list_def intro!: ws_free_graphic)

theorem parse_crypttab_roundtrip_witness:
  "parse_crypttab (concat (map (\<lambda>e. join_with '' '' (crypttab_line e) @ [newline]) sample_crypttab))
     = sample_crypttab"
  using parse_crypttab_roundtrip [OF sample_crypttab_printable] by simp

text \<open>The name of a mount unit identifies its mount point: two absolute paths without a
  \<^verbatim>\<open>..\<close> component have the same unit exactly when they are the same path.  Masking the unit of
  one mount point never masks another's.\<close>

theorem mount_unit_identifies:
  assumes "utf8_valid p" "is_absolute p" "''..'' \<notin> set (split_on slash p)"
    and "utf8_valid q" "is_absolute q" "''..'' \<notin> set (split_on slash q)"
  shows "mount_unit p = mount_unit q \<longleftrightarrow> path_eq p q"
  using assms
  by (simp add: mount_unit_def escape_path_eq_iff path_eq_def components_simplify inj_map_eq_map inj_on_def)

theorem mount_unit_identifies_witness:
  "mount_unit ''/mnt/a-b'' = mount_unit ''/mnt/./a-b/'' \<longleftrightarrow> path_eq ''/mnt/a-b'' ''/mnt/./a-b/''"
  by (rule mount_unit_identifies) code_simp+

text \<open>A label names one link: the device of a \<^verbatim>\<open>LABEL=\<close> spec is a direct child of
  \<^verbatim>\<open>/dev/disk/by-label\<close>, whatever bytes the label has, and different labels name different
  links.\<close>

theorem spec_device_label:
  assumes "utf8_valid (unquote v)" "utf8_valid (unquote w)"
  shows "(\<exists>n. spec_device (''LABEL='' @ v) = Some (''/dev/disk/by-label/'' @ n) \<and> slash \<notin> set n)
    \<and> (spec_device (''LABEL='' @ v) = spec_device (''LABEL='' @ w) \<longleftrightarrow> unquote v = unquote w)"
proof
  have d: "spec_device (''LABEL='' @ u) = Some (''/dev/disk/by-label/'' @ encode_devnode_name (unquote u))"
    if "utf8_valid (unquote u)" for u
    using encode_devnode_name_no_slash [OF that]
    by (cases "encode_devnode_name (unquote u)")
      (auto simp: spec_device_def starts_with_def join_def is_absolute_def)
  show "\<exists>n. spec_device (''LABEL='' @ v) = Some (''/dev/disk/by-label/'' @ n) \<and> slash \<notin> set n"
    using d encode_devnode_name_no_slash assms by blast
  show "spec_device (''LABEL='' @ v) = spec_device (''LABEL='' @ w) \<longleftrightarrow> unquote v = unquote w"
    using d [OF assms(1)] d [OF assms(2)] assms
    by (auto simp del: append_Cons) (metis unhex_encode_devnode_name)
qed

theorem spec_device_label_witness:
  "(\<exists>n. spec_device (''LABEL='' @ ''a/b'') = Some (''/dev/disk/by-label/'' @ n) \<and> slash \<notin> set n)
   \<and> (spec_device (''LABEL='' @ ''a/b'') = spec_device (''LABEL='' @ ''c'') \<longleftrightarrow> unquote ''a/b'' = unquote ''c'')"
proof -
  have "utf8_valid (unquote ''a/b'')" "utf8_valid (unquote ''c'')" by code_simp+
  from spec_device_label [OF this] show ?thesis by blast
qed

end
