(* ===== verification/Separation.thy ===== *)
theory Separation
  imports Fstab Mountinfo
begin

text \<open>
  Whether the hidden root lives on storage the decoy uses: the judge of
  \<^verbatim>\<open>nails-base/src/hidden_root/separation/mod.rs\<close> and \<^verbatim>\<open>judge.rs\<close>, a pure function over the mount
  table, the parsed \<^verbatim>\<open>fstab\<close> and \<^verbatim>\<open>crypttab\<close> and a map of the block devices.  Its \<^verbatim>\<open>BTreeMap\<close>s are
  association lists and its \<^verbatim>\<open>BTreeSet\<close>s lists, of which only lookups and membership are used.  The
  lemmas show what a walk down the devices reaches; the properties say what the verdict that lets the
  root be written to rules out, and where the bound of the walk lets a shared device through.
\<close>

section \<open>Definitions\<close>

datatype severity = Refuse | Warn | Pass

definition CONTAINER_VERDICT :: severity where "CONTAINER_VERDICT = Warn"

definition SYSTEM_MOUNTS :: "path list" where
  "SYSTEM_MOUNTS = [''/usr'', ''/var'', ''/home'', ''/srv'', ''/boot'', ''/efi'', ''/boot/efi'', ''/nix'', ''/opt'']"

definition FSTAB :: path where "FSTAB = ''/etc/fstab''"
definition CRYPTTAB :: path where "CRYPTTAB = ''/etc/crypttab''"
definition MAX_WALK :: nat where "MAX_WALK = 32"

subsection \<open>Block devices\<close>

datatype file_holder = HeldByMount bytes | Unreadable path | Unplaced

record loop_file =
  lf_path :: path
  lf_holder :: file_holder

datatype node_kind = Disk | Partition bytes | Crypt bytes | Mapper bytes | Loop "loop_file option"

record dev_node =
  dn_kind :: node_kind
  dn_below :: "bytes list"

definition dm_name :: "dev_node \<Rightarrow> bytes option" where
  "dm_name n = (case dn_kind n of Crypt name \<Rightarrow> Some name | Mapper name \<Rightarrow> Some name | _ \<Rightarrow> None)"

record device_map =
  dev_nodes :: "(bytes \<times> dev_node) list"
  by_dev :: "(bytes \<times> bytes) list"
  by_spec :: "(bytes \<times> bytes) list"
  btrfs_sets :: "bytes list list"

definition node_of_mount :: "device_map \<Rightarrow> mount_entry \<Rightarrow> bytes option" where
  "node_of_mount d m = or_else (map_of (by_dev d) (m_dev m)) (map_of (by_spec d) (utf8_lossy (m_source m)))"

definition node_of_spec :: "device_map \<Rightarrow> bytes \<Rightarrow> bytes option" where
  "node_of_spec d s = map_of (by_spec d) s"

definition below_of :: "device_map \<Rightarrow> bytes \<Rightarrow> bytes list" where
  "below_of d n = (case map_of (dev_nodes d) n of None \<Rightarrow> [] | Some node \<Rightarrow> dn_below node)"

text \<open>\<^verbatim>\<open>DeviceMap::stack\<close>: the head of the list is the end of the vector, which is popped first.\<close>

function stack_loop :: "device_map \<Rightarrow> bytes list \<Rightarrow> bytes list \<Rightarrow> bytes list" where
  "stack_loop d seen [] = seen"
| "stack_loop d seen (nxt # pending) =
     (if length seen \<ge> MAX_WALK \<or> nxt \<in> set seen then stack_loop d seen pending
      else stack_loop d (seen @ [nxt]) (below_of d nxt @ pending))"
  by pat_completeness auto
termination
  by (relation "measures [\<lambda>(d, seen, pending). MAX_WALK - length seen, \<lambda>(d, seen, pending). length pending]") auto

definition stack :: "device_map \<Rightarrow> bytes \<Rightarrow> bytes list" where
  "stack d name = stack_loop d [] [name]"

definition same_btrfs :: "device_map \<Rightarrow> bytes \<Rightarrow> bytes \<Rightarrow> bool" where
  "same_btrfs d a b \<longleftrightarrow> (\<exists>members\<in>set (btrfs_sets d). a \<in> set members \<and> b \<in> set members)"

subsection \<open>The scene and the verdicts\<close>

record scene =
  sc_mounts :: "mount_entry list"
  sc_fstab :: "fstab_entry list"
  sc_crypttab :: "crypttab_entry list"
  sc_devices :: device_map
  sc_unreadable :: "path list"

datatype sharing = Bind | Subvolume | Filesystem

datatype claimed = ClaimedMount path | ClaimedSwap bytes | ClaimedEncrypted bytes

datatype verdict =
  CouldNotJudge "path list"
| OnDecoyFilesystem sharing path
| InsideDecoyStorage bytes claimed bool
| ImageFileOnDecoy path path
| ContainerOnDecoy path path
| UntracedStorage bytes
| UnplacedImageFile path
| Separate

definition severity_with :: "severity \<Rightarrow> verdict \<Rightarrow> severity" where
  "severity_with container v =
     (case v of
        Separate \<Rightarrow> Pass
      | ContainerOnDecoy _ _ \<Rightarrow> container
      | InsideDecoyStorage _ _ noauto_only \<Rightarrow> if noauto_only then Warn else Refuse
      | _ \<Rightarrow> Refuse)"

definition severity_of :: "verdict \<Rightarrow> severity" where
  "severity_of v = severity_with CONTAINER_VERDICT v"

definition join_paths :: "path list \<Rightarrow> bytes" where
  "join_paths ps = join_with '', '' (map utf8_lossy ps)"

definition reason :: "verdict \<Rightarrow> bytes" where
  "reason v =
     (case v of
        CouldNotJudge unreadable \<Rightarrow> join_paths unreadable @ '' could not be read, so where it lives cannot be told''
      | OnDecoyFilesystem Bind at \<Rightarrow> ''it is a bind mount of a folder of '' @ utf8_lossy at
      | OnDecoyFilesystem Subvolume at \<Rightarrow> ''it is a subvolume of the btrfs filesystem at '' @ utf8_lossy at
      | OnDecoyFilesystem Filesystem at \<Rightarrow>
          ''it is the filesystem this computer mounts at '' @ utf8_lossy at @ '' per '' @ FSTAB
      | InsideDecoyStorage _ (ClaimedSwap _) _ \<Rightarrow> ''it is stored on a device this computer uses as swap''
      | InsideDecoyStorage _ (ClaimedMount at) _ \<Rightarrow>
          ''it is stored on a device that also holds the filesystem at '' @ utf8_lossy at
      | InsideDecoyStorage _ (ClaimedEncrypted _) _ \<Rightarrow>
          ''it is stored on a device this computer unlocks through '' @ CRYPTTAB
      | ImageFileOnDecoy f at \<Rightarrow> ''it is an unencrypted image file ('' @ utf8_lossy f @ '') on '' @ utf8_lossy at
      | ContainerOnDecoy f at \<Rightarrow>
          ''it is an encrypted container file ('' @ utf8_lossy f @ '') on '' @ utf8_lossy at
          @ ''; journals and copy-on-write snapshots (btrfs, snapper) of that filesystem can keep old copies of the ''
          @ ''parts of the container that changed''
      | UntracedStorage fstype \<Rightarrow>
          ''it is on a filesystem of type '' @ fstype @ '', which shows no disk it stores its data on''
      | UnplacedImageFile f \<Rightarrow> ''it is an image file ('' @ utf8_lossy f @ '') that no filesystem mounted here holds''
      | Separate \<Rightarrow> ''it is separate from this computer's own storage'')"

datatype entry_kind = Blocking | OuterWarning

record entry_finding =
  ef_kind :: entry_kind
  ef_file :: path
  ef_line :: bytes
  ef_why :: bytes

record judgement =
  j_verdict :: verdict
  j_entries :: "entry_finding list"

record claim =
  c_what :: claimed
  c_superblocks :: "bytes list"
  c_nodes :: "bytes list"
  c_tops :: "bytes list"
  c_noauto :: bool

subsection \<open>File systems\<close>

definition is_ram :: "bytes \<Rightarrow> bool" where
  "is_ram fstype \<longleftrightarrow> fstype = ''tmpfs'' \<or> fstype = ''ramfs''"

definition is_stacked :: "bytes \<Rightarrow> bool" where
  "is_stacked fstype \<longleftrightarrow>
     fstype = ''overlay'' \<or> fstype = ''aufs'' \<or> fstype = ''ecryptfs'' \<or> fstype = ''fuse'' \<or> starts_with ''fuse.'' fstype"

definition untraced :: "device_map \<Rightarrow> mount_entry \<Rightarrow> bool" where
  "untraced d m \<longleftrightarrow> is_stacked (m_fstype m) \<or> node_of_mount d m = None"

definition shown_fstype :: "bytes \<Rightarrow> bytes" where
  "shown_fstype fstype = (if starts_with ''fuse.'' fstype then ''fuse'' else fstype)"

definition sharing_of :: "mount_entry \<Rightarrow> sharing" where
  "sharing_of hidden =
     (let root = utf8_lossy (m_root hidden);
          subvol = find_map (strip_prefix ''subvol='')
                     (split_on (CHR '','') (super_opts hidden) @ split_on (CHR '','') (mount_opts hidden))
      in if root = ''/'' then Filesystem
         else if m_fstype hidden = ''btrfs'' \<and> subvol = Some root then Subvolume else Bind)"

text \<open>\<^verbatim>\<open>hidden_root::mount_holding\<close>: the visible mount at the deepest prefix that is a mount point.\<close>

definition mount_holding :: "mount_entry list \<Rightarrow> path \<Rightarrow> mount_entry option" where
  "mount_holding table p = find_map (top_mount_at_components table) (ancestors (components p))"

subsection \<open>Claims\<close>

definition device_claim :: "scene \<Rightarrow> claimed \<Rightarrow> bytes list \<Rightarrow> bool \<Rightarrow> claim" where
  "device_claim sc what tops noauto =
     \<lparr>c_what = what,
      c_superblocks = map m_dev (filter (\<lambda>m. is_some_and (node_of_mount (sc_devices sc) m) (\<lambda>n. n \<in> set tops)) (sc_mounts sc)),
      c_nodes = concat (map (stack (sc_devices sc)) tops),
      c_tops = tops,
      c_noauto = noauto\<rparr>"

definition mount_claim :: "scene \<Rightarrow> mount_entry \<Rightarrow> bool \<Rightarrow> claim" where
  "mount_claim sc m noauto =
     (let tops = (case node_of_mount (sc_devices sc) m of None \<Rightarrow> [] | Some n \<Rightarrow> [n]);
          claim = device_claim sc (ClaimedMount (mount_point m)) tops noauto
      in if m_dev m \<in> set (c_superblocks claim) then claim
         else claim\<lparr>c_superblocks := c_superblocks claim @ [m_dev m]\<rparr>)"

definition blocking :: "path \<Rightarrow> bytes \<Rightarrow> bytes \<Rightarrow> entry_finding" where
  "blocking f line why = \<lparr>ef_kind = Blocking, ef_file = f, ef_line = line, ef_why = why\<rparr>"

definition disk_of :: "device_map \<Rightarrow> bytes \<Rightarrow> bytes option" where
  "disk_of d name =
     (case map_option dn_kind (map_of (dev_nodes d) name) of
        Some (Partition disk) \<Rightarrow> Some disk
      | Some Disk \<Rightarrow> Some name
      | _ \<Rightarrow> None)"

definition same_drive :: "device_map \<Rightarrow> bytes \<Rightarrow> bytes list \<Rightarrow> bool" where
  "same_drive d node stk \<longleftrightarrow>
     (\<exists>disk\<in>set (filter_map (disk_of d) (stack d node)). disk \<in> set (filter_map (disk_of d) stk))"

definition opt_list :: "'a option \<Rightarrow> 'a list" where
  "opt_list v = (case v of None \<Rightarrow> [] | Some x \<Rightarrow> [x])"

definition system_claims :: "scene \<Rightarrow> mount_entry \<Rightarrow> claim list" where
  "system_claims sc hidden =
     map (\<lambda>m. mount_claim sc m False)
       (opt_list (top_mount_at (sc_mounts sc) ''/'')
        @ filter_map (\<lambda>point. if path_starts_with point (mount_point hidden) then None
                              else top_mount_at (sc_mounts sc) point) SYSTEM_MOUNTS)"

definition fstab_ignored :: "fstab_entry \<Rightarrow> bool" where
  "fstab_ignored e \<longleftrightarrow> is_virtual e \<or> is_host_share e \<or> is_network e \<or> vfstype e = ''overlay''"

text \<open>What one \<^verbatim>\<open>fstab\<close> entry adds to the claims and to the findings.\<close>

definition fstab_finding :: "scene \<Rightarrow> mount_entry \<Rightarrow> bytes list \<Rightarrow> fstab_entry \<Rightarrow> entry_finding list" where
  "fstab_finding sc hidden stk e =
     (case node_of_spec (sc_devices sc) (spec e) of
        None \<Rightarrow> []
      | Some node \<Rightarrow>
          if fstab_ignored e \<or> node \<notin> set stk then []
          else [blocking FSTAB (spec e @ '' '' @ utf8_lossy (fs_file e) @ '' '' @ vfstype e)
                  (if stk \<noteq> [] \<and> node = hd stk
                   then ''it mounts the volume at '' @ utf8_lossy (mount_point hidden)
                   else ''it mounts a device the volume at '' @ utf8_lossy (mount_point hidden) @ '' is stored on'')])"

definition fstab_claims :: "scene \<Rightarrow> mount_entry \<Rightarrow> bytes list \<Rightarrow> fstab_entry \<Rightarrow> claim list" where
  "fstab_claims sc hidden stk e =
     (let node = node_of_spec (sc_devices sc) (spec e);
          noauto = is_noauto e;
          file_spec = (starts_with ''/'' (spec e) \<and> \<not> starts_with ''/dev/'' (spec e))
      in if fstab_ignored e then []
         else if is_some_and node (\<lambda>n. n \<in> set stk) \<and> noauto then []
         else if is_bind e \<or> (node = None \<and> file_spec)
         then (case mount_holding (sc_mounts sc) (spec e) of
                 None \<Rightarrow> []
               | Some holder \<Rightarrow> [mount_claim sc holder noauto])
         else
           (if \<not> is_swap e \<and> \<not> noauto \<and> \<not> path_starts_with (fs_file e) (mount_point hidden)
            then map (\<lambda>live. mount_claim sc live False) (opt_list (top_mount_at (sc_mounts sc) (fs_file e)))
            else [])
           @ [device_claim sc (if is_swap e then ClaimedSwap (spec e) else ClaimedMount (fs_file e)) (opt_list node) noauto])"

text \<open>What one \<^verbatim>\<open>crypttab\<close> entry adds: a finding or a claim.\<close>

definition crypttab_claim ::
    "scene \<Rightarrow> mount_entry \<Rightarrow> bytes list \<Rightarrow> crypttab_entry \<Rightarrow> entry_finding + claim" where
  "crypttab_claim sc hidden stk e =
     (let d = sc_devices sc;
          line = ct_name e @ '' '' @ ct_source e;
          source = node_of_spec d (ct_source e);
          mapping = node_of_spec d (''/dev/mapper/'' @ ct_name e);
          hidden_names = filter_map (\<lambda>n. Option.bind (map_of (dev_nodes d) n) dm_name) stk;
          in_stack = (\<lambda>n. is_some_and n (\<lambda>x. x \<in> set stk))
      in if is_tcrypt_hidden e \<and> is_none_or source (\<lambda>s. s \<in> set stk \<or> same_drive d s stk)
         then Inl (blocking CRYPTTAB line ''it opens the hidden volume of a TrueCrypt or VeraCrypt container'')
         else if ct_name e \<in> set hidden_names \<or> in_stack source \<or> in_stack mapping
         then Inl (blocking CRYPTTAB line
                (if is_tcrypt e
                 then ''it opens the device the volume at '' @ utf8_lossy (mount_point hidden)
                      @ '' is opened from; whether that is the outer or the hidden volume cannot be told''
                 else ''it opens the volume at '' @ utf8_lossy (mount_point hidden) @ '' or a device it is stored on''))
         else if is_tcrypt e \<and> is_some_and source (\<lambda>s. same_drive d s stk)
         then Inl \<lparr>ef_kind = OuterWarning, ef_file = CRYPTTAB, ef_line = line,
                   ef_why = ''the decoy is configured to open storage on this drive''\<rparr>
         else Inr (device_claim sc (ClaimedEncrypted (ct_name e)) (opt_list source @ opt_list mapping) (ct_has_option e ''noauto'')))"

definition claims :: "scene \<Rightarrow> mount_entry \<Rightarrow> bytes list \<Rightarrow> claim list \<times> entry_finding list" where
  "claims sc hidden stk =
     (let crypt = map (crypttab_claim sc hidden stk) (sc_crypttab sc)
      in (system_claims sc hidden @ concat (map (fstab_claims sc hidden stk) (sc_fstab sc))
            @ filter_map (\<lambda>r. case r of Inr c \<Rightarrow> Some c | Inl _ \<Rightarrow> None) crypt,
          concat (map (fstab_finding sc hidden stk) (sc_fstab sc))
            @ filter_map (\<lambda>r. case r of Inl f \<Rightarrow> Some f | Inr _ \<Rightarrow> None) crypt))"

subsection \<open>The verdict\<close>

definition on_decoy :: "scene \<Rightarrow> mount_entry \<Rightarrow> bytes option \<Rightarrow> claim \<Rightarrow> verdict option" where
  "on_decoy sc hidden topmost c =
     (case c_what c of
        ClaimedMount at \<Rightarrow>
          if m_dev hidden \<in> set (c_superblocks c) then Some (OnDecoyFilesystem (sharing_of hidden) at)
          else if is_some_and topmost (\<lambda>tp. \<exists>t\<in>set (c_tops c). t = tp \<or> same_btrfs (sc_devices sc) t tp)
          then Some (OnDecoyFilesystem Filesystem at)
          else None
      | _ \<Rightarrow> None)"

definition claimed_holder :: "claim list \<Rightarrow> device_map \<Rightarrow> mount_entry \<Rightarrow> path option" where
  "claimed_holder cs d holder =
     find_map (\<lambda>c. case c_what c of
                     ClaimedMount at \<Rightarrow>
                       if m_dev holder \<in> set (c_superblocks c)
                        \<or> is_some_and (node_of_mount d holder) (\<lambda>n. n \<in> set (c_tops c))
                       then Some at else None
                   | _ \<Rightarrow> None) cs"

definition is_crypt :: "device_map \<Rightarrow> bytes \<Rightarrow> bool" where
  "is_crypt d n \<longleftrightarrow> (case map_option dn_kind (map_of (dev_nodes d) n) of Some (Crypt _) \<Rightarrow> True | _ \<Rightarrow> False)"

definition loop_file_of :: "device_map \<Rightarrow> bytes \<Rightarrow> loop_file option" where
  "loop_file_of d n = (case map_option dn_kind (map_of (dev_nodes d) n) of Some (Loop f) \<Rightarrow> f | _ \<Rightarrow> None)"

text \<open>What one device of the stack says: a verdict, or nothing.\<close>

definition image_verdict :: "scene \<Rightarrow> bytes list \<Rightarrow> claim list \<Rightarrow> bytes \<Rightarrow> verdict option" where
  "image_verdict sc stk cs node =
     (let d = sc_devices sc in
      case loop_file_of d node of
        None \<Rightarrow> None
      | Some lf \<Rightarrow>
          (case lf_holder lf of
             Unreadable p \<Rightarrow> Some (CouldNotJudge [p])
           | Unplaced \<Rightarrow> Some (UnplacedImageFile (lf_path lf))
           | HeldByMount dev \<Rightarrow>
               (case find (\<lambda>m. m_dev m = dev) (sc_mounts sc) of
                  None \<Rightarrow> Some (UnplacedImageFile (lf_path lf))
                | Some holder \<Rightarrow>
                    (case claimed_holder cs d holder of
                       None \<Rightarrow>
                         if \<not> is_ram (m_fstype holder) \<and> untraced d holder
                         then Some (UntracedStorage (shown_fstype (m_fstype holder)))
                         else None
                     | Some at \<Rightarrow>
                         if \<exists>above\<in>set stk. is_crypt d above \<and> node \<in> set (stack d above)
                         then Some (ContainerOnDecoy (lf_path lf) at)
                         else Some (ImageFileOnDecoy (lf_path lf) at)))))"

definition verdict_of :: "scene \<Rightarrow> mount_entry \<Rightarrow> bytes option \<Rightarrow> bytes list \<Rightarrow> claim list \<Rightarrow> verdict" where
  "verdict_of sc hidden topmost stk cs =
     (case find_map (on_decoy sc hidden topmost) cs of
        Some v \<Rightarrow> v
      | None \<Rightarrow>
          if topmost = None then UntracedStorage (shown_fstype (m_fstype hidden))
          else
            (let sharing = filter_map (\<lambda>c. map_option (\<lambda>n. (c, n)) (find (\<lambda>n. n \<in> set (c_nodes c)) stk)) cs in
             case sharing of
               (c, node) # _ \<Rightarrow> InsideDecoyStorage node (c_what c) (\<forall>(c, _)\<in>set sharing. c_noauto c)
             | [] \<Rightarrow>
                 (case find_map (image_verdict sc stk cs) stk of
                    Some v \<Rightarrow> v
                  | None \<Rightarrow> Separate)))"

definition judged_top :: "scene \<Rightarrow> mount_entry \<Rightarrow> bytes option" where
  "judged_top sc hidden = (if is_stacked (m_fstype hidden) then None else node_of_mount (sc_devices sc) hidden)"

definition judged_stack :: "scene \<Rightarrow> mount_entry \<Rightarrow> bytes list" where
  "judged_stack sc hidden = (case judged_top sc hidden of None \<Rightarrow> [] | Some t \<Rightarrow> stack (sc_devices sc) t)"

definition judge :: "scene \<Rightarrow> mount_entry \<Rightarrow> judgement" where
  "judge sc hidden =
     (if is_ram (m_fstype hidden) then \<lparr>j_verdict = Separate, j_entries = []\<rparr>
      else
        (let topmost = judged_top sc hidden;
             stk = judged_stack sc hidden;
             (cs, entries) = claims sc hidden stk
         in \<lparr>j_verdict = (if sc_unreadable sc = [] then verdict_of sc hidden topmost stk cs
                          else CouldNotJudge (sc_unreadable sc)),
             j_entries = entries\<rparr>))"

section \<open>Lemmas\<close>

subsection \<open>The walk down the devices\<close>

definition below_rel :: "device_map \<Rightarrow> (bytes \<times> bytes) set" where
  "below_rel d = {(a, b). b \<in> set (below_of d a)}"

abbreviation on :: "device_map \<Rightarrow> bytes \<Rightarrow> bytes set" where
  "on d n \<equiv> {x. (n, x) \<in> (below_rel d)\<^sup>*}"

lemma stack_loop_bound: "length seen \<le> MAX_WALK \<Longrightarrow> length (stack_loop d seen pending) \<le> MAX_WALK"
  by (induction d seen pending rule: stack_loop.induct) auto

lemma stack_loop_grows: "set seen \<subseteq> set (stack_loop d seen pending) \<and> length seen \<le> length (stack_loop d seen pending)"
  by (induction d seen pending rule: stack_loop.induct) auto

lemma stack_loop_sound:
  "set (stack_loop d seen pending) \<subseteq> set seen \<union> (below_rel d)\<^sup>* `` set pending"
proof (induction d seen pending rule: stack_loop.induct)
  case (2 d seen nxt pending)
  have "(below_rel d)\<^sup>* `` set (below_of d nxt @ pending) \<subseteq> (below_rel d)\<^sup>* `` set (nxt # pending)"
    by (auto simp: below_rel_def intro: converse_rtrancl_into_rtrancl)
  with 2 show ?case by auto
qed simp

lemma stack_loop_closed:
  assumes "length (stack_loop d seen pending) < MAX_WALK"
    and "\<forall>a\<in>set seen. set (below_of d a) \<subseteq> set seen \<union> set pending"
  shows "set pending \<subseteq> set (stack_loop d seen pending)
       \<and> (\<forall>a\<in>set (stack_loop d seen pending). set (below_of d a) \<subseteq> set (stack_loop d seen pending))"
  using assms
proof (induction d seen pending rule: stack_loop.induct)
  case (2 d seen nxt pending)
  have short: "length seen < MAX_WALK" using 2(3) stack_loop_grows [of seen d "nxt # pending"] by (simp split: if_splits)
  show ?case
  proof (cases "nxt \<in> set seen")
    case True
    then have e: "stack_loop d seen (nxt # pending) = stack_loop d seen pending" by simp
    have "\<forall>a\<in>set seen. set (below_of d a) \<subseteq> set seen \<union> set pending" using 2(4) True by auto
    with 2(1) 2(3) True e have "set pending \<subseteq> set (stack_loop d seen pending)
       \<and> (\<forall>a\<in>set (stack_loop d seen pending). set (below_of d a) \<subseteq> set (stack_loop d seen pending))" by simp
    with e True stack_loop_grows [of seen d pending] show ?thesis by auto
  next
    case False
    then have e: "stack_loop d seen (nxt # pending) = stack_loop d (seen @ [nxt]) (below_of d nxt @ pending)"
      using short by simp
    have "\<forall>a\<in>set (seen @ [nxt]). set (below_of d a) \<subseteq> set (seen @ [nxt]) \<union> set (below_of d nxt @ pending)"
      using 2(4) by auto
    with 2(2) 2(3) False short e stack_loop_grows [of "seen @ [nxt]" d "below_of d nxt @ pending"] show ?thesis by auto
  qed
qed simp

lemma stack_exact:
  assumes "length (stack d n) < MAX_WALK"
  shows "set (stack d n) = on d n"
proof
  show "set (stack d n) \<subseteq> on d n" using stack_loop_sound [of d "[]" "[n]"] by (auto simp: stack_def)
  have c: "n \<in> set (stack d n)" "\<And>a b. a \<in> set (stack d n) \<Longrightarrow> b \<in> set (below_of d a) \<Longrightarrow> b \<in> set (stack d n)"
    using stack_loop_closed [OF assms [unfolded stack_def]] unfolding stack_def by (simp_all only: list.set simp_thms) blast+
  show "on d n \<subseteq> set (stack d n)"
  proof
    fix x assume "x \<in> on d n"
    then have "(n, x) \<in> (below_rel d)\<^sup>*" by simp
    then show "x \<in> set (stack d n)" by (induction rule: rtrancl_induct) (use c in \<open>auto simp: below_rel_def\<close>)
  qed
qed

subsection \<open>The verdict\<close>

lemma verdict_SeparateD:
  assumes "verdict_of sc hidden topmost stk cs = Separate"
  obtains tp where "topmost = Some tp" "\<forall>c\<in>set cs. on_decoy sc hidden topmost c = None"
    "\<forall>c\<in>set cs. \<forall>n\<in>set stk. n \<notin> set (c_nodes c)" "\<forall>n\<in>set stk. image_verdict sc stk cs n = None"
proof -
  have no_sep: "on_decoy sc hidden topmost c \<noteq> Some Separate" "image_verdict sc stk cs n \<noteq> Some Separate" for c n
    by (auto simp: on_decoy_def image_verdict_def Let_def split: claimed.splits option.splits file_holder.splits)
  let ?sh = "filter_map (\<lambda>c. map_option (\<lambda>n. (c, n)) (find (\<lambda>n. n \<in> set (c_nodes c)) stk)) cs"
  have a: "find_map (on_decoy sc hidden topmost) cs = None"
    using assms no_sep(1) find_map_SomeD [of "on_decoy sc hidden topmost" cs]
    by (auto simp: verdict_of_def split: option.splits)
  then have b: "topmost \<noteq> None" using assms by (cases topmost) (simp_all add: verdict_of_def)
  have c: "?sh = []" using assms a b by (auto simp: verdict_of_def Let_def split: list.splits)
  then have s: "\<forall>c\<in>set cs. find (\<lambda>n. n \<in> set (c_nodes c)) stk = None"
    by (simp add: filter_map_Nil_iff)
  have "find_map (image_verdict sc stk cs) stk = None"
    using assms a b c no_sep(2) find_map_SomeD [of "image_verdict sc stk cs" stk]
    by (auto simp: verdict_of_def Let_def split: option.splits)
  then show thesis
    using that a b s by (auto simp: find_map_None_iff find_None_iff)
qed

lemma judge_SeparateD:
  assumes "j_verdict (judge sc hidden) = Separate" "\<not> is_ram (m_fstype hidden)"
  obtains tp where "sc_unreadable sc = []" "judged_top sc hidden = Some tp" "judged_stack sc hidden = stack (sc_devices sc) tp"
    "\<forall>c\<in>set (fst (claims sc hidden (judged_stack sc hidden))). on_decoy sc hidden (Some tp) c = None
       \<and> (\<forall>n\<in>set (judged_stack sc hidden). n \<notin> set (c_nodes c))"
    "\<forall>n\<in>set (judged_stack sc hidden). image_verdict sc (judged_stack sc hidden) (fst (claims sc hidden (judged_stack sc hidden))) n = None"
proof -
  have u: "sc_unreadable sc = []" and v: "verdict_of sc hidden (judged_top sc hidden) (judged_stack sc hidden)
      (fst (claims sc hidden (judged_stack sc hidden))) = Separate"
    using assms by (auto simp: judge_def Let_def split: prod.splits if_splits)
  from v obtain tp where "judged_top sc hidden = Some tp"
    "\<forall>c\<in>set (fst (claims sc hidden (judged_stack sc hidden))). on_decoy sc hidden (judged_top sc hidden) c = None"
    "\<forall>c\<in>set (fst (claims sc hidden (judged_stack sc hidden))). \<forall>n\<in>set (judged_stack sc hidden). n \<notin> set (c_nodes c)"
    "\<forall>n\<in>set (judged_stack sc hidden). image_verdict sc (judged_stack sc hidden) (fst (claims sc hidden (judged_stack sc hidden))) n = None"
    by (rule verdict_SeparateD)
  then show thesis using that [OF u] by (simp add: judged_stack_def)
qed

lemma mount_claim_simps:
  "c_what (mount_claim sc m b) = ClaimedMount (mount_point m)"
  "m_dev m \<in> set (c_superblocks (mount_claim sc m b))"
  "node_of_mount (sc_devices sc) m = Some n \<Longrightarrow> c_nodes (mount_claim sc m b) = stack (sc_devices sc) n"
  by (auto simp: mount_claim_def device_claim_def Let_def)

lemma mount_claim_separate:
  assumes "on_decoy sc hidden tp (mount_claim sc m b) = None"
  shows "m_dev m \<noteq> m_dev hidden"
  using assms mount_claim_simps(2) [of m sc b] by (auto simp: on_decoy_def mount_claim_simps(1) split: if_splits)

text \<open>The decoy's own storage, as the claims stand for it: the mounts at \<^verbatim>\<open>/\<close> and at the system's mount
  points, what the boot mounted for an \<^verbatim>\<open>fstab\<close> entry, and the devices these and the entries name.\<close>

definition file_spec :: "fstab_entry \<Rightarrow> bool" where
  "file_spec e \<longleftrightarrow> starts_with ''/'' (spec e) \<and> \<not> starts_with ''/dev/'' (spec e)"

definition boot_entry :: "scene \<Rightarrow> fstab_entry \<Rightarrow> bool" where
  "boot_entry sc e \<longleftrightarrow> e \<in> set (sc_fstab sc) \<and> \<not> fstab_ignored e \<and> \<not> is_noauto e \<and> \<not> is_bind e
     \<and> (node_of_spec (sc_devices sc) (spec e) \<noteq> None \<or> \<not> file_spec e)"

definition decoy_mounted :: "scene \<Rightarrow> mount_entry \<Rightarrow> mount_entry \<Rightarrow> bool" where
  "decoy_mounted sc hidden m \<longleftrightarrow>
     top_mount_at (sc_mounts sc) ''/'' = Some m
     \<or> (\<exists>p\<in>set SYSTEM_MOUNTS. \<not> path_starts_with p (mount_point hidden) \<and> top_mount_at (sc_mounts sc) p = Some m)
     \<or> (\<exists>e. boot_entry sc e \<and> \<not> is_swap e \<and> \<not> path_starts_with (fs_file e) (mount_point hidden)
          \<and> top_mount_at (sc_mounts sc) (fs_file e) = Some m)"

definition decoy_device :: "scene \<Rightarrow> mount_entry \<Rightarrow> bytes \<Rightarrow> bool" where
  "decoy_device sc hidden n \<longleftrightarrow>
     (\<exists>m. decoy_mounted sc hidden m \<and> node_of_mount (sc_devices sc) m = Some n)
     \<or> (\<exists>e. boot_entry sc e \<and> node_of_spec (sc_devices sc) (spec e) = Some n)"

lemma decoy_mounted_claim:
  assumes "decoy_mounted sc hidden m"
  shows "\<exists>b. mount_claim sc m b \<in> set (fst (claims sc hidden stk))"
proof -
  have sys: "\<exists>b. mount_claim sc m b \<in> set (system_claims sc hidden)"
    if "top_mount_at (sc_mounts sc) ''/'' = Some m
      \<or> (\<exists>p\<in>set SYSTEM_MOUNTS. \<not> path_starts_with p (mount_point hidden) \<and> top_mount_at (sc_mounts sc) p = Some m)"
    using that by (auto simp: system_claims_def opt_list_def set_filter_map split: if_splits)
  have ent: "\<exists>b. mount_claim sc m b \<in> set (fstab_claims sc hidden stk e)"
    if "boot_entry sc e" "\<not> is_swap e" "\<not> path_starts_with (fs_file e) (mount_point hidden)"
      "top_mount_at (sc_mounts sc) (fs_file e) = Some m" for e
    using that by (auto simp: fstab_claims_def boot_entry_def file_spec_def opt_list_def Let_def)
  have "\<exists>e\<in>set (sc_fstab sc). \<exists>b. mount_claim sc m b \<in> set (fstab_claims sc hidden stk e)"
    if "\<exists>e. boot_entry sc e \<and> \<not> is_swap e \<and> \<not> path_starts_with (fs_file e) (mount_point hidden)
          \<and> top_mount_at (sc_mounts sc) (fs_file e) = Some m"
    using that ent boot_entry_def by blast
  with sys assms show ?thesis unfolding decoy_mounted_def claims_def Let_def by auto
qed

lemma boot_entry_claim:
  assumes "boot_entry sc e" "node_of_spec (sc_devices sc) (spec e) = Some n"
  shows "\<exists>c\<in>set (fst (claims sc hidden stk)). c_nodes c = stack (sc_devices sc) n"
proof -
  have "device_claim sc (if is_swap e then ClaimedSwap (spec e) else ClaimedMount (fs_file e)) [n] False \<in> set (fstab_claims sc hidden stk e)"
    using assms by (auto simp: fstab_claims_def boot_entry_def opt_list_def Let_def)
  moreover have "e \<in> set (sc_fstab sc)" using assms by (simp add: boot_entry_def)
  ultimately have "device_claim sc (if is_swap e then ClaimedSwap (spec e) else ClaimedMount (fs_file e)) [n] False
      \<in> set (fst (claims sc hidden stk))"
    unfolding claims_def Let_def fst_conv by auto
  then show ?thesis by (rule bexI [rotated]) (simp add: device_claim_def)
qed

lemma judged_separate_mounts:
  assumes "j_verdict (judge sc hidden) = Separate" "\<not> is_ram (m_fstype hidden)" "decoy_mounted sc hidden m"
  shows "m_dev m \<noteq> m_dev hidden"
proof -
  obtain tp where "\<forall>c\<in>set (fst (claims sc hidden (judged_stack sc hidden))). on_decoy sc hidden (Some tp) c = None
     \<and> (\<forall>n\<in>set (judged_stack sc hidden). n \<notin> set (c_nodes c))"
    by (rule judge_SeparateD [OF assms(1,2)])
  then show ?thesis using decoy_mounted_claim [OF assms(3)] mount_claim_separate by blast
qed

lemma judged_separate:
  assumes "j_verdict (judge sc hidden) = Separate" "\<not> is_ram (m_fstype hidden)"
    and "\<forall>n. length (stack (sc_devices sc) n) < MAX_WALK"
  shows "\<exists>tp. judged_top sc hidden = Some tp \<and> sc_unreadable sc = []
     \<and> (\<forall>m. decoy_mounted sc hidden m \<longrightarrow> m_dev m \<noteq> m_dev hidden)
     \<and> (\<forall>n. decoy_device sc hidden n \<longrightarrow> on (sc_devices sc) tp \<inter> on (sc_devices sc) n = {})"
proof -
  let ?cs = "fst (claims sc hidden (judged_stack sc hidden))" and ?d = "sc_devices sc"
  obtain tp where tp: "sc_unreadable sc = []" "judged_top sc hidden = Some tp" "judged_stack sc hidden = stack ?d tp"
    "\<forall>c\<in>set ?cs. on_decoy sc hidden (Some tp) c = None \<and> (\<forall>n\<in>set (judged_stack sc hidden). n \<notin> set (c_nodes c))"
    by (rule judge_SeparateD [OF assms(1,2)])
  have m: "m_dev m \<noteq> m_dev hidden" if "decoy_mounted sc hidden m" for m
    using judged_separate_mounts [OF assms(1,2) that] .
  have "on ?d tp \<inter> on ?d n = {}" if n: "decoy_device sc hidden n" for n
  proof -
    obtain c where "c \<in> set ?cs" "c_nodes c = stack ?d n"
      using n decoy_mounted_claim mount_claim_simps(3) boot_entry_claim unfolding decoy_device_def by metis
    then have "set (stack ?d tp) \<inter> set (stack ?d n) = {}" using tp(3,4) by fastforce
    then show ?thesis using stack_exact assms(3) by metis
  qed
  with m tp(1,2) show ?thesis by blast
qed

section \<open>Properties\<close>

text \<open>C11: a hidden root judged separate shares nothing with the decoy's storage.  When the judge says
  separate for a root that is not in RAM, every input was read, the root's device is known, no mount of the
  decoy is on the root's file system, and, as long as no walk down from a device meets 32 devices, nothing
  the root's device stands on is a device of the decoy or something one stands on.\<close>

theorem separate_from_decoy:
  assumes "j_verdict (judge sc hidden) = Separate" "\<not> is_ram (m_fstype hidden)"
    and "\<forall>n. length (stack (sc_devices sc) n) < MAX_WALK"
  shows "\<exists>tp. judged_top sc hidden = Some tp \<and> sc_unreadable sc = []
     \<and> (\<forall>m. decoy_mounted sc hidden m \<longrightarrow> m_dev m \<noteq> m_dev hidden)
     \<and> (\<forall>n. decoy_device sc hidden n \<longrightarrow> on (sc_devices sc) tp \<inter> on (sc_devices sc) n = {})"
  using assms by (rule judged_separate)

definition sample_mount :: "int \<Rightarrow> int \<Rightarrow> bytes \<Rightarrow> path \<Rightarrow> mount_entry" where
  "sample_mount i p dev point =
     \<lparr>mount_id = i, parent_id = p, m_dev = dev, m_root = ''/'', mount_point = point, mount_opts = ''rw'',
      m_fstype = ''ext4'', m_source = ''none'', super_opts = ''rw''\<rparr>"

definition sample_hidden :: mount_entry where
  "sample_hidden = sample_mount 2 1 ''8:17'' ''/mnt''"

definition sample_root :: mount_entry where
  "sample_root = sample_mount 1 0 ''8:1'' ''/''"

definition sample_scene :: "bytes list \<Rightarrow> scene" where
  "sample_scene below =
     \<lparr>sc_mounts = [sample_root, sample_hidden], sc_fstab = [], sc_crypttab = [],
      sc_devices = \<lparr>dev_nodes = [(''sda1'', \<lparr>dn_kind = Disk, dn_below = []\<rparr>), (''sdb1'', \<lparr>dn_kind = Mapper ''x'', dn_below = below\<rparr>)],
                    by_dev = [(''8:1'', ''sda1''), (''8:17'', ''sdb1'')], by_spec = [], btrfs_sets = []\<rparr>,
      sc_unreadable = []\<rparr>"

lemma sample_root_mounted: "decoy_mounted (sample_scene below) sample_hidden sample_root"
proof -
  have "top_mount_at [sample_root, sample_hidden] ''/'' = Some sample_root" by code_simp
  then show ?thesis by (simp add: decoy_mounted_def sample_scene_def)
qed

theorem separate_from_decoy_witness:
  "j_verdict (judge (sample_scene []) sample_hidden) = Separate
   \<and> on (sc_devices (sample_scene [])) ''sdb1'' \<inter> on (sc_devices (sample_scene [])) ''sda1'' = {}"
proof
  show j: "j_verdict (judge (sample_scene []) sample_hidden) = Separate" by code_simp
  have r: "\<not> is_ram (m_fstype sample_hidden)" by code_simp
  have "below_of (sc_devices (sample_scene [])) n = []" for n by (simp add: below_of_def sample_scene_def)
  then have s: "\<forall>n. length (stack (sc_devices (sample_scene [])) n) < MAX_WALK" by (simp add: stack_def MAX_WALK_def)
  have tp: "judged_top (sample_scene []) sample_hidden = Some ''sdb1''" by code_simp
  have "node_of_mount (sc_devices (sample_scene [])) sample_root = Some ''sda1''" by code_simp
  then have "decoy_device (sample_scene []) sample_hidden ''sda1''"
    using sample_root_mounted by (auto simp: decoy_device_def)
  with separate_from_decoy [OF j r s] tp
  show "on (sc_devices (sample_scene [])) ''sdb1'' \<inter> on (sc_devices (sample_scene [])) ''sda1'' = {}" by auto
qed

definition wide_below :: "bytes list" where
  "wide_below = map show_nat [0..<31] @ [''sda1'']"

text \<open>The bound of the walk lets a shared device through.  A hidden root on a device that stands on 31
  other devices and then on the device of \<^verbatim>\<open>/\<close> is judged separate: the walk stops at 32 devices and reads
  as if there were no more.\<close>

theorem wide_stack_judged_separate:
  "j_verdict (judge (sample_scene wide_below) sample_hidden) = Separate
   \<and> judged_top (sample_scene wide_below) sample_hidden = Some ''sdb1''
   \<and> (''sdb1'', ''sda1'') \<in> below_rel (sc_devices (sample_scene wide_below))
   \<and> decoy_device (sample_scene wide_below) sample_hidden ''sda1''"
proof (intro conjI)
  show "j_verdict (judge (sample_scene wide_below) sample_hidden) = Separate" by code_simp
  show "judged_top (sample_scene wide_below) sample_hidden = Some ''sdb1''" by code_simp
  show "(''sdb1'', ''sda1'') \<in> below_rel (sc_devices (sample_scene wide_below))"
    by (simp add: below_rel_def below_of_def sample_scene_def wide_below_def)
  have "node_of_mount (sc_devices (sample_scene wide_below)) sample_root = Some ''sda1''" by code_simp
  then show "decoy_device (sample_scene wide_below) sample_hidden ''sda1''"
    using sample_root_mounted by (auto simp: decoy_device_def)
qed

end
