(* ===== verification/World.thy ===== *)
theory World
  imports Rust_Path "HOL-Library.AList" "HOL-Library.Word"
begin

text \<open>
  The host as the transition-side code meets it: the files below \<^verbatim>\<open>/run\<close> (and the few elsewhere it
  touches) and the log of the operations tried.  A file tree is an association list from the
  components of an absolute path to what is there, so two spellings of one path are one key; links
  are nodes of their own and are not followed in a parent, as nothing the sources name below
  \<^verbatim>\<open>/run\<close> lies behind one.  Every operation may fail for a reason of the host's: \<open>w_fault\<close> says so
  for the operation at the head of the log, and theorems quantify over it; \<open>w_dev\<close> is the device
  number of what is at a key, which a walk compares to stay on one file system, \<open>w_torn\<close> which
  keys a removal of a whole tree that fails halfway has left, and \<open>w_short\<close> how many bytes a write in
  place had written when it failed, if it had begun.  What the host answers apart from files is a
  function of the log too: \<open>w_points\<close> the mount points of the live mount table, \<open>w_mode\<close> the file mode
  of what an open inside another root finds, \<open>w_reply\<close> the output of a tool.  An operation that does
  not fail behaves as \<^verbatim>\<open>std::fs\<close> documents, with its own error cases.

  The locale \<open>host_op\<close> is the interface the components rely on: what an operation does to the tree
  is confined to the paths it names.
\<close>

section \<open>Definitions\<close>

datatype io_error =
  NotFound | AlreadyExists | NotADirectory | IsADirectory | DirectoryNotEmpty
| PermissionDenied | FilesystemLoop | Unsupported
| InvalidInput bytes | InvalidData bytes | TimedOut | OtherError bytes

datatype node = File bytes | Link path | Dir | Socket

type_synonym key = "component list"
type_synonym tree = "(key \<times> node) list"

datatype op =
  OpRead path | OpReadLink path | OpLstat path | OpReadDir path
| OpWrite path bytes | OpSymlink path path | OpRemoveFile path | OpRemoveDir path
| OpRemoveDirAll path | OpCreateDir path | OpCreateDirAll path | OpRename path path
| OpWriteAt path nat bytes | OpSetLen path nat | OpAppend path bytes | OpRewrite path bytes | OpCreateNew path bytes
| OpDetach path | OpSetNoexec path bool | OpSetReadOnly path bool | OpTool "bytes list"
| OpMount path bytes "bytes option" path | OpBind path path | OpRemountWritable path | OpPrivate path
| OpOptions path bytes | OpMountId path | OpOpen path | OpOpenBelow path path
| OpOpenInRoot path path | OpStat path
| OpSignal nat nat | OpSync | OpKernelPowerOff
| OpRemountReadOnly path | OpUnmount path | OpMkdirAt path path | OpChmod path "32 word" | OpChown path path
| OpHost "bytes list"

record world =
  w_fs :: tree
  w_log :: "op list"
  w_fault :: "op list \<Rightarrow> io_error option"
  w_dev :: "key \<Rightarrow> nat"
  w_torn :: "op list \<Rightarrow> key \<Rightarrow> bool"
  w_short :: "op list \<Rightarrow> nat option"
  w_points :: "op list \<Rightarrow> path list"
  w_mode :: "op list \<Rightarrow> 32 word"
  w_reply :: "op list \<Rightarrow> bytes"

abbreviation key_of :: "path \<Rightarrow> key" where
  "key_of p \<equiv> components p"

text \<open>A key written out as a path.\<close>

definition component_text :: "component \<Rightarrow> bytes" where
  "component_text c = (case c of RootDir \<Rightarrow> ''/'' | CurDir \<Rightarrow> ''.'' | ParentDir \<Rightarrow> ''..'' | Normal n \<Rightarrow> n)"

definition path_of :: "component list \<Rightarrow> path" where
  "path_of cs = foldl join [] (map component_text cs)"

definition node_at :: "world \<Rightarrow> path \<Rightarrow> node option" where
  "node_at w p = map_of (w_fs w) (key_of p)"

text \<open>Trying an operation: it is logged, and the host may refuse it.\<close>

definition attempt :: "op \<Rightarrow> world \<Rightarrow> io_error option \<times> world" where
  "attempt act w = (w_fault w (act # w_log w), w\<lparr>w_log := act # w_log w\<rparr>)"

definition put :: "path \<Rightarrow> node \<Rightarrow> world \<Rightarrow> world" where
  "put p n w = w\<lparr>w_fs := AList.update (key_of p) n (w_fs w)\<rparr>"

definition drop_key :: "path \<Rightarrow> world \<Rightarrow> world" where
  "drop_key p w = w\<lparr>w_fs := AList.delete (key_of p) (w_fs w)\<rparr>"

text \<open>What is strictly below a key.\<close>

definition below_key :: "key \<Rightarrow> key \<Rightarrow> bool" where
  "below_key k k' \<longleftrightarrow> strict_prefix k k'"

definition drop_tree :: "path \<Rightarrow> world \<Rightarrow> world" where
  "drop_tree p w = w\<lparr>w_fs := filter (\<lambda>(k, _). \<not> prefix (key_of p) k) (w_fs w)\<rparr>"

definition parent_is_dir :: "world \<Rightarrow> path \<Rightarrow> bool" where
  "parent_is_dir w p \<longleftrightarrow> length (key_of p) \<le> 1 \<or> map_of (w_fs w) (butlast (key_of p)) = Some Dir"

subsection \<open>Reading\<close>

definition read_file :: "path \<Rightarrow> world \<Rightarrow> (io_error + bytes) \<times> world" where
  "read_file p w =
     (case attempt (OpRead p) w of
        (Some e, w1) \<Rightarrow> (Inl e, w1)
      | (None, w1) \<Rightarrow>
          ((case node_at w1 p of
              Some (File b) \<Rightarrow> Inr b
            | Some Dir \<Rightarrow> Inl IsADirectory
            | Some _ \<Rightarrow> Inl (OtherError [])
            | None \<Rightarrow> Inl NotFound), w1))"

definition read_link :: "path \<Rightarrow> world \<Rightarrow> (io_error + path) \<times> world" where
  "read_link p w =
     (case attempt (OpReadLink p) w of
        (Some e, w1) \<Rightarrow> (Inl e, w1)
      | (None, w1) \<Rightarrow>
          ((case node_at w1 p of
              Some (Link t) \<Rightarrow> Inr t
            | Some _ \<Rightarrow> Inl (InvalidInput [])
            | None \<Rightarrow> Inl NotFound), w1))"

definition lstat :: "path \<Rightarrow> world \<Rightarrow> (io_error + node) \<times> world" where
  "lstat p w =
     (case attempt (OpLstat p) w of
        (Some e, w1) \<Rightarrow> (Inl e, w1)
      | (None, w1) \<Rightarrow> ((case node_at w1 p of Some n \<Rightarrow> Inr n | None \<Rightarrow> Inl NotFound), w1))"

text \<open>The names of a directory's entries, in the order of the tree.\<close>

definition children_of :: "tree \<Rightarrow> key \<Rightarrow> bytes list" where
  "children_of fs k =
     filter_map (\<lambda>(k', _). if length k' = Suc (length k) \<and> prefix k k'
                           then (case last k' of Normal n \<Rightarrow> Some n | _ \<Rightarrow> None) else None) fs"

definition read_dir :: "path \<Rightarrow> world \<Rightarrow> (io_error + bytes list) \<times> world" where
  "read_dir p w =
     (case attempt (OpReadDir p) w of
        (Some e, w1) \<Rightarrow> (Inl e, w1)
      | (None, w1) \<Rightarrow>
          ((case node_at w1 p of
              Some Dir \<Rightarrow> Inr (children_of (w_fs w1) (key_of p))
            | Some _ \<Rightarrow> Inl NotADirectory
            | None \<Rightarrow> Inl NotFound), w1))"

subsection \<open>Writing\<close>

text \<open>A file written through a temporary one renamed over the name, as \<^verbatim>\<open>write_private_atomic\<close>,
  \<^verbatim>\<open>write_atomic_with_mode\<close> and \<^verbatim>\<open>replace\<close> do: a failure leaves the old node.\<close>

definition write_atomic :: "path \<Rightarrow> bytes \<Rightarrow> world \<Rightarrow> (io_error option) \<times> world" where
  "write_atomic p b w =
     (case attempt (OpWrite p b) w of
        (Some e, w1) \<Rightarrow> (Some e, w1)
      | (None, w1) \<Rightarrow>
          if \<not> parent_is_dir w1 p then (Some NotFound, w1)
          else if node_at w1 p = Some Dir then (Some IsADirectory, w1)
          else (None, put p (File b) w1))"

definition symlink :: "path \<Rightarrow> path \<Rightarrow> world \<Rightarrow> (io_error option) \<times> world" where
  "symlink target p w =
     (case attempt (OpSymlink target p) w of
        (Some e, w1) \<Rightarrow> (Some e, w1)
      | (None, w1) \<Rightarrow>
          if \<not> parent_is_dir w1 p then (Some NotFound, w1)
          else if node_at w1 p \<noteq> None then (Some AlreadyExists, w1)
          else (None, put p (Link target) w1))"

definition remove_file :: "path \<Rightarrow> world \<Rightarrow> (io_error option) \<times> world" where
  "remove_file p w =
     (case attempt (OpRemoveFile p) w of
        (Some e, w1) \<Rightarrow> (Some e, w1)
      | (None, w1) \<Rightarrow>
          (case node_at w1 p of
             None \<Rightarrow> (Some NotFound, w1)
           | Some Dir \<Rightarrow> (Some IsADirectory, w1)
           | Some _ \<Rightarrow> (None, drop_key p w1)))"

definition has_below :: "world \<Rightarrow> path \<Rightarrow> bool" where
  "has_below w p \<longleftrightarrow> (\<exists>(k, _)\<in>set (w_fs w). below_key (key_of p) k)"

definition remove_dir :: "path \<Rightarrow> world \<Rightarrow> (io_error option) \<times> world" where
  "remove_dir p w =
     (case attempt (OpRemoveDir p) w of
        (Some e, w1) \<Rightarrow> (Some e, w1)
      | (None, w1) \<Rightarrow>
          (case node_at w1 p of
             None \<Rightarrow> (Some NotFound, w1)
           | Some Dir \<Rightarrow> if has_below w1 p then (Some DirectoryNotEmpty, w1) else (None, drop_key p w1)
           | Some _ \<Rightarrow> (Some NotADirectory, w1)))"

text \<open>A link is removed itself; nothing is below one.\<close>

definition remove_dir_all :: "path \<Rightarrow> world \<Rightarrow> (io_error option) \<times> world" where
  "remove_dir_all p w =
     (case attempt (OpRemoveDirAll p) w of
        (Some e, w1) \<Rightarrow>
          (Some e, w1\<lparr>w_fs := filter (\<lambda>(k, _). \<not> prefix (key_of p) k \<or> w_torn w1 (w_log w1) k) (w_fs w1)\<rparr>)
      | (None, w1) \<Rightarrow>
          (case node_at w1 p of
             None \<Rightarrow> (Some NotFound, w1)
           | Some Dir \<Rightarrow> (None, drop_tree p w1)
           | Some (Link _) \<Rightarrow> (None, drop_tree p w1)
           | Some _ \<Rightarrow> (Some NotADirectory, w1)))"

definition create_dir :: "path \<Rightarrow> world \<Rightarrow> (io_error option) \<times> world" where
  "create_dir p w =
     (case attempt (OpCreateDir p) w of
        (Some e, w1) \<Rightarrow> (Some e, w1)
      | (None, w1) \<Rightarrow>
          if \<not> parent_is_dir w1 p then (Some NotFound, w1)
          else if node_at w1 p \<noteq> None then (Some AlreadyExists, w1)
          else (None, put p Dir w1))"

text \<open>\<^verbatim>\<open>create_dir_all\<close>: the missing directories from the top, unless something else is in the
  way.\<close>

definition ancestor_keys :: "key \<Rightarrow> key list" where
  "ancestor_keys k = map (\<lambda>n. take n k) [2..<Suc (length k)]"

definition add_dir :: "tree \<Rightarrow> key \<Rightarrow> tree" where
  "add_dir fs k = (if map_of fs k = None then AList.update k Dir fs else fs)"

definition create_dir_all :: "path \<Rightarrow> world \<Rightarrow> (io_error option) \<times> world" where
  "create_dir_all p w =
     (case attempt (OpCreateDirAll p) w of
        (Some e, w1) \<Rightarrow> (Some e, w1)
      | (None, w1) \<Rightarrow>
          if \<exists>k\<in>set (ancestor_keys (key_of p)). map_of (w_fs w1) k \<notin> {None, Some Dir}
          then (Some NotADirectory, w1)
          else (None, w1\<lparr>w_fs := foldl add_dir (w_fs w1) (ancestor_keys (key_of p))\<rparr>))"

definition rename :: "path \<Rightarrow> path \<Rightarrow> world \<Rightarrow> (io_error option) \<times> world" where
  "rename p q w =
     (case attempt (OpRename p q) w of
        (Some e, w1) \<Rightarrow> (Some e, w1)
      | (None, w1) \<Rightarrow>
          (case node_at w1 p of
             None \<Rightarrow> (Some NotFound, w1)
           | Some n \<Rightarrow>
               if node_at w1 q = Some Dir then (Some IsADirectory, w1)
               else (None, put q n (drop_key p w1))))"

text \<open>A write in place: \<^verbatim>\<open>std::fs::write\<close> and an open with \<^verbatim>\<open>truncate\<close> (with or without \<^verbatim>\<open>create\<close>),
  an open with \<^verbatim>\<open>create_new\<close>, an open with \<^verbatim>\<open>append\<close>, and a write at an offset.  One that fails after
  it began leaves what it had written.\<close>

definition begun :: "path \<Rightarrow> (nat \<Rightarrow> bytes) \<Rightarrow> world \<Rightarrow> world" where
  "begun p content w = (case w_short w (w_log w) of None \<Rightarrow> w | Some n \<Rightarrow> put p (File (content n)) w)"

definition rewrite_file :: "bool \<Rightarrow> path \<Rightarrow> bytes \<Rightarrow> world \<Rightarrow> (io_error option) \<times> world" where
  "rewrite_file create p b w =
     (case attempt (OpRewrite p b) w of
        (r, w1) \<Rightarrow>
          (case node_at w1 p of
             None \<Rightarrow>
               if \<not> create \<or> \<not> parent_is_dir w1 p then (Some NotFound, w1)
               else (case r of None \<Rightarrow> (None, put p (File b) w1) | Some e \<Rightarrow> (Some e, begun p (\<lambda>n. take n b) w1))
           | Some (File _) \<Rightarrow>
               (case r of None \<Rightarrow> (None, put p (File b) w1) | Some e \<Rightarrow> (Some e, begun p (\<lambda>n. take n b) w1))
           | Some Dir \<Rightarrow> (Some IsADirectory, w1)
           | Some _ \<Rightarrow> (Some (OtherError []), w1)))"

definition create_new :: "path \<Rightarrow> bytes \<Rightarrow> world \<Rightarrow> (io_error option) \<times> world" where
  "create_new p b w =
     (case attempt (OpCreateNew p b) w of
        (r, w1) \<Rightarrow>
          if \<not> parent_is_dir w1 p then (Some NotFound, w1)
          else if node_at w1 p \<noteq> None then (Some AlreadyExists, w1)
          else (case r of None \<Rightarrow> (None, put p (File b) w1) | Some e \<Rightarrow> (Some e, begun p (\<lambda>n. take n b) w1)))"

definition append_file :: "path \<Rightarrow> bytes \<Rightarrow> world \<Rightarrow> (io_error option) \<times> world" where
  "append_file p b w =
     (case attempt (OpAppend p b) w of
        (r, w1) \<Rightarrow>
          (case node_at w1 p of
             None \<Rightarrow>
               if \<not> parent_is_dir w1 p then (Some NotFound, w1)
               else (case r of None \<Rightarrow> (None, put p (File b) w1) | Some e \<Rightarrow> (Some e, begun p (\<lambda>n. take n b) w1))
           | Some (File c) \<Rightarrow>
               (case r of None \<Rightarrow> (None, put p (File (c @ b)) w1) | Some e \<Rightarrow> (Some e, begun p (\<lambda>n. c @ take n b) w1))
           | Some Dir \<Rightarrow> (Some IsADirectory, w1)
           | Some _ \<Rightarrow> (Some (OtherError []), w1)))"

text \<open>Bytes put at an offset, with zero bytes up to it when the file is shorter.\<close>

definition put_at :: "bytes \<Rightarrow> nat \<Rightarrow> bytes \<Rightarrow> bytes" where
  "put_at c off b =
     (if b = [] then c
      else take off c @ replicate (off - length c) (CHR 0x00) @ b @ drop (off + length b) c)"

definition write_at :: "path \<Rightarrow> nat \<Rightarrow> bytes \<Rightarrow> world \<Rightarrow> (io_error option) \<times> world" where
  "write_at p off b w =
     (case attempt (OpWriteAt p off b) w of
        (r, w1) \<Rightarrow>
          (case node_at w1 p of
             None \<Rightarrow> (Some NotFound, w1)
           | Some (File c) \<Rightarrow>
               (case r of None \<Rightarrow> (None, put p (File (put_at c off b)) w1)
                | Some e \<Rightarrow> (Some e, begun p (\<lambda>n. put_at c off (take n b)) w1))
           | Some Dir \<Rightarrow> (Some IsADirectory, w1)
           | Some _ \<Rightarrow> (Some (OtherError []), w1)))"

text \<open>An open with \<^verbatim>\<open>create\<close> and without \<^verbatim>\<open>truncate\<close>, with one write, and \<^verbatim>\<open>set_len\<close>.\<close>

definition write_over :: "path \<Rightarrow> bytes \<Rightarrow> world \<Rightarrow> (io_error option) \<times> world" where
  "write_over p b w =
     (case attempt (OpWriteAt p 0 b) w of
        (r, w1) \<Rightarrow>
          (case node_at w1 p of
             None \<Rightarrow>
               if \<not> parent_is_dir w1 p then (Some NotFound, w1)
               else (case r of None \<Rightarrow> (None, put p (File b) w1) | Some e \<Rightarrow> (Some e, begun p (\<lambda>n. take n b) w1))
           | Some (File c) \<Rightarrow>
               (case r of None \<Rightarrow> (None, put p (File (put_at c 0 b)) w1)
                | Some e \<Rightarrow> (Some e, begun p (\<lambda>n. put_at c 0 (take n b)) w1))
           | Some Dir \<Rightarrow> (Some IsADirectory, w1)
           | Some _ \<Rightarrow> (Some (OtherError []), w1)))"

definition set_len :: "path \<Rightarrow> nat \<Rightarrow> world \<Rightarrow> (io_error option) \<times> world" where
  "set_len p n w =
     (case attempt (OpSetLen p n) w of
        (Some e, w1) \<Rightarrow> (Some e, w1)
      | (None, w1) \<Rightarrow>
          (case node_at w1 p of
             Some (File c) \<Rightarrow> (None, put p (File (take n c @ replicate (n - length c) (CHR 0x00))) w1)
           | _ \<Rightarrow> (Some NotFound, w1)))"

text \<open>An operation outside the file tree: it succeeds or the host refuses it.\<close>

definition act_only :: "op \<Rightarrow> world \<Rightarrow> (io_error option) \<times> world" where
  "act_only act w = attempt act w"

text \<open>The text of an error, as \<^verbatim>\<open>io::Error\<close> shows it on Linux.\<close>

definition show_io_error :: "io_error \<Rightarrow> bytes" where
  "show_io_error e =
     (case e of
        NotFound \<Rightarrow> ''No such file or directory (os error 2)''
      | AlreadyExists \<Rightarrow> ''File exists (os error 17)''
      | NotADirectory \<Rightarrow> ''Not a directory (os error 20)''
      | IsADirectory \<Rightarrow> ''Is a directory (os error 21)''
      | DirectoryNotEmpty \<Rightarrow> ''Directory not empty (os error 39)''
      | PermissionDenied \<Rightarrow> ''Permission denied (os error 13)''
      | FilesystemLoop \<Rightarrow> ''Too many levels of symbolic links (os error 40)''
      | Unsupported \<Rightarrow> ''Function not implemented (os error 38)''
      | TimedOut \<Rightarrow> ''Connection timed out (os error 110)''
      | InvalidInput m \<Rightarrow> m | InvalidData m \<Rightarrow> m | OtherError m \<Rightarrow> m)"

section \<open>Lemmas\<close>

text \<open>The tree after an operation is the tree before it except at the keys it touches, and the log
  grows.\<close>

definition touches :: "key set \<Rightarrow> world \<Rightarrow> world \<Rightarrow> bool" where
  "touches K w w' \<longleftrightarrow> (\<forall>k. k \<notin> K \<longrightarrow> map_of (w_fs w') k = map_of (w_fs w) k)
     \<and> w_fault w' = w_fault w \<and> w_dev w' = w_dev w \<and> w_torn w' = w_torn w
     \<and> w_short w' = w_short w \<and> w_points w' = w_points w \<and> w_mode w' = w_mode w \<and> w_reply w' = w_reply w \<and> (\<exists>l. w_log w' = l @ w_log w)"

lemma node_at_log [simp]: "node_at (w\<lparr>w_log := l\<rparr>) q = node_at w q"
  by (simp add: node_at_def)

lemma touches_refl [simp]: "touches K w w"
  by (simp add: touches_def)

lemma touches_trans [trans]: "touches K w w1 \<Longrightarrow> touches K w1 w2 \<Longrightarrow> touches K w w2"
  by (auto simp: touches_def)

lemma touches_mono: "touches K w w' \<Longrightarrow> K \<subseteq> K' \<Longrightarrow> touches K' w w'"
  by (auto simp: touches_def)

lemma touches_node: "touches K w w' \<Longrightarrow> key_of p \<notin> K \<Longrightarrow> node_at w' p = node_at w p"
  by (simp add: touches_def node_at_def)

lemma attempt_touches: "attempt act w = (r, w') \<Longrightarrow> touches K w w' \<and> w_fs w' = w_fs w"
  by (auto simp: attempt_def touches_def)

lemma put_touches: "touches K w w1 \<Longrightarrow> key_of p \<in> K \<Longrightarrow> touches K w (put p n w1)"
  by (auto simp: touches_def put_def update_conv')

lemma drop_key_touches: "touches K w w1 \<Longrightarrow> key_of p \<in> K \<Longrightarrow> touches K w (drop_key p w1)"
  by (auto simp: touches_def drop_key_def delete_conv')

lemma node_at_put [simp]: "node_at (put p n w) q = (if path_eq p q then Some n else node_at w q)"
  by (auto simp: node_at_def put_def update_conv' path_eq_def)

lemma node_at_drop_key [simp]: "node_at (drop_key p w) q = (if path_eq p q then None else node_at w q)"
  by (auto simp: node_at_def drop_key_def delete_conv' path_eq_def)

lemma map_of_filter_fst: "map_of (filter (\<lambda>(k, _). P k) fs) k = (if P k then map_of fs k else None)"
  by (induction fs) auto

lemma node_at_drop_tree [simp]:
  "node_at (drop_tree p w) q = (if path_starts_with q p then None else node_at w q)"
  by (simp add: node_at_def drop_tree_def map_of_filter_fst path_starts_with_def)

lemma drop_tree_touches:
  "touches K w w1 \<Longrightarrow> {k. prefix (key_of p) k} \<subseteq> K \<Longrightarrow> touches K w (drop_tree p w1)"
  by (auto simp: touches_def drop_tree_def map_of_filter_fst)

lemma read_file_touches: "read_file p w = (r, w') \<Longrightarrow> touches K w w' \<and> w_fs w' = w_fs w"
  by (auto simp: read_file_def split: prod.splits option.splits dest: attempt_touches)

lemma read_link_touches: "read_link p w = (r, w') \<Longrightarrow> touches K w w' \<and> w_fs w' = w_fs w"
  by (auto simp: read_link_def split: prod.splits option.splits dest: attempt_touches)

lemma lstat_touches: "lstat p w = (r, w') \<Longrightarrow> touches K w w' \<and> w_fs w' = w_fs w"
  by (auto simp: lstat_def split: prod.splits option.splits dest: attempt_touches)

lemma read_dir_touches: "read_dir p w = (r, w') \<Longrightarrow> touches K w w' \<and> w_fs w' = w_fs w"
  by (auto simp: read_dir_def split: prod.splits option.splits dest: attempt_touches)

lemma act_only_touches: "act_only act w = (r, w') \<Longrightarrow> touches K w w' \<and> w_fs w' = w_fs w"
  by (simp add: act_only_def attempt_touches)

lemma write_atomic_touches: "write_atomic p b w = (r, w') \<Longrightarrow> touches {key_of p} w w'"
  by (auto simp: write_atomic_def split: prod.splits option.splits if_splits
      dest!: attempt_touches [where K = "{key_of p}"] intro!: put_touches)

lemma symlink_touches: "symlink t p w = (r, w') \<Longrightarrow> touches {key_of p} w w'"
  by (auto simp: symlink_def split: prod.splits option.splits if_splits
      dest!: attempt_touches [where K = "{key_of p}"] intro!: put_touches)

lemma remove_file_touches: "remove_file p w = (r, w') \<Longrightarrow> touches {key_of p} w w'"
  by (auto simp: remove_file_def split: prod.splits option.splits node.splits
      dest!: attempt_touches [where K = "{key_of p}"] intro!: drop_key_touches)

lemma remove_dir_touches: "remove_dir p w = (r, w') \<Longrightarrow> touches {key_of p} w w'"
  by (auto simp: remove_dir_def split: prod.splits option.splits node.splits if_splits
      dest!: attempt_touches [where K = "{key_of p}"] intro!: drop_key_touches)

lemma torn_touches:
  "touches K w w1 \<Longrightarrow> {k. prefix (key_of p) k} \<subseteq> K \<Longrightarrow>
     w_fs w1 = fs \<Longrightarrow> touches K w (w1\<lparr>w_fs := filter (\<lambda>(k, _). prefix (key_of p) k \<longrightarrow> P k) fs\<rparr>)"
  by (auto simp: touches_def map_of_filter_fst)

lemma remove_dir_all_touches: "remove_dir_all p w = (r, w') \<Longrightarrow> touches {k. prefix (key_of p) k} w w'"
  by (auto simp: remove_dir_all_def split: prod.splits option.splits node.splits
      dest!: attempt_touches [where K = "{k. prefix (key_of p) k}"] intro!: drop_tree_touches torn_touches)

lemma create_dir_touches: "create_dir p w = (r, w') \<Longrightarrow> touches {key_of p} w w'"
  by (auto simp: create_dir_def split: prod.splits option.splits if_splits
      dest!: attempt_touches [where K = "{key_of p}"] intro!: put_touches)

lemma foldl_add_dir:
  "map_of (foldl add_dir fs ks) k = (if map_of fs k = None \<and> k \<in> set ks then Some Dir else map_of fs k)"
  by (induction ks arbitrary: fs) (auto simp: add_dir_def update_conv')

lemma ancestor_keys_prefix: "k \<in> set (ancestor_keys k') \<Longrightarrow> prefix k k'"
  by (auto simp: ancestor_keys_def take_is_prefix)

lemma create_dir_all_touches: "create_dir_all p w = (r, w') \<Longrightarrow> touches {k. prefix k (key_of p)} w w'"
  by (auto simp: create_dir_all_def touches_def foldl_add_dir split: prod.splits option.splits if_splits
      dest!: attempt_touches [where K = "{}"] dest: ancestor_keys_prefix)

lemma rename_touches: "rename p q w = (r, w') \<Longrightarrow> touches {key_of p, key_of q} w w'"
  by (auto simp: rename_def split: prod.splits option.splits if_splits
      dest!: attempt_touches [where K = "{key_of p, key_of q}"] intro!: put_touches drop_key_touches)

lemma begun_touches: "touches K w w1 \<Longrightarrow> key_of p \<in> K \<Longrightarrow> touches K w (begun p c w1)"
  by (auto simp: begun_def put_touches split: option.splits)

lemma rewrite_file_touches: "rewrite_file c p b w = (r, w') \<Longrightarrow> touches {key_of p} w w'"
  by (auto simp: rewrite_file_def split: prod.splits option.splits if_splits node.splits
      dest!: attempt_touches [where K = "{key_of p}"] intro!: put_touches begun_touches)

lemma create_new_touches: "create_new p b w = (r, w') \<Longrightarrow> touches {key_of p} w w'"
  by (auto simp: create_new_def split: prod.splits option.splits if_splits
      dest!: attempt_touches [where K = "{key_of p}"] intro!: put_touches begun_touches)

lemma append_file_touches: "append_file p b w = (r, w') \<Longrightarrow> touches {key_of p} w w'"
  by (auto simp: append_file_def split: prod.splits option.splits if_splits node.splits
      dest!: attempt_touches [where K = "{key_of p}"] intro!: put_touches begun_touches)

lemma write_at_touches: "write_at p n b w = (r, w') \<Longrightarrow> touches {key_of p} w w'"
  by (auto simp: write_at_def split: prod.splits option.splits node.splits
      dest!: attempt_touches [where K = "{key_of p}"] intro!: put_touches begun_touches)

lemma write_over_touches: "write_over p b w = (r, w') \<Longrightarrow> touches {key_of p} w w'"
  by (auto simp: write_over_def split: prod.splits option.splits if_splits node.splits
      dest!: attempt_touches [where K = "{key_of p}"] intro!: put_touches begun_touches)

lemma set_len_touches: "set_len p n w = (r, w') \<Longrightarrow> touches {key_of p} w w'"
  by (auto simp: set_len_def split: prod.splits option.splits node.splits
      dest!: attempt_touches [where K = "{key_of p}"] intro!: put_touches)

text \<open>What a success means.\<close>

lemma rewrite_file_done: "rewrite_file c p b w = (None, w') \<Longrightarrow> node_at w' p = Some (File b)"
  by (auto simp: rewrite_file_def split: prod.splits option.splits if_splits node.splits)

lemma create_new_done: "create_new p b w = (None, w') \<Longrightarrow> node_at w' p = Some (File b)"
  by (auto simp: create_new_def split: prod.splits option.splits if_splits)

lemma write_atomic_done: "write_atomic p b w = (None, w') \<Longrightarrow> node_at w' p = Some (File b)"
  by (auto simp: write_atomic_def split: prod.splits option.splits if_splits)

lemma symlink_done: "symlink t p w = (None, w') \<Longrightarrow> node_at w' p = Some (Link t)"
  by (auto simp: symlink_def split: prod.splits option.splits if_splits)

lemma remove_file_done: "remove_file p w = (None, w') \<Longrightarrow> node_at w' p = None"
  by (auto simp: remove_file_def split: prod.splits option.splits node.splits)

lemma remove_dir_all_done: "remove_dir_all p w = (None, w') \<Longrightarrow> path_starts_with q p \<Longrightarrow> node_at w' q = None"
  by (auto simp: remove_dir_all_def split: prod.splits option.splits node.splits)

lemma remove_dir_done: "remove_dir p w = (None, w') \<Longrightarrow> node_at w' p = None"
  by (auto simp: remove_dir_def split: prod.splits option.splits node.splits if_splits)

lemma rename_done: "rename p q w = (None, w') \<Longrightarrow> node_at w' q = node_at w p \<and> node_at w p \<noteq> None"
  by (auto simp: rename_def node_at_def put_def update_conv' split: prod.splits option.splits if_splits dest!: attempt_touches [where K = "{}"])

text \<open>A host that refuses nothing of its own.\<close>

definition calm :: "world \<Rightarrow> bool" where
  "calm w \<longleftrightarrow> (\<forall>l. w_fault w l = None)"

lemma calm_touches: "calm w \<Longrightarrow> touches K w w' \<Longrightarrow> calm w'"
  by (simp add: calm_def touches_def)

lemma calm_attempt: "calm w \<Longrightarrow> attempt act w = (None, w\<lparr>w_log := act # w_log w\<rparr>)"
  by (simp add: calm_def attempt_def)

section \<open>The interface of a host operation\<close>

text \<open>An operation with argument \<open>a\<close> is confined to the keys \<open>foot a\<close>.  Doing it for each element
  of a list, whatever the results are used for, is confined to their union.\<close>

locale host_op =
  fixes oper :: "'a \<Rightarrow> world \<Rightarrow> 'r \<times> world"
    and foot :: "'a \<Rightarrow> key set"
  assumes confined: "oper a w = (r, w') \<Longrightarrow> touches (foot a) w w'"
begin

definition each :: "'a list \<Rightarrow> world \<Rightarrow> world" where
  "each as w = foldl (\<lambda>w a. snd (oper a w)) w as"

lemma each_confined: "touches (\<Union>a\<in>set as. foot a) w (each as w)"
proof (induction as arbitrary: w)
  case Nil
  then show ?case by (simp add: each_def)
next
  case (Cons a as)
  obtain r w1 where w1: "oper a w = (r, w1)" by fastforce
  have "touches (foot a \<union> (\<Union>a\<in>set as. foot a)) w w1"
    by (rule touches_mono [OF confined [OF w1]]) simp
  moreover have "touches (foot a \<union> (\<Union>a\<in>set as. foot a)) w1 (each as w1)"
    by (rule touches_mono [OF Cons]) simp
  moreover have "each (a # as) w = each as w1" by (simp add: each_def w1)
  ultimately show ?case using touches_trans by simp
qed

lemma each_frame: "(\<And>a. a \<in> set as \<Longrightarrow> key_of p \<notin> foot a) \<Longrightarrow> node_at (each as w) p = node_at w p"
  using touches_node [OF each_confined] by blast

end

interpretation write_op: host_op "\<lambda>(p, b). write_atomic p b" "\<lambda>(p, b). {key_of p}"
  by unfold_locales (auto dest: write_atomic_touches)

interpretation symlink_op: host_op "\<lambda>(t, p). symlink t p" "\<lambda>(t, p). {key_of p}"
  by unfold_locales (auto dest: symlink_touches)

interpretation remove_file_op: host_op remove_file "\<lambda>p. {key_of p}"
  by unfold_locales (rule remove_file_touches)

interpretation remove_dir_op: host_op remove_dir "\<lambda>p. {key_of p}"
  by unfold_locales (rule remove_dir_touches)

interpretation remove_dir_all_op: host_op remove_dir_all "\<lambda>p. {k. prefix (key_of p) k}"
  by unfold_locales (rule remove_dir_all_touches)

interpretation create_dir_all_op: host_op create_dir_all "\<lambda>p. {k. prefix k (key_of p)}"
  by unfold_locales (rule create_dir_all_touches)

interpretation rewrite_op: host_op "\<lambda>(c, p, b). rewrite_file c p b" "\<lambda>(c, p, b). {key_of p}"
  by unfold_locales (auto dest: rewrite_file_touches)

interpretation append_op: host_op "\<lambda>(p, b). append_file p b" "\<lambda>(p, b). {key_of p}"
  by unfold_locales (auto dest: append_file_touches)

interpretation act_op: host_op act_only "\<lambda>_. {}"
  by unfold_locales (simp add: act_only_touches)

end
