(* ===== verification/Utab.thy ===== *)
theory Utab
  imports Mountinfo World
begin

text \<open>
  libmount's userspace mount table across a switch, \<^verbatim>\<open>nails-teardown/src/whole_root/utab.rs\<close>: the
  line parser with its positions in the line, the lines that survive a switch, the lines the way
  back restores, and the update of the file.  The lemmas show that the parser's loop ends, that
  only lines of mounts the switch carries are kept, byte for byte, that keeping them twice keeps
  them once, and that a restored line names a mount made again at its place.
\<close>

section \<open>Definitions\<close>

record utab_line =
  ln_id :: int
  id_start :: nat
  id_end :: nat
  ln_source :: "path option"
  ln_target :: "path option"
  ln_root :: "path option"
  ln_options :: "bytes option"
  ln_attributes :: bool

definition default_utab_line :: utab_line where
  "default_utab_line = \<lparr>ln_id = 0, id_start = 0, id_end = 0, ln_source = None, ln_target = None,
                        ln_root = None, ln_options = None, ln_attributes = False\<rparr>"

definition STRING_KEYS :: "bytes list" where
  "STRING_KEYS = [''SRC='', ''TARGET='', ''ROOT='', ''BINDSRC='', ''OPTS='', ''ATTRS='']"

text \<open>\<^verbatim>\<open>number\<close>: whether it is negative, its magnitude and where it ends.\<close>

definition c_blank :: "char \<Rightarrow> bool" where
  "c_blank c \<longleftrightarrow> c = CHR '' '' \<or> (9 \<le> byte c \<and> byte c \<le> 13)"

definition number :: "bytes \<Rightarrow> nat \<Rightarrow> (bool \<times> nat \<times> nat) option" where
  "number bs start =
     (if length bs \<le> start then Some (False, 0, start)
      else
        (let at1 = start + length (takeWhile c_blank (drop start bs));
             sign = (case drop at1 bs of c # _ \<Rightarrow> c = CHR ''-'' \<or> c = CHR ''+'' | [] \<Rightarrow> False);
             negative = (case drop at1 bs of c # _ \<Rightarrow> c = CHR ''-'' | [] \<Rightarrow> False);
             at2 = (if sign then at1 + 1 else at1);
             digits = takeWhile is_digit (drop at2 bs)
         in case parse_u64 digits of None \<Rightarrow> None
            | Some magnitude \<Rightarrow>
                (let fin = at2 + length digits in
                 case drop fin bs of
                   c # _ \<Rightarrow> if c = CHR '' '' \<or> c = CHR 0x09 then Some (negative, magnitude, fin) else None
                 | [] \<Rightarrow> Some (negative, magnitude, fin))))"

text \<open>The value of \<^verbatim>\<open>ID=\<close> as an \<^verbatim>\<open>i32\<close>.\<close>

definition id_value :: "bool \<Rightarrow> nat \<Rightarrow> int option" where
  "id_value negative magnitude =
     (if int magnitude < 2 ^ 63
      then (let v = (if negative then - int magnitude else int magnitude) in if in_i32 v then Some v else None)
      else None)"

text \<open>One field of a line, at a position that is not a space: the state after it and where the
  next one starts, or \<^term>\<open>None\<close> where libmount gives up on the line.\<close>

record utab_scan =
  sc_line :: utab_line
  sc_uniq :: nat
  sc_set :: "nat list"

definition set_string :: "nat \<Rightarrow> bytes \<Rightarrow> utab_line \<Rightarrow> utab_line" where
  "set_string k raw l =
     (let v = utf8_lossy raw; p = Some (unescape_octal v) in
      if k = 0 then l\<lparr>ln_source := p\<rparr>
      else if k = 1 then l\<lparr>ln_target := p\<rparr>
      else if k = 2 then l\<lparr>ln_root := p\<rparr>
      else if k = 4 then l\<lparr>ln_options := Some v\<rparr>
      else if k = 5 then l\<lparr>ln_attributes := True\<rparr>
      else l)"

definition free_key :: "nat list \<Rightarrow> bytes \<Rightarrow> nat option" where
  "free_key used rest =
     find (\<lambda>k. k \<notin> set used \<and> starts_with (STRING_KEYS ! k) rest) [0..<length STRING_KEYS]"

definition scan_field :: "bytes \<Rightarrow> nat \<Rightarrow> utab_scan \<Rightarrow> (utab_scan \<times> nat) option" where
  "scan_field bs at sc =
     (let rest = drop at bs in
      if sc_uniq sc = 0 \<and> starts_with ''UNIQID='' rest then
        (case number bs (at + 7) of None \<Rightarrow> None
         | Some (_, magnitude, fin) \<Rightarrow> Some (sc\<lparr>sc_uniq := magnitude\<rparr>, fin))
      else if ln_id (sc_line sc) = 0 \<and> starts_with ''ID='' rest then
        (case number bs (at + 3) of None \<Rightarrow> None
         | Some (negative, magnitude, fin) \<Rightarrow>
             (case id_value negative magnitude of None \<Rightarrow> None
              | Some v \<Rightarrow>
                  Some (sc\<lparr>sc_line := (if v \<noteq> 0
                             then (sc_line sc)\<lparr>ln_id := v, id_start := at + 3, id_end := fin\<rparr>
                             else sc_line sc)\<rparr>, fin)))
      else (case free_key (sc_set sc) rest of
          Some k \<Rightarrow>
            (let start = at + length (STRING_KEYS ! k);
                 raw = takeWhile (\<lambda>c. c \<noteq> CHR '' '' \<and> c \<noteq> CHR 0x09) (drop start bs)
             in if raw = [] then None
                else Some (sc\<lparr>sc_line := set_string k raw (sc_line sc), sc_set := k # sc_set sc\<rparr>,
                           start + length raw))
        | None \<Rightarrow> Some (sc, at + length (takeWhile (\<lambda>c. c \<noteq> CHR '' '') rest))))"

definition skip_spaces :: "bytes \<Rightarrow> nat \<Rightarrow> nat" where
  "skip_spaces bs at = at + length (takeWhile (\<lambda>c. c = CHR '' '') (drop at bs))"

lemma number_end_ge: "number bs start = Some (n, m, fin) \<Longrightarrow> start \<le> fin"
  by (auto simp: number_def Let_def split: if_splits option.splits list.splits)

lemma free_key_len: "free_key used rest = Some k \<Longrightarrow> 4 \<le> length (STRING_KEYS ! k)"
proof -
  assume "free_key used rest = Some k"
  then have "k \<in> set [0..<length STRING_KEYS]" unfolding free_key_def using find_SomeD by fast
  then have "k < 6" by (auto simp: STRING_KEYS_def)
  then consider "k = 0" | "k = 1" | "k = 2" | "k = 3" | "k = 4" | "k = 5" by linarith
  then show ?thesis by cases (simp_all add: STRING_KEYS_def)
qed

lemma scan_field_advances:
  assumes "scan_field bs at sc = Some (sc', fin)" "at < length bs" "bs ! at \<noteq> CHR '' ''"
  shows "at < fin"
proof -
  have "takeWhile (\<lambda>c. c \<noteq> CHR '' '') (drop at bs) \<noteq> []"
    using assms(2,3) by (simp add: hd_drop_conv_nth takeWhile_eq_Nil_iff)
  then show ?thesis
    using assms(1) number_end_ge [of bs "at + 7"] number_end_ge [of bs "at + 3"]
      free_key_len [of "sc_set sc" "drop at bs"]
    by (fastforce simp: scan_field_def Let_def split: if_splits option.splits)
qed

lemma skip_spaces_stop: "skip_spaces bs at < length bs \<Longrightarrow> bs ! skip_spaces bs at \<noteq> CHR '' ''"
proof -
  assume a: "skip_spaces bs at < length bs"
  let ?d = "drop at bs"
  have "length (takeWhile (\<lambda>c. c = CHR '' '') ?d) < length ?d" using a by (simp add: skip_spaces_def)
  from nth_length_takeWhile [OF this] a show ?thesis by (simp add: skip_spaces_def)
qed

lemma skip_spaces_ge: "at \<le> skip_spaces bs at"
  by (simp add: skip_spaces_def)

text \<open>The loop of \<^verbatim>\<open>Line::parse\<close>.\<close>

function parse_loop :: "bytes \<Rightarrow> nat \<Rightarrow> utab_scan \<Rightarrow> utab_line option" where
  "parse_loop bs at sc =
     (let at1 = skip_spaces bs at in
      if length bs \<le> at1 then Some (sc_line sc)
      else (case scan_field bs at1 sc of None \<Rightarrow> None
            | Some (sc', fin) \<Rightarrow> parse_loop bs fin sc'))"
  by pat_completeness auto
termination
proof (relation "measure (\<lambda>(bs, at, _). length bs - at)")
  fix bs at sc at1 x sc' fin
  assume a: "at1 = skip_spaces bs at" "\<not> length bs \<le> at1" "scan_field bs at1 sc = Some x" "(sc', fin) = x"
  have "at1 < fin" using a scan_field_advances skip_spaces_stop by (metis not_le)
  moreover have "at \<le> at1" using a skip_spaces_ge by simp
  ultimately show "((bs, fin, sc'), (bs, at, sc)) \<in> measure (\<lambda>(bs, at, _). length bs - at)"
    using a(2) by simp
qed simp

declare parse_loop.simps [simp del]

definition parse_utab_line :: "bytes \<Rightarrow> utab_line option" where
  "parse_utab_line raw =
     (let bs = strip_cr raw in
      case position (\<lambda>c. c \<noteq> CHR '' '' \<and> c \<noteq> CHR 0x09) bs of None \<Rightarrow> None
      | Some first \<Rightarrow>
          if bs ! first = CHR ''#'' then None
          else parse_loop bs first \<lparr>sc_line = default_utab_line, sc_uniq = 0, sc_set = []\<rparr>)"

definition joins :: "utab_line \<Rightarrow> bool" where
  "joins l \<longleftrightarrow> ln_source l \<noteq> None \<and> ln_target l \<noteq> None \<and> ln_root l \<noteq> None
            \<and> (ln_options l \<noteq> None \<or> ln_attributes l)"

definition ln_has_option :: "utab_line \<Rightarrow> bytes \<Rightarrow> bool" where
  "ln_has_option l opt \<longleftrightarrow> is_some_and (ln_options l) (\<lambda>o1. opt \<in> set (split_on (CHR '','') o1))"

definition fits :: "utab_line \<Rightarrow> mount_entry \<Rightarrow> bool" where
  "fits l m \<longleftrightarrow> is_none_or (ln_source l) (\<lambda>s. path_eq s (m_source m))
             \<and> is_none_or (ln_root l) (\<lambda>r. path_eq r (m_root m))"

definition carried :: "utab_line \<Rightarrow> mount_entry list \<Rightarrow> path \<Rightarrow> mount_entry option" where
  "carried l mounts nextroot =
     (if ln_id l > 0 then
        find (\<lambda>m. mount_id m = ln_id l \<and> path_starts_with (mount_point m) nextroot \<and> fits l m) mounts
      else (case ln_target l of None \<Rightarrow> None
        | Some t \<Rightarrow>
            (let at = below_root nextroot t in
             rfind (\<lambda>m. path_eq (mount_point m) at \<and> fits l m) mounts)))"

definition rewrite :: "(bytes \<Rightarrow> bytes option) \<Rightarrow> bytes \<Rightarrow> bytes" where
  "rewrite keep utab =
     concat (map (\<lambda>line. case keep line of None \<Rightarrow> [] | Some kept \<Rightarrow> kept @ [newline]) (split_on newline utab))"

definition survives :: "mount_entry list \<Rightarrow> path \<Rightarrow> bytes \<Rightarrow> bytes option" where
  "survives mounts nextroot raw =
     (case parse_utab_line raw of None \<Rightarrow> None
      | Some l \<Rightarrow> (case carried l mounts nextroot of None \<Rightarrow> None | Some _ \<Rightarrow> Some raw))"

definition surviving_lines :: "bytes \<Rightarrow> mount_entry list \<Rightarrow> path \<Rightarrow> bytes" where
  "surviving_lines utab mounts nextroot = rewrite (survives mounts nextroot) utab"

definition utab_ids :: "bytes \<Rightarrow> int list" where
  "utab_ids utab = filter (\<lambda>i. i > 0) (map ln_id (filter_map parse_utab_line (split_on newline utab)))"

definition named_mounts :: "bytes \<Rightarrow> bytes \<Rightarrow> bytes" where
  "named_mounts utab mountinfo =
     concat (map (\<lambda>line. line @ [newline])
       (filter (\<lambda>line. is_some_and (case split_whitespace line of [] \<Rightarrow> None | w # _ \<Rightarrow> parse_i32 w)
                         (\<lambda>i. i \<in> set (utab_ids utab)))
         (lines_of mountinfo)))"

definition initrd_mounts :: "bytes \<Rightarrow> mount_entry list \<Rightarrow> int list" where
  "initrd_mounts utab mounts =
     map mount_id (filter_map (\<lambda>l. carried l mounts ''/'')
       (filter (\<lambda>l. joins l \<and> ln_has_option l ''x-initrd.mount'')
         (filter_map parse_utab_line (split_on newline utab))))"

definition in_place :: "path \<Rightarrow> mount_entry \<Rightarrow> mount_entry \<Rightarrow> bool" where
  "in_place nextroot was m \<longleftrightarrow>
     path_eq (mount_point m) (below_root nextroot (mount_point was))
     \<and> path_eq (m_source m) (m_source was) \<and> path_eq (m_root m) (m_root was)"

text \<open>The mount a line that named \<open>was\<close> names now.\<close>

definition mount_now ::
    "(int \<times> int) list option \<Rightarrow> mount_entry list \<Rightarrow> path \<Rightarrow> int \<Rightarrow> mount_entry \<Rightarrow> mount_entry option" where
  "mount_now restored mounts nextroot old was =
     (case restored of
        Some pairs \<Rightarrow>
          (case find (\<lambda>p. fst p = old) pairs of None \<Rightarrow> None
           | Some p \<Rightarrow>
               (case find (\<lambda>m. mount_id m = snd p) mounts of None \<Rightarrow> None
                | Some m \<Rightarrow> if in_place nextroot was m then Some m else None))
      | None \<Rightarrow> rfind (in_place nextroot was) mounts)"

definition rekey :: "bytes \<Rightarrow> utab_line \<Rightarrow> int \<Rightarrow> bytes" where
  "rekey raw l i = take (id_start l) raw @ show_int i @ drop (id_end l) raw"

definition restore_line ::
    "mount_entry list option \<Rightarrow> (int \<times> int) list option \<Rightarrow> mount_entry list \<Rightarrow> path \<Rightarrow> bytes \<Rightarrow> bytes option"
  where
  "restore_line named restored mounts nextroot raw =
     (case parse_utab_line raw of None \<Rightarrow> None
      | Some l \<Rightarrow>
          (case (if ln_id l > 0 then named else None) of
             None \<Rightarrow> (case carried l mounts nextroot of None \<Rightarrow> None | Some _ \<Rightarrow> Some raw)
           | Some ns \<Rightarrow>
               (case find (\<lambda>m. mount_id m = ln_id l \<and> fits l m) ns of None \<Rightarrow> None
                | Some was \<Rightarrow>
                    map_option (\<lambda>now. rekey raw l (mount_id now))
                      (mount_now restored mounts nextroot (ln_id l) was))))"

definition restored_lines ::
    "bytes \<Rightarrow> mount_entry list option \<Rightarrow> (int \<times> int) list option \<Rightarrow> mount_entry list \<Rightarrow> path \<Rightarrow> bytes" where
  "restored_lines saved named restored mounts nextroot =
     rewrite (restore_line named restored mounts nextroot) saved"

text \<open>\<^verbatim>\<open>update\<close>: what reading the file gave, and whether replacing it works.  The result is the
  error or whether it was written, with the text the file has afterwards.\<close>

definition update_utab ::
    "(io_error + bytes) \<Rightarrow> (bytes \<Rightarrow> bytes) \<Rightarrow> (bytes \<Rightarrow> io_error option) \<Rightarrow> (io_error + bool) \<times> bytes option" where
  "update_utab old new replace =
     (case old of
        Inl NotFound \<Rightarrow> (Inr False, None)
      | Inl e \<Rightarrow> (Inl e, None)
      | Inr t \<Rightarrow>
          (let text = new t in
           if text = t then (Inr False, Some t)
           else (case replace text of
                   Some e \<Rightarrow> (Inl e, Some t)
                 | None \<Rightarrow> (Inr True, Some text))))"

section \<open>Lemmas\<close>

lemma survives_SomeD:
  "survives ms nr raw = Some k \<Longrightarrow> k = raw \<and> (\<exists>l m. parse_utab_line raw = Some l \<and> carried l ms nr = Some m)"
  by (auto simp: survives_def split: option.splits)

lemma carried_SomeD:
  assumes "carried l ms nr = Some m" "is_absolute nr"
  shows "m \<in> set ms \<and> fits l m \<and> path_starts_with (mount_point m) nr
       \<and> (ln_id l > 0 \<longrightarrow> mount_id m = ln_id l)"
proof (cases "ln_id l > 0")
  case True
  with assms show ?thesis by (auto simp: carried_def dest: find_SomeD)
next
  case False
  with assms(1) obtain t where t: "ln_target l = Some t"
    "rfind (\<lambda>m. path_eq (mount_point m) (below_root nr t) \<and> fits l m) ms = Some m"
    by (auto simp: carried_def Let_def split: option.splits)
  then have "m \<in> set ms" "fits l m" "path_eq (mount_point m) (below_root nr t)"
    using rfind_SomeD by fast+
  then show ?thesis
    using False below_root_starts_with [OF assms(2), of t] path_starts_with_eq_left by blast
qed

lemma parse_empty_line [simp]: "parse_utab_line [] = None"
  by (simp add: parse_utab_line_def strip_cr_def)

text \<open>The lines of a rewritten table are the kept ones, in order, and the empty piece after the
  last newline.\<close>

lemma rewrite_lines:
  assumes "\<And>raw k. raw \<in> set (split_on newline u) \<Longrightarrow> keep raw = Some k \<Longrightarrow> newline \<notin> set k"
  shows "split_on newline (rewrite keep u) = filter_map keep (split_on newline u) @ [[]]"
proof -
  have "split_on newline (concat (map (\<lambda>l. case keep l of None \<Rightarrow> [] | Some k \<Rightarrow> k @ [newline]) ls))
      = filter_map keep ls @ [[]]" if "\<And>raw k. raw \<in> set ls \<Longrightarrow> keep raw = Some k \<Longrightarrow> newline \<notin> set k" for ls
    using that
  proof (induction ls)
    case (Cons l ls)
    then have "split_on newline (concat (map (\<lambda>l. case keep l of None \<Rightarrow> [] | Some k \<Rightarrow> k @ [newline]) ls))
      = filter_map keep ls @ [[]]" by auto
    moreover have "keep l = Some k \<Longrightarrow> split_on newline k = [k]" for k
      using Cons.prems split_on_id by auto
    ultimately show ?case
      by (cases "keep l") (simp_all add: split_on_append_delim)
  qed simp
  from this [OF assms] show ?thesis by (simp add: rewrite_def)
qed

lemma filter_map_filter: "filter_map (\<lambda>x. if P x then Some x else None) xs = filter P xs"
  by (induction xs) auto

definition line_survives :: "mount_entry list \<Rightarrow> path \<Rightarrow> bytes \<Rightarrow> bool" where
  "line_survives ms nr raw \<longleftrightarrow> survives ms nr raw \<noteq> None"

lemma survives_if: "survives ms nr = (\<lambda>raw. if line_survives ms nr raw then Some raw else None)"
  by (rule ext) (auto simp: line_survives_def dest: survives_SomeD)

lemma surviving_lines_lines:
  "split_on newline (surviving_lines u ms nr) = filter (line_survives ms nr) (split_on newline u) @ [[]]"
  unfolding surviving_lines_def
  by (subst rewrite_lines) (auto simp: survives_if filter_map_filter split_on_no_delim split: if_splits)

lemma line_survives_empty [simp]: "\<not> line_survives ms nr []"
  by (simp add: line_survives_def survives_def)

lemma rewrite_filter:
  "rewrite (\<lambda>raw. if P raw then Some raw else None) u =
     concat (map (\<lambda>raw. raw @ [newline]) (filter P (split_on newline u)))"
proof -
  have "concat (map (\<lambda>line. case if P line then Some line else None of None \<Rightarrow> [] | Some k \<Rightarrow> k @ [newline]) ls)
      = concat (map (\<lambda>raw. raw @ [newline]) (filter P ls))" for ls
    by (induction ls) auto
  then show ?thesis by (simp add: rewrite_def)
qed

lemma mount_now_SomeD:
  "mount_now restored ms nr old was = Some m \<Longrightarrow>
     m \<in> set ms \<and> in_place nr was m
     \<and> (\<forall>pairs. restored = Some pairs \<longrightarrow> (old, mount_id m) \<in> set pairs)"
proof (cases restored)
  case (Some pairs)
  assume m: "mount_now restored ms nr old was = Some m"
  with Some obtain p where p: "find (\<lambda>p. fst p = old) pairs = Some p"
    "find (\<lambda>x. mount_id x = snd p) ms = Some m" "in_place nr was m"
    by (auto simp: mount_now_def split: option.splits if_splits)
  then have "p \<in> set pairs \<and> fst p = old" "m \<in> set ms \<and> mount_id m = snd p"
    using find_SomeD by fast+
  with p Some show ?thesis by (cases p) auto
qed (auto simp: mount_now_def dest: rfind_SomeD)

section \<open>Properties\<close>

text \<open>What a switch carries of the table: the lines kept are exactly those libmount reads and
  joins to a mount the switch carries, byte for byte and in order, and each of them names such a
  mount, at or below the next root, with the line's source and root (and its ID, where it has
  one).\<close>

theorem surviving_lines_carried:
  assumes "is_absolute nextroot" "line \<in> set (split_on newline (surviving_lines utab mounts nextroot))"
  shows "line = [] \<or> line \<in> set (split_on newline utab) \<and>
           (\<exists>l m. parse_utab_line line = Some l \<and> m \<in> set mounts \<and> fits l m
                \<and> path_starts_with (mount_point m) nextroot \<and> (ln_id l > 0 \<longrightarrow> mount_id m = ln_id l))"
proof (cases "line = []")
  case False
  with assms(2) have "line_survives mounts nextroot line" "line \<in> set (split_on newline utab)"
    by (auto simp: surviving_lines_lines)
  then show ?thesis
    using carried_SomeD [OF _ assms(1)] survives_SomeD unfolding line_survives_def by blast
qed simp

definition sample_utab :: bytes where
  "sample_utab = ''ID=62 SRC=/dev/vda TARGET=/sysroot ROOT=/ OPTS=x-initrd.mount'' @ [newline]
               @ ''ID=7 SRC=tmpfs TARGET=/run/nextroot ROOT=/ OPTS=x-a'' @ [newline]"

definition next_mount :: mount_entry where
  "next_mount = \<lparr>mount_id = 7, parent_id = 1, m_dev = ''0:5'', m_root = ''/'', mount_point = ''/run/nextroot'',
                 mount_opts = ''rw'', m_fstype = ''tmpfs'', m_source = ''tmpfs'', super_opts = ''rw''\<rparr>"

theorem surviving_lines_carried_witness:
  "surviving_lines sample_utab [next_mount] ''/run/nextroot''
     = ''ID=7 SRC=tmpfs TARGET=/run/nextroot ROOT=/ OPTS=x-a'' @ [newline]
   \<and> (\<exists>l m. parse_utab_line ''ID=7 SRC=tmpfs TARGET=/run/nextroot ROOT=/ OPTS=x-a'' = Some l
        \<and> m \<in> set [next_mount] \<and> fits l m \<and> path_starts_with (mount_point m) ''/run/nextroot'')"
proof -
  have s: "surviving_lines sample_utab [next_mount] ''/run/nextroot''
     = ''ID=7 SRC=tmpfs TARGET=/run/nextroot ROOT=/ OPTS=x-a'' @ [newline]" by code_simp
  have a: "is_absolute ''/run/nextroot''" by code_simp
  have m: "''ID=7 SRC=tmpfs TARGET=/run/nextroot ROOT=/ OPTS=x-a''
      \<in> set (split_on newline (surviving_lines sample_utab [next_mount] ''/run/nextroot''))"
    unfolding s by code_simp
  from surviving_lines_carried [OF a m] s show ?thesis by auto
qed

text \<open>The table is settled after one pass: a switch whose mounts do not change drops nothing
  more from what an earlier pass kept.\<close>

theorem surviving_lines_idem:
  "surviving_lines (surviving_lines utab mounts nextroot) mounts nextroot
     = surviving_lines utab mounts nextroot"
proof -
  let ?u = "surviving_lines utab mounts nextroot"
  have f: "surviving_lines v mounts nextroot
      = concat (map (\<lambda>raw. raw @ [newline]) (filter (line_survives mounts nextroot) (split_on newline v)))" for v
    by (simp add: surviving_lines_def survives_if rewrite_filter)
  have "surviving_lines ?u mounts nextroot
      = concat (map (\<lambda>raw. raw @ [newline])
          (filter (line_survives mounts nextroot) (filter (line_survives mounts nextroot) (split_on newline utab) @ [[]])))"
    by (subst f) (simp only: surviving_lines_lines)
  then show ?thesis by (simp add: f [of utab])
qed

end
