(* ===== verification/Fstab_Policy.thy ===== *)
theory Fstab_Policy
  imports Fstab "HOL-Library.Multiset"
begin

text \<open>
  What happens to each decoy file system in the hidden root: \<^verbatim>\<open>nails-session/src/session/policy.rs\<close>,
  and the places on the hidden volume its overlays live in, \<^verbatim>\<open>nails-session/src/session/layout.rs\<close>.
  The lemmas show what an entry left to the hidden systemd can be, that every disk the decoy's
  fstab names is put in place, masked or never mounted, that a parent is decided before what is
  mounted below it, and that two mount points never share their layers.
\<close>

section \<open>Definitions\<close>

definition BOOT_PATHS :: "path list" where
  "BOOT_PATHS = [''/boot'', ''/boot/efi'', ''/efi'']"

definition BOOT_WRITER_UNITS :: "bytes list" where
  "BOOT_WRITER_UNITS =
     [''systemd-boot-random-seed.service'', ''grub-common.service'', ''grub-initrd-fallback.service'']"

datatype decision =
  ReadOnlyBind path
| Overlay path
| Mask path "bytes list" bytes
| Leave path bytes
| Refuse path bytes

fun decision_masked_units :: "decision \<Rightarrow> bytes list" where
  "decision_masked_units (Mask _ units _) = units"
| "decision_masked_units _ = []"

fun describe :: "decision \<Rightarrow> bytes" where
  "describe (ReadOnlyBind t) = utf8_lossy t @ '': read-only''"
| "describe (Overlay t) = utf8_lossy t @ '': overlaid''"
| "describe (Mask t _ why) = utf8_lossy t @ '': masked ('' @ why @ '')''"
| "describe (Leave t why) = utf8_lossy t @ '': left as is ('' @ why @ '')''"
| "describe (Refuse t why) = utf8_lossy t @ '': refused ('' @ why @ '')''"

definition mounted_at :: "mount_entry list \<Rightarrow> path \<Rightarrow> mount_entry option" where
  "mounted_at mounts target = rfind (\<lambda>m. path_eq (mount_point m) target) mounts"

definition mount_containing :: "mount_entry list \<Rightarrow> path \<Rightarrow> mount_entry option" where
  "mount_containing mounts p =
     max_by_key (\<lambda>m. length (components (mount_point m)))
       (filter (\<lambda>m. path_starts_with p (mount_point m)) mounts)"

definition plain_absolute :: "path \<Rightarrow> bool" where
  "plain_absolute p \<longleftrightarrow> is_absolute p \<and> (\<forall>c\<in>set (components p). is_plain c)"

text \<open>The closure \<^verbatim>\<open>mask\<close> of \<^verbatim>\<open>decide\<close>, and where an overlay entry's upper lives.\<close>

definition mask_entry :: "fstab_entry \<Rightarrow> bytes \<Rightarrow> decision" where
  "mask_entry e why =
     Mask (fs_file e)
       (mount_unit (fs_file e) # (if is_automount e then [automount_unit (fs_file e)] else [])) why"

definition overlay_upper :: "fstab_entry \<Rightarrow> mount_entry list \<Rightarrow> path option" where
  "overlay_upper e mounts =
     or_else (option_value e ''upperdir'')
       (case mounted_at mounts (fs_file e) of None \<Rightarrow> None
        | Some m \<Rightarrow> upperdir (parse_overlay_opts (super_opts m)))"

definition upper_in_ram :: "fstab_entry \<Rightarrow> mount_entry list \<Rightarrow> bool" where
  "upper_in_ram e mounts \<longleftrightarrow>
     is_some_and (case overlay_upper e mounts of None \<Rightarrow> None | Some u \<Rightarrow> mount_containing mounts u)
       (\<lambda>m. m_fstype m = ''tmpfs'' \<or> m_fstype m = ''ramfs'')"

definition decide :: "fstab_entry \<Rightarrow> mount_entry list \<Rightarrow> path \<Rightarrow> decision" where
  "decide e mounts hidden_root =
     (let target = fs_file e; mounted = mounted_at mounts target \<noteq> None in
      if is_swap e then
        (case swap_unit (spec e) of
           None \<Rightarrow> Leave target ''a swap entry without a device''
         | Some u \<Rightarrow> Mask (spec e) [u] ''swap would take hidden RAM onto a decoy disk'')
      else if \<not> plain_absolute target then
        Refuse target ''the mount point is not a plain absolute path''
      else if path_eq target ''/'' then Leave target ''the root overlay''
      else if is_virtual e then Leave target ''RAM or kernel filesystem''
      else if path_starts_with target hidden_root then
        Leave target ''the hidden volume is bound at its own path''
      else if (is_host_share e \<or> vfstype e = ''overlay'') \<and> mounted then Overlay target
      else if is_host_share e then Leave target ''a host share, not mounted now''
      else if is_network e then mask_entry e ''the hidden session would write to the server''
      else if vfstype e = ''overlay'' then
        (if upper_in_ram e mounts then Leave target ''an overlay with its upper in RAM''
         else mask_entry e ''an overlay with its upper on a disk'')
      else (case mounted_at mounts target of
          Some m \<Rightarrow> if (\<exists>b\<in>set BOOT_PATHS. path_eq target b) \<or> read_only m
                    then ReadOnlyBind target else Overlay target
        | None \<Rightarrow> if is_noauto e then Leave target ''noauto: never mounted''
                  else mask_entry e ''not mounted now; the hidden session would mount it read-write''))"

definition file_depth :: "fstab_entry \<Rightarrow> nat" where
  "file_depth e = length (components (fs_file e))"

definition decide_all :: "fstab_entry list \<Rightarrow> mount_entry list \<Rightarrow> path \<Rightarrow> decision list" where
  "decide_all entries mounts hidden_root =
     map snd (sort_key fst (map (\<lambda>e. (file_depth e, decide e mounts hidden_root)) entries))"

definition masked_units :: "decision list \<Rightarrow> bytes list" where
  "masked_units ds = concat (map decision_masked_units ds)"

fun places :: "path \<Rightarrow> decision \<Rightarrow> bool" where
  "places f (ReadOnlyBind t) \<longleftrightarrow> path_eq t f"
| "places f (Overlay t) \<longleftrightarrow> path_eq t f"
| "places f _ \<longleftrightarrow> False"

definition masks :: "fstab_entry list \<Rightarrow> decision list \<Rightarrow> bytes list" where
  "masks fstab ds =
     push_new [] (masked_units ds
       @ map (\<lambda>e. automount_unit (fs_file e))
           (filter (\<lambda>e. is_automount e \<and> (\<exists>d\<in>set ds. places (fs_file e) d)) fstab))"

subsection \<open>The layers on the hidden volume\<close>

record layout =
  hidden_root_of :: path

definition layout_upper :: "layout \<Rightarrow> path" where
  "layout_upper l = join (hidden_root_of l) ''root/upper''"

definition layout_work :: "layout \<Rightarrow> path" where
  "layout_work l = join (hidden_root_of l) ''root/work''"

definition mount_layers :: "layout \<Rightarrow> path \<Rightarrow> path \<times> path" where
  "mount_layers l target =
     (let base = join (join (hidden_root_of l) ''root/mounts'') (escape_path target)
      in (join base ''upper'', join base ''work''))"

definition layout_carried :: "layout \<Rightarrow> path \<Rightarrow> path" where
  "layout_carried l target = join (join (hidden_root_of l) ''root/decoy'') (escape_path target)"

definition in_upper :: "layout \<Rightarrow> path \<Rightarrow> path" where
  "in_upper l p = below_root (layout_upper l) p"

definition layout_cache :: "layout \<Rightarrow> path" where
  "layout_cache l = join (hidden_root_of l) ''root/cache''"

definition store_kept :: "layout \<Rightarrow> path" where
  "store_kept l = join (hidden_root_of l) ''root/store-kept''"

definition etc_nixos :: "layout \<Rightarrow> path" where
  "etc_nixos l = in_upper l ''/etc/nixos''"

text \<open>\<^verbatim>\<open>Paths\<close>: the system paths a session works under.\<close>

definition NEXTROOT :: path where "NEXTROOT = ''/run/nextroot''"
definition RUNTIME_DIR :: path where "RUNTIME_DIR = ''/run/overlay-runtime''"
definition PLAN_NAME :: bytes where "PLAN_NAME = ''plan.json''"
definition BINARY_NAME :: bytes where "BINARY_NAME = ''control''"

record sys_paths =
  paths_root :: path
  paths_run :: path

definition system_paths :: sys_paths where
  "system_paths = \<lparr>paths_root = ''/'', paths_run = ''/run''\<rparr>"

definition is_system :: "sys_paths \<Rightarrow> bool" where
  "is_system ps \<longleftrightarrow> path_eq (paths_root ps) (paths_root system_paths)
                  \<and> path_eq (paths_run ps) (paths_run system_paths)"

definition paths_nextroot :: "sys_paths \<Rightarrow> path" where
  "paths_nextroot ps = (if is_system ps then NEXTROOT else join (paths_run ps) ''nextroot'')"

definition paths_runtime :: "sys_paths \<Rightarrow> path" where
  "paths_runtime ps = (if is_system ps then RUNTIME_DIR else join (paths_run ps) ''overlay-runtime'')"

definition paths_plan :: "sys_paths \<Rightarrow> path" where
  "paths_plan ps = join (paths_runtime ps) PLAN_NAME"

definition binary_copy :: "sys_paths \<Rightarrow> path" where
  "binary_copy ps = join (paths_runtime ps) BINARY_NAME"

definition paths_decoy :: "sys_paths \<Rightarrow> path \<Rightarrow> path" where
  "paths_decoy ps p = below_root (paths_root ps) p"

definition in_nextroot :: "sys_paths \<Rightarrow> path \<Rightarrow> path" where
  "in_nextroot ps p = below_root (paths_nextroot ps) p"

section \<open>Lemmas\<close>

lemma mounted_at_SomeD: "mounted_at ms t = Some m \<Longrightarrow> m \<in> set ms \<and> path_eq (mount_point m) t"
  by (auto simp: mounted_at_def dest: rfind_SomeD)

lemma mounted_at_None_iff: "mounted_at ms t = None \<longleftrightarrow> (\<forall>m\<in>set ms. \<not> path_eq (mount_point m) t)"
  by (simp add: mounted_at_def rfind_None_iff)

lemma decide_all_set: "set (decide_all es ms h) = (\<lambda>e. decide e ms h) ` set es"
  by (force simp: decide_all_def)

lemma insort_key_map: "insort_key f (g x) (map g xs) = map g (insort_key (f \<circ> g) x xs)"
  by (induction xs) auto

lemma sort_key_map: "sort_key f (map g xs) = map g (sort_key (f \<circ> g) xs)"
  by (induction xs) (simp_all add: insort_key_map comp_def)

lemma decide_all_sorted: "decide_all es ms h = map (\<lambda>e. decide e ms h) (sort_key file_depth es)"
  by (simp add: decide_all_def sort_key_map comp_def)

lemma set_masks:
  "set (masks es ds) = (\<Union>d\<in>set ds. set (decision_masked_units d))
     \<union> {automount_unit (fs_file e) |e. e \<in> set es \<and> is_automount e \<and> (\<exists>d\<in>set ds. places (fs_file e) d)}"
  by (auto simp: masks_def masked_units_def)

text \<open>The entries whose file system the session must keep off the decoy's disks: everything that
  is not swap, the root, in RAM, on the hidden volume or a host's share.\<close>

definition on_decoy_disk :: "path \<Rightarrow> fstab_entry \<Rightarrow> bool" where
  "on_decoy_disk hidden_root e \<longleftrightarrow>
     \<not> is_swap e \<and> \<not> path_eq (fs_file e) ''/'' \<and> \<not> is_virtual e \<and> \<not> is_host_share e
     \<and> \<not> path_starts_with (fs_file e) hidden_root \<and> vfstype e \<noteq> ''overlay''"

lemma decide_on_disk:
  assumes "on_decoy_disk h e" "plain_absolute (fs_file e)"
  shows "places (fs_file e) (decide e ms h)
       \<or> (\<exists>why. decide e ms h = mask_entry e why)
       \<or> is_noauto e \<and> mounted_at ms (fs_file e) = None"
  using assms by (auto simp: decide_def on_decoy_disk_def Let_def split: option.splits)

lemma masks_decided:
  assumes "e \<in> set es" "decide e ms h = mask_entry e why"
  shows "mount_unit (fs_file e) \<in> set (masks es (decide_all es ms h))
       \<and> (is_automount e \<longrightarrow> automount_unit (fs_file e) \<in> set (masks es (decide_all es ms h)))"
proof -
  have "mask_entry e why \<in> set (decide_all es ms h)" using assms by (force simp: decide_all_set)
  moreover have "set (decision_masked_units (mask_entry e why)) \<supseteq> {mount_unit (fs_file e)}
      \<union> (if is_automount e then {automount_unit (fs_file e)} else {})"
    by (simp add: mask_entry_def)
  ultimately show ?thesis by (fastforce simp: set_masks)
qed

lemma masks_placed:
  assumes "e \<in> set es" "is_automount e" "d \<in> set ds" "places (fs_file e) d"
  shows "automount_unit (fs_file e) \<in> set (masks es ds)"
  using assms by (auto simp: set_masks)

subsection \<open>Layers\<close>

lemma is_absolute_joinI: "is_absolute p \<Longrightarrow> is_absolute (join p q)"
  by (auto simp: join_def is_absolute_def)

lemma hex_escape_hd: "hd (hex_escape c) = backslash" "hex_escape c \<noteq> []"
  by (auto simp: hex_escape_def)

lemma escape_byte_no_slash: "slash \<notin> set (escape_byte c)"
  using hex_escape_no_slash [of c] by (simp add: escape_byte_def)

lemma escape_bytes_no_slash: "slash \<notin> set (escape_bytes s)"
  using hex_escape_no_slash escape_byte_no_slash by (auto simp: escape_bytes_def split: list.splits)

lemma escape_byte_not_dot: "c \<noteq> CHR ''.'' \<Longrightarrow> escape_byte c \<noteq> [] \<and> hd (escape_byte c) \<noteq> CHR ''.''"
  by (auto simp: escape_byte_def hex_escape_def backslash_def)

lemma escape_bytes_start: "s \<noteq> [] \<Longrightarrow> escape_bytes s \<noteq> [] \<and> hd (escape_bytes s) \<noteq> CHR ''.''"
proof (cases s)
  case (Cons c cs)
  then show ?thesis
    using escape_byte_not_dot [of c] hex_escape_hd
    by (cases "c = CHR ''.''") (auto simp: escape_bytes_def backslash_def)
qed simp

lemma escape_path_name: "component_of (escape_path p) = Some (Normal (escape_path p))"
  and escape_path_plain: "slash \<notin> set (escape_path p)"
proof -
  let ?k = "path_simplify (utf8_lossy p)"
  have "?k \<noteq> [] \<Longrightarrow> join_with ''/'' ?k \<noteq> []"
    using path_simplify_names [of _ "utf8_lossy p"] by (cases ?k rule: remdups_adj.cases) auto
  then have "escape_path p \<noteq> [] \<and> hd (escape_path p) \<noteq> CHR ''.''"
    using escape_bytes_start [of "join_with ''/'' ?k"] by (auto simp: escape_path_def Let_def)
  then show "component_of (escape_path p) = Some (Normal (escape_path p))"
    by (auto simp: component_of_def)
  show "slash \<notin> set (escape_path p)"
    using escape_bytes_no_slash by (auto simp: escape_path_def Let_def)
qed

lemma components_join_escape:
  assumes "is_absolute p"
  shows "components (join p (escape_path t)) = components p @ [Normal (escape_path t)]"
proof -
  have "\<not> is_absolute (escape_path t)"
    using escape_path_plain [of t] by (cases "escape_path t") (auto simp: is_absolute_def)
  then show ?thesis
    using assms by (simp add: components_join split_on_id escape_path_plain escape_path_name)
qed

lemma components_mount_layers:
  assumes "is_absolute (hidden_root_of l)"
  shows "components (fst (mount_layers l t)) =
           components (hidden_root_of l) @ [Normal ''root'', Normal ''mounts'', Normal (escape_path t), Normal ''upper'']"
    and "components (snd (mount_layers l t)) =
           components (hidden_root_of l) @ [Normal ''root'', Normal ''mounts'', Normal (escape_path t), Normal ''work'']"
proof -
  let ?b = "join (hidden_root_of l) ''root/mounts''"
  have b: "is_absolute ?b" "components ?b = components (hidden_root_of l) @ [Normal ''root'', Normal ''mounts'']"
    using assms is_absolute_joinI components_join [OF assms, of "''root/mounts''"]
    by (simp_all add: is_absolute_def component_of_def)
  have j: "is_absolute (join ?b (escape_path t))" using b is_absolute_joinI by blast
  show "components (fst (mount_layers l t)) =
           components (hidden_root_of l) @ [Normal ''root'', Normal ''mounts'', Normal (escape_path t), Normal ''upper'']"
    and "components (snd (mount_layers l t)) =
           components (hidden_root_of l) @ [Normal ''root'', Normal ''mounts'', Normal (escape_path t), Normal ''work'']"
    using b j components_join [OF j, of "''upper''"] components_join [OF j, of "''work''"]
      components_join_escape [OF b(1), of t]
    by (simp_all add: mount_layers_def Let_def is_absolute_def component_of_def)
qed

section \<open>Properties\<close>


definition noauto_entry :: fstab_entry where
  "noauto_entry = \<lparr>spec = ''/dev/sdb1'', fs_file = ''/mnt/usb'', vfstype = ''vfat'', options = [''noauto'']\<rparr>"


text \<open>C9: no decoy disk is written through a mount the decoy's fstab asks for.  Every entry on a
  decoy disk with a plain mount point is put in place by the session itself, or has its mount unit
  masked, or is \<^verbatim>\<open>noauto\<close> and not mounted; and the automount unit of an automount entry is always
  masked, so the hidden systemd cannot mount it on demand either.\<close>

theorem decoy_disks_stay_shut:
  assumes "e \<in> set es" "on_decoy_disk h e" "plain_absolute (fs_file e)"
  shows "((\<exists>d\<in>set (decide_all es ms h). places (fs_file e) d)
          \<or> mount_unit (fs_file e) \<in> set (masks es (decide_all es ms h))
          \<or> is_noauto e \<and> mounted_at ms (fs_file e) = None)
       \<and> (is_automount e \<longrightarrow> automount_unit (fs_file e) \<in> set (masks es (decide_all es ms h)))"
proof -
  let ?d = "decide e ms h"
  have d: "?d \<in> set (decide_all es ms h)" using assms(1) by (simp add: decide_all_set)
  consider "places (fs_file e) ?d" | why where "?d = mask_entry e why"
    | "is_noauto e" "mounted_at ms (fs_file e) = None"
    using decide_on_disk [OF assms(2,3), of ms] by metis
  then show ?thesis
  proof cases
    case 1
    with d show ?thesis using masks_placed [OF assms(1)] by blast
  next
    case 2
    from masks_decided [OF assms(1) 2] show ?thesis by blast
  next
    case 3
    then show ?thesis by (simp add: is_noauto_def)
  qed
qed

definition data_entry :: fstab_entry where
  "data_entry = \<lparr>spec = ''/dev/sdb1'', fs_file = ''/data'', vfstype = ''ext4'',
                 options = [''noauto'', ''x-systemd.automount'']\<rparr>"

theorem decoy_disks_stay_shut_witness:
  "automount_unit ''/data'' \<in> set (masks [data_entry] (decide_all [data_entry] [] ''/mnt/data''))"
proof -
  have "data_entry \<in> set [data_entry]" "on_decoy_disk ''/mnt/data'' data_entry"
    "plain_absolute (fs_file data_entry)"
    by (simp, code_simp+)
  from decoy_disks_stay_shut [OF this, of "[]"] show ?thesis
    by (simp add: data_entry_def is_automount_def has_option_def)
qed

text \<open>The decisions are those of the entries, each once, ordered so that no decision comes
  before the decision for a mount point above it.\<close>

theorem decide_all_parents_first:
  "\<exists>ds. mset ds = mset es \<and> decide_all es ms h = map (\<lambda>e. decide e ms h) ds
     \<and> (\<forall>i j. i < j \<and> j < length ds \<longrightarrow>
          \<not> (path_starts_with (fs_file (ds ! i)) (fs_file (ds ! j)) \<and> \<not> path_eq (fs_file (ds ! i)) (fs_file (ds ! j))))"
proof (intro exI conjI allI impI)
  let ?ds = "sort_key file_depth es"
  show "mset ?ds = mset es" by simp
  show "decide_all es ms h = map (\<lambda>e. decide e ms h) ?ds" by (rule decide_all_sorted)
  fix i j
  assume ij: "i < j \<and> j < length ?ds"
  let ?p = "fs_file (?ds ! i)" and ?q = "fs_file (?ds ! j)"
  have "sorted (map file_depth ?ds)" by simp
  with ij have "file_depth (?ds ! i) \<le> file_depth (?ds ! j)"
    by (metis length_map less_imp_le_nat nth_map order.strict_trans sorted_nth_mono)
  then have "prefix (components ?q) (components ?p) \<Longrightarrow> components ?p = components ?q"
    by (auto simp: file_depth_def prefix_def)
  then show "\<not> (path_starts_with ?p ?q \<and> \<not> path_eq ?p ?q)"
    by (auto simp: path_starts_with_def path_eq_def)
qed

theorem decide_all_parents_first_witness:
  "\<exists>ds. mset ds = mset [data_entry, noauto_entry]
     \<and> decide_all [data_entry, noauto_entry] [] ''/h'' = map (\<lambda>e. decide e [] ''/h'') ds"
  using decide_all_parents_first [of "[data_entry, noauto_entry]" "[]" "''/h''"] by blast

text \<open>C33: the layers of two mount points on one hidden volume never meet: the upper of one is
  the upper of the other only when the mount points are the same path, and it is never the work
  directory of any.\<close>

theorem mount_layers_disjoint:
  assumes "is_absolute (hidden_root_of l)"
    and "utf8_valid p" "is_absolute p" "''..'' \<notin> set (split_on slash p)"
    and "utf8_valid q" "is_absolute q" "''..'' \<notin> set (split_on slash q)"
  shows "(path_eq (fst (mount_layers l p)) (fst (mount_layers l q)) \<longleftrightarrow> path_eq p q)
       \<and> \<not> path_eq (fst (mount_layers l p)) (snd (mount_layers l q))"
proof -
  have "escape_path p = escape_path q \<longleftrightarrow> path_eq p q"
    using assms(2-7)
    by (simp add: escape_path_eq_iff path_eq_def components_simplify inj_map_eq_map inj_on_def)
  then show ?thesis
    by (simp add: path_eq_def components_mount_layers [OF assms(1)])
qed

theorem mount_layers_disjoint_witness:
  "\<not> path_eq (fst (mount_layers \<lparr>hidden_root_of = ''/mnt/data''\<rparr> ''/home''))
             (fst (mount_layers \<lparr>hidden_root_of = ''/mnt/data''\<rparr> ''/var''))"
proof -
  let ?l = "\<lparr>hidden_root_of = ''/mnt/data''\<rparr>"
  have h: "is_absolute (hidden_root_of ?l)"
    "utf8_valid ''/home''" "is_absolute ''/home''" "''..'' \<notin> set (split_on slash ''/home'')"
    "utf8_valid ''/var''" "is_absolute ''/var''" "''..'' \<notin> set (split_on slash ''/var'')"
    by code_simp+
  have "\<not> path_eq ''/home'' ''/var''" by code_simp
  with mount_layers_disjoint [OF h] show ?thesis by blast
qed

end
