(* ===== verification/Session_Plan.thy ===== *)
theory Session_Plan
  imports Utab Fstab_Policy
begin

text \<open>
  The session plan, \<^verbatim>\<open>nails-teardown/src/whole_root/plan.rs\<close>: its records, the arming of a
  transition and the version gate of the parser, and the per-mount flags of
  \<^verbatim>\<open>nails-teardown/src/whole_root/nextroot.rs\<close>.  The JSON reader is a parameter: it is
  \<^verbatim>\<open>serde_json\<close>, not code of the repository.  Times are seconds as natural numbers; the one
  subtraction is guarded, so the \<^verbatim>\<open>u64\<close> of the source cannot wrap.
\<close>

section \<open>Definitions\<close>

definition PLAN_VERSION :: nat where "PLAN_VERSION = 2"
definition ARM_VALIDITY_SECS :: nat where "ARM_VALIDITY_SECS = 30 * 60"
definition SNAPSHOT_NAME :: bytes where "SNAPSHOT_NAME = ''run-entries''"
definition UTAB_NAME :: bytes where "UTAB_NAME = ''mount-table''"
definition UTAB_MOUNTS_NAME :: bytes where "UTAB_MOUNTS_NAME = ''mount-ids''"
definition RECORDS_NAME :: bytes where "RECORDS_NAME = ''run-records''"

definition default_plan_path :: path where
  "default_plan_path = join RUNTIME_DIR PLAN_NAME"

record plan_owner =
  owner_pid :: nat
  owner_start :: nat

record decoy_root =
  dr_source :: path
  dr_fstype :: bytes
  dr_data :: "bytes option"

record root_side =
  rs_init :: path
  rs_system :: "path option"

datatype policy_mount_kind = KindReadOnlyBind | KindOverlay | KindHiddenVolume

record policy_mount =
  pm_target :: path
  pm_kind :: policy_mount_kind

record carried_mount =
  cm_target :: path
  cm_at :: path
  cm_read_only :: bool
  cm_dev :: "bytes option"
  cm_root :: "path option"

datatype mount_source = FromRoot | FromCarried nat

record decoy_mount =
  dm_id :: int
  dm_target :: path
  dm_source :: mount_source
  dm_path :: path
  dm_options :: bytes
  dm_restored :: "int option"

record plan_tools =
  tool_systemctl :: "path option"
  tool_dmsetup :: "path option"

datatype direction = Enter | Leaving

record arm =
  arm_direction :: direction
  arm_at :: nat

definition valid_at :: "arm \<Rightarrow> nat \<Rightarrow> bool" where
  "valid_at a now \<longleftrightarrow> now \<ge> arm_at a \<and> now - arm_at a \<le> ARM_VALIDITY_SECS"

record runtime_unit =
  ru_name :: bytes
  ru_content :: bytes
  ru_wanted_by :: "bytes list"

record kernel_setting =
  ks_path :: path
  ks_value :: bytes

record plan =
  p_version :: nat
  p_hidden_root :: path
  p_hidden_dev :: "bytes option"
  p_accepted_decoy_storage :: "bytes option"
  p_upper :: path
  p_work :: path
  p_owner :: "plan_owner option"
  p_decoy_root :: decoy_root
  p_decoy :: root_side
  p_hidden :: root_side
  p_policy_mounts :: "policy_mount list"
  p_masks :: "bytes list"
  p_boot_masks :: "bytes list"
  p_session_units :: "runtime_unit list"
  p_backend :: "bytes list"
  p_tools :: plan_tools
  p_armed :: "arm option"
  p_entered_at :: "nat option"
  p_run_noexec :: bool
  p_carried :: "carried_mount list"
  p_decoy_mounts :: "decoy_mount list"
  p_read_only_disks :: bool
  p_failed_at_entry :: "bytes list"
  p_kernel_settings :: "kernel_setting list"

datatype plan_error = PlanMissing | PlanUnreadable io_error | PlanCorrupt bytes | PlanVersion nat

definition show_plan_error :: "(io_error \<Rightarrow> bytes) \<Rightarrow> plan_error \<Rightarrow> bytes" where
  "show_plan_error show_io e =
     (case e of
        PlanMissing \<Rightarrow> ''no session plan''
      | PlanUnreadable io \<Rightarrow> ''session plan unreadable: '' @ show_io io
      | PlanCorrupt w \<Rightarrow> ''session plan corrupt: '' @ w
      | PlanVersion v \<Rightarrow> ''session plan has format version '' @ show_nat v @ '', this build reads '' @ show_nat PLAN_VERSION)"

text \<open>\<^verbatim>\<open>Plan::from_json\<close>, over the two readers \<^verbatim>\<open>serde\<close> derives: of the version alone, and of a
  whole plan.\<close>

definition from_json :: "(bytes \<Rightarrow> bytes + nat) \<Rightarrow> (bytes \<Rightarrow> bytes + plan) \<Rightarrow> bytes \<Rightarrow> plan_error + plan" where
  "from_json read_version read_plan text =
     (case read_version text of
        Inl e \<Rightarrow> Inl (PlanCorrupt e)
      | Inr v \<Rightarrow>
          if v \<noteq> PLAN_VERSION then Inl (PlanVersion v)
          else (case read_plan text of Inl e \<Rightarrow> Inl (PlanCorrupt e) | Inr p \<Rightarrow> Inr p))"

definition load_plan ::
    "(bytes \<Rightarrow> bytes + nat) \<Rightarrow> (bytes \<Rightarrow> bytes + plan) \<Rightarrow> (io_error + bytes) \<Rightarrow> plan_error + plan" where
  "load_plan read_version read_plan content =
     (case content of
        Inr text \<Rightarrow> from_json read_version read_plan text
      | Inl NotFound \<Rightarrow> Inl PlanMissing
      | Inl e \<Rightarrow> Inl (PlanUnreadable e))"

definition armed_for :: "plan \<Rightarrow> direction \<Rightarrow> nat \<Rightarrow> bool" where
  "armed_for p d now \<longleftrightarrow> is_some_and (p_armed p) (\<lambda>a. arm_direction a = d \<and> valid_at a now)"

subsection \<open>Per-mount flags\<close>

datatype atime_mode = StrictAtime | RelAtime | NoAtime

record mount_flags =
  f_rdonly :: bool
  f_nosuid :: bool
  f_nodev :: bool
  f_noexec :: bool
  f_nodiratime :: bool
  f_nosymfollow :: bool
  f_atime :: atime_mode

definition no_flags :: mount_flags where
  "no_flags = \<lparr>f_rdonly = False, f_nosuid = False, f_nodev = False, f_noexec = False,
               f_nodiratime = False, f_nosymfollow = False, f_atime = StrictAtime\<rparr>"

definition flag_step :: "mount_flags \<Rightarrow> bytes \<Rightarrow> mount_flags option" where
  "flag_step f opt =
     (if opt = ''rw'' then Some f
      else if opt = ''ro'' then Some (f\<lparr>f_rdonly := True\<rparr>)
      else if opt = ''nosuid'' then Some (f\<lparr>f_nosuid := True\<rparr>)
      else if opt = ''nodev'' then Some (f\<lparr>f_nodev := True\<rparr>)
      else if opt = ''noexec'' then Some (f\<lparr>f_noexec := True\<rparr>)
      else if opt = ''nodiratime'' then Some (f\<lparr>f_nodiratime := True\<rparr>)
      else if opt = ''nosymfollow'' then Some (f\<lparr>f_nosymfollow := True\<rparr>)
      else if opt = ''relatime'' then Some (f\<lparr>f_atime := RelAtime\<rparr>)
      else if opt = ''noatime'' then Some (f\<lparr>f_atime := NoAtime\<rparr>)
      else None)"

fun flag_loop :: "mount_flags \<Rightarrow> bytes list \<Rightarrow> mount_flags option" where
  "flag_loop f [] = Some f"
| "flag_loop f (opt # rest) = (case flag_step f opt of None \<Rightarrow> None | Some f' \<Rightarrow> flag_loop f' rest)"

definition per_mount_flags :: "bytes \<Rightarrow> mount_flags option" where
  "per_mount_flags opts = flag_loop no_flags (split_on (CHR '','') opts)"

section \<open>Lemmas\<close>

lemma armed_for_SomeD:
  "armed_for p d now \<Longrightarrow> \<exists>a. p_armed p = Some a \<and> arm_direction a = d \<and> arm_at a \<le> now \<and> now \<le> arm_at a + 1800"
  by (auto simp: armed_for_def is_some_and_iff valid_at_def ARM_VALIDITY_SECS_def)

text \<open>The flags read the options back: a flag is set exactly when its name is an option.\<close>

lemma flag_step_cases:
  assumes "flag_step f opt = Some f'"
  obtains "opt = ''rw''" "f' = f"
  | "opt = ''ro''" "f' = f\<lparr>f_rdonly := True\<rparr>"
  | "opt = ''nosuid''" "f' = f\<lparr>f_nosuid := True\<rparr>"
  | "opt = ''nodev''" "f' = f\<lparr>f_nodev := True\<rparr>"
  | "opt = ''noexec''" "f' = f\<lparr>f_noexec := True\<rparr>"
  | "opt = ''nodiratime''" "f' = f\<lparr>f_nodiratime := True\<rparr>"
  | "opt = ''nosymfollow''" "f' = f\<lparr>f_nosymfollow := True\<rparr>"
  | "opt = ''relatime''" "f' = f\<lparr>f_atime := RelAtime\<rparr>"
  | "opt = ''noatime''" "f' = f\<lparr>f_atime := NoAtime\<rparr>"
  using assms unfolding flag_step_def
  by (simp only: option.simps simp_thms split: if_split_asm)

lemma flag_step_rdonly: "flag_step f opt = Some f' \<Longrightarrow> f_rdonly f' = (f_rdonly f \<or> opt = ''ro'')"
  by (elim flag_step_cases) simp_all

lemma flag_step_nosuid: "flag_step f opt = Some f' \<Longrightarrow> f_nosuid f' = (f_nosuid f \<or> opt = ''nosuid'')"
  by (elim flag_step_cases) simp_all

lemma flag_step_nodev: "flag_step f opt = Some f' \<Longrightarrow> f_nodev f' = (f_nodev f \<or> opt = ''nodev'')"
  by (elim flag_step_cases) simp_all

lemma flag_step_noexec: "flag_step f opt = Some f' \<Longrightarrow> f_noexec f' = (f_noexec f \<or> opt = ''noexec'')"
  by (elim flag_step_cases) simp_all

lemma flag_step_nodiratime: "flag_step f opt = Some f' \<Longrightarrow> f_nodiratime f' = (f_nodiratime f \<or> opt = ''nodiratime'')"
  by (elim flag_step_cases) simp_all

lemma flag_step_nosymfollow: "flag_step f opt = Some f' \<Longrightarrow> f_nosymfollow f' = (f_nosymfollow f \<or> opt = ''nosymfollow'')"
  by (elim flag_step_cases) simp_all

text \<open>One field of the flags through the loop: it is set when it was, or when one of the options
  sets it.\<close>

lemma flag_loop_field:
  assumes "flag_loop f opts = Some g"
    and step: "\<And>f f' opt. flag_step f opt = Some f' \<Longrightarrow> fld f' = (fld f \<or> opt = name)"
  shows "fld g = (fld f \<or> name \<in> set opts)"
  using assms(1)
proof (induction opts arbitrary: f)
  case (Cons opt opts)
  then obtain f' where f': "flag_step f opt = Some f'" "flag_loop f' opts = Some g"
    by (auto split: option.splits)
  show ?case using Cons.IH [OF f'(2)] step [OF f'(1)] by auto
qed simp

lemmas flag_fields =
  flag_loop_field [where fld = f_rdonly, OF _ flag_step_rdonly]
  flag_loop_field [where fld = f_nosuid, OF _ flag_step_nosuid]
  flag_loop_field [where fld = f_nodev, OF _ flag_step_nodev]
  flag_loop_field [where fld = f_noexec, OF _ flag_step_noexec]
  flag_loop_field [where fld = f_nodiratime, OF _ flag_step_nodiratime]
  flag_loop_field [where fld = f_nosymfollow, OF _ flag_step_nosymfollow]

text \<open>What a remount sets is what the mount table showed: when the options can be set again,
  every flag is set exactly when the table lists it, and a mount is read-only for the way back
  exactly when it was in the decoy.\<close>

theorem per_mount_flags_faithful:
  assumes "per_mount_flags (mount_opts m) = Some g"
  shows "f_rdonly g = read_only m
       \<and> f_nosuid g = (''nosuid'' \<in> set (split_on (CHR '','') (mount_opts m)))
       \<and> f_nodev g = (''nodev'' \<in> set (split_on (CHR '','') (mount_opts m)))
       \<and> f_noexec g = (''noexec'' \<in> set (split_on (CHR '','') (mount_opts m)))
       \<and> f_nodiratime g = (''nodiratime'' \<in> set (split_on (CHR '','') (mount_opts m)))
       \<and> f_nosymfollow g = (''nosymfollow'' \<in> set (split_on (CHR '','') (mount_opts m)))"
  using flag_fields [OF assms [unfolded per_mount_flags_def]] by (simp add: no_flags_def read_only_def)

theorem per_mount_flags_faithful_witness:
  "f_nodev no_flags = (''nodev'' \<in> set (split_on (CHR '','') (mount_opts next_mount)))"
proof -
  have "per_mount_flags (mount_opts next_mount) = Some no_flags" by code_simp
  from per_mount_flags_faithful [OF this] show ?thesis by simp
qed

end
