(* ===== verification/Attach_Gate.thy ===== *)
theory Attach_Gate
  imports Separation Session_Plan
begin

text \<open>
  The attach gate, \<^verbatim>\<open>nails-base/src/hidden_root/mod.rs\<close>, with the operator's sentences of
  \<^verbatim>\<open>hidden_root/refusal.rs\<close> and the inputs of the judge of \<^verbatim>\<open>hidden_root/separation/collect.rs\<close>.  The
  \<^verbatim>\<open>Filesystem\<close> trait is a record of what the host answers; the walk over one device's sysfs entries
  (\<^verbatim>\<open>nails-base/src/blockdev\<close>) and the \<^verbatim>\<open>serde\<close> readers of the plan are fields of it too.  The search for
  a covered mount follows parents with \<^verbatim>\<open>std::iter::successors\<close> and need not end: it is a partial
  function, and \<^const>\<open>None\<close> stands for not returning.  The locale \<open>gate\<close> is what a writer relies on.
\<close>

section \<open>Definitions\<close>

subsection \<open>The host\<close>

datatype nails_error = FsError bytes | InvalidState bytes

datatype dm_kind = DmCrypt bytes | DmCryptSubdev | DmIntegrity | DmVerity | DmVeraCrypt | DmLvm | DmOther

datatype loop_backing = BackedByFile path | BackedByBlock bytes

record layer =
  ly_sysfs :: path
  ly_name :: bytes
  ly_dev :: "bytes option"
  ly_dm :: "(bytes \<times> dm_kind) option"
  ly_slaves :: "bytes list"
  ly_disk :: "bytes option option"
  ly_loop :: "loop_backing option"

record fs_view =
  path_exists :: "path \<Rightarrow> nails_error + bool"
  mount_table :: "nails_error + mount_entry list"
  canonicalize :: "path \<Rightarrow> path option"
  device_id :: "path \<Rightarrow> nails_error + 64 word"
  read_content :: "path \<Rightarrow> nails_error + bytes"
  list_directory :: "path \<Rightarrow> nails_error + path list"
  loop_backing_device :: "path \<Rightarrow> 64 word option"
  dev_stack :: "path \<Rightarrow> layer list"
  resolve_spec :: "bytes \<Rightarrow> path option"
  btrfs_members :: "bytes \<Rightarrow> bytes list"
  plan_version :: "bytes \<Rightarrow> bytes + nat"
  plan_reader :: "bytes \<Rightarrow> bytes + plan"
  running_binary :: path

subsection \<open>The judge's inputs\<close>

definition SYS_CLASS_BLOCK :: path where "SYS_CLASS_BLOCK = ''/sys/class/block''"

text \<open>The two halves of a device number, as the C library packs them.\<close>

definition dev_major :: "64 word \<Rightarrow> nat" where
  "dev_major dev = unat (or (and (drop_bit 32 dev) 0xfffff000) (and (drop_bit 8 dev) 0xfff))"

definition dev_minor :: "64 word \<Rightarrow> nat" where
  "dev_minor dev = unat (or (and (drop_bit 12 dev) 0xffffff00) (and dev 0xff))"

definition base_name :: "path \<Rightarrow> bytes option" where
  "base_name p = (case components p of [] \<Rightarrow> None | cs \<Rightarrow> (case last cs of Normal n \<Rightarrow> Some (utf8_lossy n) | _ \<Rightarrow> None))"

definition file_holder_of :: "fs_view \<Rightarrow> mount_entry list \<Rightarrow> bytes \<Rightarrow> path \<Rightarrow> file_holder" where
  "file_holder_of fs mounts name f =
     (case loop_backing_device fs (join ''/dev'' name) of
        None \<Rightarrow> Unreadable (join ''/dev'' name)
      | Some dev \<Rightarrow>
          (let number = show_nat (dev_major dev) @ '':'' @ show_nat (dev_minor dev) in
           if \<exists>m\<in>set mounts. m_dev m = number then HeldByMount number
           else (case mount_holding mounts f of
                   Some m \<Rightarrow> if device_id fs f = Inr dev then HeldByMount (m_dev m) else Unplaced
                 | None \<Rightarrow> Unplaced)))"

text \<open>\<^verbatim>\<open>BTreeMap::insert\<close> replaces a value: the newest pair is found first.\<close>

definition add_layer :: "fs_view \<Rightarrow> mount_entry list \<Rightarrow> device_map \<Rightarrow> layer \<Rightarrow> device_map" where
  "add_layer fs mounts d ly =
     (let name = (case base_name (ly_sysfs ly) of None \<Rightarrow> ly_name ly | Some n \<Rightarrow> n) in
      if map_of (dev_nodes d) name \<noteq> None then d
      else
        (let specs = (case ly_dm ly of Some (dm, _) \<Rightarrow> [(''/dev/mapper/'' @ dm, name)] | None \<Rightarrow> []);
             (kind, below) =
               (case ly_dm ly of
                  Some (dm, k) \<Rightarrow>
                    (case k of DmCrypt _ \<Rightarrow> (Crypt dm, []) | DmCryptSubdev \<Rightarrow> (Crypt dm, []) | DmVeraCrypt \<Rightarrow> (Crypt dm, [])
                     | _ \<Rightarrow> (Mapper dm, []))
                | None \<Rightarrow>
                    (case ly_loop ly of
                       Some (BackedByFile f) \<Rightarrow> (Loop (Some \<lparr>lf_path = f, lf_holder = file_holder_of fs mounts name f\<rparr>), [])
                     | Some (BackedByBlock b) \<Rightarrow> (Loop None, [b])
                     | None \<Rightarrow>
                         (case ly_disk ly of
                            Some disk \<Rightarrow> (Partition (case disk of None \<Rightarrow> [] | Some x \<Rightarrow> x), [])
                          | None \<Rightarrow> (Disk, []))))
         in d\<lparr>dev_nodes := (name, \<lparr>dn_kind = kind, dn_below = ly_slaves ly @ below\<rparr>) # dev_nodes d,
              by_dev := (case ly_dev ly of None \<Rightarrow> by_dev d | Some dev \<Rightarrow> (dev, name) # by_dev d),
              by_spec := (''/dev/'' @ name, name) # specs @ by_spec d\<rparr>))"

definition read_optional :: "fs_view \<Rightarrow> path \<Rightarrow> bytes option \<times> path list" where
  "read_optional fs p =
     (case path_exists fs p of
        Inl _ \<Rightarrow> (None, [p])
      | Inr False \<Rightarrow> (None, [])
      | Inr True \<Rightarrow> (case read_content fs p of Inl _ \<Rightarrow> (None, [p]) | Inr text \<Rightarrow> (Some text, [])))"

definition add_spec :: "fs_view \<Rightarrow> device_map \<Rightarrow> bytes \<Rightarrow> device_map" where
  "add_spec fs d s =
     (if map_of (by_spec d) s \<noteq> None then d
      else (case Option.bind (resolve_spec fs s) base_name of
              None \<Rightarrow> d
            | Some name \<Rightarrow> d\<lparr>by_spec := (s, name) # by_spec d\<rparr>))"

definition add_btrfs :: "fs_view \<Rightarrow> device_map \<Rightarrow> bytes \<Rightarrow> device_map" where
  "add_btrfs fs d name =
     (if \<exists>members\<in>set (btrfs_sets d). name \<in> set members then d
      else if btrfs_members fs name = [] then d
      else d\<lparr>btrfs_sets := btrfs_sets d @ [btrfs_members fs name]\<rparr>)"

definition empty_devices :: device_map where
  "empty_devices = \<lparr>dev_nodes = [], by_dev = [], by_spec = [], btrfs_sets = []\<rparr>"

definition collect_scene :: "fs_view \<Rightarrow> mount_entry list \<Rightarrow> path \<Rightarrow> scene" where
  "collect_scene fs mounts etc_root =
     (let (fstab_text, u1) = read_optional fs (join etc_root ''etc/fstab'');
          (crypttab_text, u2) = read_optional fs (join etc_root ''etc/crypttab'');
          fstab = (case fstab_text of None \<Rightarrow> [] | Some t \<Rightarrow> parse_fstab t);
          crypttab = (case crypttab_text of None \<Rightarrow> [] | Some t \<Rightarrow> parse_crypttab t);
          (d1, u3) = (case list_directory fs SYS_CLASS_BLOCK of
                        Inl _ \<Rightarrow> (empty_devices, [SYS_CLASS_BLOCK])
                      | Inr es \<Rightarrow> (foldl (add_layer fs mounts) empty_devices (concat (map (dev_stack fs) es)), []));
          specs = map spec fstab @ concat (map (\<lambda>e. [ct_source e, ''/dev/mapper/'' @ ct_name e]) crypttab)
                  @ map (\<lambda>m. utf8_lossy (m_source m)) mounts;
          d2 = foldl (add_spec fs) d1 specs;
          d3 = foldl (add_btrfs fs) d2 (map fst (dev_nodes d2))
      in \<lparr>sc_mounts = mounts, sc_fstab = fstab, sc_crypttab = crypttab, sc_devices = d3, sc_unreadable = u1 @ u2 @ u3\<rparr>)"

definition judge_storage :: "fs_view \<Rightarrow> mount_entry list \<Rightarrow> mount_entry \<Rightarrow> path \<Rightarrow> judgement" where
  "judge_storage fs mounts hidden etc_root =
     judge (if is_ram (m_fstype hidden)
            then \<lparr>sc_mounts = mounts, sc_fstab = [], sc_crypttab = [], sc_devices = empty_devices, sc_unreadable = []\<rparr>
            else collect_scene fs mounts etc_root) hidden"

subsection \<open>Refusals\<close>

datatype refusal_kind =
  NotConfigured
| Missing
| MountTableUnreadable bytes
| NotAMountPoint path
| Covered bytes bytes
| NotTheSessionVolume bytes
| DecoyStorage verdict
| StorageUnjudged "path list"
| StorageUntraced verdict
| SameDeviceAsRoot

record refusal =
  rf_kind :: refusal_kind
  rf_reason :: bytes
  rf_root :: path

datatype assessment = Attached | Warned refusal | Refused refusal

datatype attach_state = AttachedState | Unattached bytes

datatype allow = AllowNothing | AllowDecoyStorage

definition is_attached :: "assessment \<Rightarrow> bool" where
  "is_attached a = (case a of Refused _ \<Rightarrow> False | _ \<Rightarrow> True)"

definition covers :: "allow \<Rightarrow> refusal_kind \<Rightarrow> bool" where
  "covers a k \<longleftrightarrow> a = AllowDecoyStorage \<and> (case k of DecoyStorage _ \<Rightarrow> True | _ \<Rightarrow> False)"

definition NOT_SEPARATE_VOLUME :: bytes where "NOT_SEPARATE_VOLUME = ''not_separate_volume''"
definition ROOT_COVERED :: bytes where "ROOT_COVERED = ''root_covered''"
definition STORAGE_UNJUDGED :: bytes where "STORAGE_UNJUDGED = ''storage_unjudged''"
definition OVERRIDE_CONSEQUENCE :: bytes where
  "OVERRIDE_CONSEQUENCE = ''everything written there lands on that storage''"

definition refusal_code :: "refusal_kind \<Rightarrow> bytes" where
  "refusal_code k =
     (case k of
        Covered _ _ \<Rightarrow> ROOT_COVERED | NotTheSessionVolume _ \<Rightarrow> ROOT_COVERED
      | StorageUnjudged _ \<Rightarrow> STORAGE_UNJUDGED | StorageUntraced _ \<Rightarrow> STORAGE_UNJUDGED
      | NotConfigured \<Rightarrow> NOT_SEPARATE_VOLUME | Missing \<Rightarrow> NOT_SEPARATE_VOLUME
      | MountTableUnreadable _ \<Rightarrow> NOT_SEPARATE_VOLUME | NotAMountPoint _ \<Rightarrow> NOT_SEPARATE_VOLUME
      | DecoyStorage _ \<Rightarrow> NOT_SEPARATE_VOLUME | SameDeviceAsRoot \<Rightarrow> NOT_SEPARATE_VOLUME)"

definition refusal_why :: "refusal_kind \<Rightarrow> bytes option" where
  "refusal_why k =
     (case k of
        NotAMountPoint p \<Rightarrow> Some (''it is a folder on the filesystem mounted at '' @ utf8_lossy p)
      | DecoyStorage v \<Rightarrow> Some (reason v)
      | SameDeviceAsRoot \<Rightarrow> Some ''it is on the device that holds /''
      | _ \<Rightarrow> None)"

definition shown_input :: "path \<Rightarrow> bytes" where
  "shown_input p = (if path_starts_with p ''/dev'' then ''the record of a loop device'' else utf8_lossy p)"

definition without_it :: "bytes \<Rightarrow> bytes" where
  "without_it s = (case strip_prefix ''it '' s of None \<Rightarrow> s | Some r \<Rightarrow> r)"

definition sentence :: "refusal_kind \<Rightarrow> path \<Rightarrow> bytes" where
  "sentence k r =
     (let root = utf8_lossy r in
      case k of
        NotConfigured \<Rightarrow> ''no root folder is configured''
      | Missing \<Rightarrow> root @ '' does not exist''
      | MountTableUnreadable e \<Rightarrow>
          ''nothing shows that '' @ root @ '' is a volume of its own: the mount table cannot be read ('' @ e @ '')''
      | NotAMountPoint _ \<Rightarrow> root @ '' is not a volume of its own: '' @ (case refusal_why k of None \<Rightarrow> [] | Some w \<Rightarrow> w)
      | DecoyStorage _ \<Rightarrow> root @ '' is not a volume of its own: '' @ (case refusal_why k of None \<Rightarrow> [] | Some w \<Rightarrow> w)
      | SameDeviceAsRoot \<Rightarrow> root @ '' is not a volume of its own: '' @ (case refusal_why k of None \<Rightarrow> [] | Some w \<Rightarrow> w)
      | Covered lower upper \<Rightarrow>
          ''two filesystems are mounted at '' @ root @ '': one of type '' @ lower @ '', then one of type '' @ upper @ '' over it''
      | NotTheSessionVolume fstype \<Rightarrow>
          ''the filesystem at '' @ root @ '' (of type '' @ fstype @ '') is not the volume this session started from''
      | StorageUntraced v \<Rightarrow> root @ '' '' @ without_it (reason v) @ '', so where it lives cannot be told''
      | StorageUnjudged unreadable \<Rightarrow>
          ''could not read '' @ join_with '', '' (map shown_input unreadable) @ '' to tell where '' @ root @ '' lives'')"

definition new_refusal :: "refusal_kind \<Rightarrow> path \<Rightarrow> refusal" where
  "new_refusal k root = \<lparr>rf_kind = k, rf_reason = sentence k root, rf_root = root\<rparr>"

definition refusal_message :: "refusal \<Rightarrow> bytes" where
  "refusal_message r = rf_reason r @ ''. Nothing was written.''"

definition overridden :: "refusal \<Rightarrow> bool" where
  "overridden r = (case rf_kind r of DecoyStorage v \<Rightarrow> severity_of v = severity.Refuse | _ \<Rightarrow> False)"

definition refusal_warning :: "refusal \<Rightarrow> bytes" where
  "refusal_warning r =
     (case refusal_why (rf_kind r) of
        None \<Rightarrow> rf_reason r
      | Some why \<Rightarrow>
          if overridden r
          then ''--allow-decoy-storage: using '' @ utf8_lossy (rf_root r) @ '' although '' @ why @ ''; '' @ OVERRIDE_CONSEQUENCE
          else utf8_lossy (rf_root r) @ '' '' @ without_it why)"

definition show_nails_error :: "nails_error \<Rightarrow> bytes" where
  "show_nails_error e = (case e of FsError m \<Rightarrow> m | InvalidState m \<Rightarrow> ''Invalid state: '' @ m)"

subsection \<open>Stacked mounts\<close>

definition below_at :: "mount_entry list \<Rightarrow> mount_entry \<Rightarrow> mount_entry \<Rightarrow> mount_entry option" where
  "below_at table tp over =
     find (\<lambda>m. mount_id m = parent_id over \<and> mount_id m \<noteq> mount_id over \<and> path_eq (mount_point m) (mount_point tp)) table"

partial_function (option) covered_search ::
    "mount_entry list \<Rightarrow> mount_entry \<Rightarrow> mount_entry \<Rightarrow> mount_entry option option" where
  "covered_search table tp over =
     (case below_at table tp over of
        None \<Rightarrow> Some None
      | Some m \<Rightarrow> if m_dev m \<noteq> m_dev tp then Some (Some m) else covered_search table tp m)"

declare covered_search.simps [code]

definition covered_mount :: "mount_entry list \<Rightarrow> mount_entry \<Rightarrow> mount_entry option option" where
  "covered_mount table tp = covered_search table tp tp"

definition covering_parent :: "mount_entry list \<Rightarrow> path \<Rightarrow> bytes option \<Rightarrow> mount_entry option" where
  "covering_parent table root recorded =
     (case find (\<lambda>m. path_eq (mount_point m) root \<and> is_none_or recorded (\<lambda>dev. m_dev m = dev)) table of
        None \<Rightarrow> None
      | Some volume \<Rightarrow>
          (case mount_holding table root of
             None \<Rightarrow> None
           | Some holder \<Rightarrow> if m_dev holder \<noteq> m_dev volume then Some holder else None))"

definition shadowing_mount :: "mount_entry list \<Rightarrow> path \<Rightarrow> bytes option \<Rightarrow> mount_entry option option" where
  "shadowing_mount table root recorded =
     (case top_mount_at table root of
        None \<Rightarrow> Some (covering_parent table root recorded)
      | Some visible \<Rightarrow>
          (case recorded of
             Some dev \<Rightarrow> Some (if m_dev visible \<noteq> dev then Some visible else None)
           | None \<Rightarrow> map_option (\<lambda>c. if c \<noteq> None then Some visible else None) (covered_mount table visible)))"

subsection \<open>The gate\<close>

definition recorded_plan :: "fs_view \<Rightarrow> plan option" where
  "recorded_plan fs =
     (case read_content fs default_plan_path of
        Inl _ \<Rightarrow> None
      | Inr text \<Rightarrow> (case from_json (plan_version fs) (plan_reader fs) text of Inl _ \<Rightarrow> None | Inr p \<Rightarrow> Some p))"

definition recorded_hidden_dev :: "fs_view \<Rightarrow> bytes option" where
  "recorded_hidden_dev fs = Option.bind (recorded_plan fs) p_hidden_dev"

definition recorded_acceptance :: "fs_view \<Rightarrow> bytes option" where
  "recorded_acceptance fs = Option.bind (recorded_plan fs) p_accepted_decoy_storage"

definition holds_the_session_volume :: "fs_view \<Rightarrow> path \<Rightarrow> mount_entry \<Rightarrow> bytes option \<Rightarrow> bool" where
  "holds_the_session_volume fs root visible recorded =
     (case recorded of
        Some dev \<Rightarrow> m_dev visible = dev
      | None \<Rightarrow>
          (case (device_id fs (join (join root ''root'') ''upper''), device_id fs root) of
             (Inr upper_dev, Inr root_dev) \<Rightarrow> upper_dev = root_dev
           | _ \<Rightarrow> False))"

text \<open>Step 5: the verdict of the judge as a refusal, a warning or nothing.\<close>

definition storage_step :: "verdict \<Rightarrow> path \<Rightarrow> refusal + refusal option" where
  "storage_step v root =
     (case v of
        CouldNotJudge unreadable \<Rightarrow> Inl (new_refusal (StorageUnjudged unreadable) root)
      | UntracedStorage _ \<Rightarrow> Inl (new_refusal (StorageUntraced v) root)
      | UnplacedImageFile _ \<Rightarrow> Inl (new_refusal (StorageUntraced v) root)
      | _ \<Rightarrow>
          (case severity_of v of
             Pass \<Rightarrow> Inr None
           | severity.Refuse \<Rightarrow> Inl (new_refusal (DecoyStorage v) root)
           | Warn \<Rightarrow> Inr (Some (new_refusal (DecoyStorage v) root))))"

definition device_step :: "fs_view \<Rightarrow> path \<Rightarrow> refusal option \<Rightarrow> nails_error + assessment" where
  "device_step fs root warning =
     (case device_id fs root of
        Inl e \<Rightarrow> Inl e
      | Inr a \<Rightarrow>
          (case device_id fs ''/'' of
             Inl e \<Rightarrow> Inl e
           | Inr b \<Rightarrow>
               if a = b then Inr (Refused (new_refusal SameDeviceAsRoot root))
               else Inr (case warning of None \<Rightarrow> Attached | Some r \<Rightarrow> Warned r)))"

definition canonical_root :: "fs_view \<Rightarrow> path \<Rightarrow> path" where
  "canonical_root fs p = (case canonicalize fs p of None \<Rightarrow> p | Some q \<Rightarrow> q)"

definition visible_step :: "fs_view \<Rightarrow> path \<Rightarrow> mount_entry list \<Rightarrow> mount_entry \<Rightarrow> mount_entry option \<Rightarrow> nails_error + assessment" where
  "visible_step fs root table visible covered =
     (case covered of
        Some below \<Rightarrow> Inr (Refused (new_refusal (Covered (shown_fstype (m_fstype below)) (shown_fstype (m_fstype visible))) root))
      | None \<Rightarrow>
          (let canonical = canonical_root fs root;
               in_session = (root_is_hidden_overlay table canonical \<noteq> None)
           in if in_session \<and> \<not> holds_the_session_volume fs canonical visible (recorded_hidden_dev fs)
              then Inr (Refused (new_refusal (NotTheSessionVolume (shown_fstype (m_fstype visible))) root))
              else if in_session then device_step fs root None
              else (case storage_step (j_verdict (judge_storage fs table visible ''/'')) root of
                      Inl r \<Rightarrow> Inr (Refused r)
                    | Inr warning \<Rightarrow> device_step fs root warning)))"

definition assess :: "fs_view \<Rightarrow> path \<Rightarrow> (nails_error + assessment) option" where
  "assess fs root =
     (if root = [] then Some (Inr (Refused (new_refusal NotConfigured root)))
      else (case path_exists fs root of
          Inl e \<Rightarrow> Some (Inl e)
        | Inr False \<Rightarrow> Some (Inr (Refused (new_refusal Missing root)))
        | Inr True \<Rightarrow>
            (case mount_table fs of
               Inl e \<Rightarrow> Some (Inr (Refused (new_refusal (MountTableUnreadable (show_nails_error e)) root)))
             | Inr table \<Rightarrow>
                 (case top_mount_at table (canonical_root fs root) of
                    None \<Rightarrow>
                      Some (Inr (Refused (new_refusal (NotAMountPoint
                        (case mount_holding table (canonical_root fs root) of None \<Rightarrow> ''/'' | Some m \<Rightarrow> mount_point m)) root)))
                  | Some visible \<Rightarrow>
                      map_option (visible_step fs root table visible) (covered_mount table visible)))))"

definition assess_allowing :: "fs_view \<Rightarrow> path \<Rightarrow> allow \<Rightarrow> (nails_error + assessment) option" where
  "assess_allowing fs root alw =
     map_option (\<lambda>r. case r of
         Inr (Refused refusal) \<Rightarrow> Inr (if covers alw (rf_kind refusal) then Warned refusal else Refused refusal)
       | x \<Rightarrow> x) (assess fs root)"

definition MARKER_STATE_FILE :: path where "MARKER_STATE_FILE = ''state.json''"
definition MARKER_CONFIG_DIR :: path where "MARKER_CONFIG_DIR = ''config''"
definition MARKER_CONFIG_FILE :: path where "MARKER_CONFIG_FILE = ''nails.toml''"

definition has_marker :: "fs_view \<Rightarrow> path \<Rightarrow> nails_error + bool" where
  "has_marker fs root =
     (case path_exists fs (join root MARKER_STATE_FILE) of
        Inl e \<Rightarrow> Inl e
      | Inr True \<Rightarrow> Inr True
      | Inr False \<Rightarrow> path_exists fs (join (join root MARKER_CONFIG_DIR) MARKER_CONFIG_FILE))"

definition verify_attached :: "fs_view \<Rightarrow> path \<Rightarrow> bool \<Rightarrow> (nails_error + attach_state) option" where
  "verify_attached fs root require_marker =
     map_option (\<lambda>r. case r of
         Inl e \<Rightarrow> Inl e
       | Inr (Refused refusal) \<Rightarrow> Inr (Unattached (rf_reason refusal))
       | Inr _ \<Rightarrow>
           if \<not> require_marker then Inr AttachedState
           else (case has_marker fs root of
                   Inl e \<Rightarrow> Inl e
                 | Inr True \<Rightarrow> Inr AttachedState
                 | Inr False \<Rightarrow>
                     Inr (Unattached (''hidden root '' @ utf8_lossy root @ '' is mounted but holds no NAILS marker (''
                       @ MARKER_STATE_FILE @ '' or '' @ MARKER_CONFIG_DIR @ ''/'' @ MARKER_CONFIG_FILE @ ''); run `sudo ''
                       @ utf8_lossy (running_binary fs) @ '' init <root>` on the hidden volume first''))))
       (assess fs root)"

definition state_refused :: "bytes \<Rightarrow> nails_error + 'a" where
  "state_refused why = Inl (InvalidState (''refusing to write state outside the mounted hidden volume: '' @ why))"

definition state_dir_step :: "fs_view \<Rightarrow> path \<Rightarrow> path \<Rightarrow> nails_error + unit" where
  "state_dir_step fs r p =
     (let root = canonical_root fs r; dir = canonical_root fs p in
      if \<not> path_starts_with dir root
      then state_refused (utf8_lossy dir @ '' is not inside the hidden root '' @ utf8_lossy root)
      else (case mount_table fs of
          Inl e \<Rightarrow> Inl e
        | Inr table \<Rightarrow>
            (let root_mount = map_option mount_id (mount_holding table root); holder = mount_holding table dir in
             if holder \<noteq> None \<and> map_option mount_id holder = root_mount then Inr ()
             else state_refused (utf8_lossy dir @ '' is on another filesystem (''
                    @ utf8_lossy (case holder of None \<Rightarrow> ''/'' | Some m \<Rightarrow> mount_point m)
                    @ '') mounted inside the hidden root '' @ utf8_lossy root))))"

definition ensure_state_dir_attached_allowing :: "fs_view \<Rightarrow> path \<Rightarrow> path \<Rightarrow> allow \<Rightarrow> (nails_error + unit) option" where
  "ensure_state_dir_attached_allowing fs root dir alw =
     map_option (\<lambda>r. case r of
         Inl e \<Rightarrow> Inl e
       | Inr (Refused refusal) \<Rightarrow> state_refused (rf_reason refusal)
       | Inr _ \<Rightarrow> state_dir_step fs root dir) (assess_allowing fs root alw)"

definition ensure_state_dir_attached :: "fs_view \<Rightarrow> path \<Rightarrow> path \<Rightarrow> (nails_error + unit) option" where
  "ensure_state_dir_attached fs root dir = ensure_state_dir_attached_allowing fs root dir AllowNothing"

section \<open>Lemmas\<close>

text \<open>What a mount stands on at its own mount point, following parents.\<close>

definition stands_on :: "mount_entry list \<Rightarrow> mount_entry \<Rightarrow> (mount_entry \<times> mount_entry) set" where
  "stands_on table tp = {(m, l). below_at table tp m = Some l}"

lemma covered_search_None:
  assumes "(m, l) \<in> (stands_on table tp)\<^sup>*" "covered_search table tp m = Some None"
  shows "l = m \<or> m_dev l = m_dev tp"
  using assms
proof (induction rule: converse_rtrancl_induct)
  case (step m n)
  then have "below_at table tp m = Some n" by (simp add: stands_on_def)
  then have "m_dev n = m_dev tp \<and> covered_search table tp n = Some None"
    using step.prems by (subst (asm) covered_search.simps) (auto split: if_splits)
  then show ?case using step.IH by auto
qed simp

lemma covered_mount_None:
  assumes "covered_mount table tp = Some None" "(tp, l) \<in> (stands_on table tp)\<^sup>*"
  shows "m_dev l = m_dev tp"
  using covered_search_None [OF assms(2)] assms(1) by (auto simp: covered_mount_def)

text \<open>A table whose parents have ranks below their children: no chain of parents comes back.\<close>

definition ranked :: "(int \<Rightarrow> nat) \<Rightarrow> mount_entry list \<Rightarrow> bool" where
  "ranked rank table \<longleftrightarrow>
     (\<forall>m\<in>set table. parent_id m = mount_id m \<or> rank (parent_id m) < rank (mount_id m))"

lemma below_atD:
  assumes "below_at table tp m = Some l"
  shows "l \<in> set table" "mount_id l = parent_id m" "mount_id l \<noteq> mount_id m" "path_eq (mount_point l) (mount_point tp)"
  using assms by (auto simp: below_at_def find_Some_iff in_set_conv_nth)

lemma covered_search_returns:
  assumes "ranked rank table" "m \<in> set table"
  shows "\<exists>y. covered_search table tp m = Some y"
  using assms(2)
proof (induction "rank (mount_id m)" arbitrary: m rule: less_induct)
  case less
  show ?case
  proof (cases "below_at table tp m")
    case None
    then show ?thesis by (subst covered_search.simps) simp
  next
    case (Some l)
    note l = below_atD [OF Some]
    then have "rank (mount_id l) < rank (mount_id m)"
      using assms(1) less.prems by (force simp: ranked_def)
    then have "\<exists>y. covered_search table tp l = Some y" using less.hyps l(1) by blast
    then show ?thesis using Some by (subst covered_search.simps) simp
  qed
qed

lemma top_mount_at_in: "top_mount_at table p = Some m \<Longrightarrow> m \<in> set table"
  using top_mount_at_components_SomeD unfolding top_mount_at_def by (auto split: if_splits)

text \<open>The gate's steps, read backwards from its verdict.\<close>

lemma storage_step_Inr:
  assumes "storage_step v root = Inr w"
  shows "(v = Separate \<and> w = None) \<or> (severity_of v = Warn \<and> w = Some (new_refusal (DecoyStorage v) root))"
  using assms by (cases v; cases "severity_of v") (auto simp: storage_step_def severity_of_def severity_with_def CONTAINER_VERDICT_def split: if_splits)

definition traced :: "verdict \<Rightarrow> bool" where
  "traced v = (case v of CouldNotJudge _ \<Rightarrow> False | UntracedStorage _ \<Rightarrow> False | UnplacedImageFile _ \<Rightarrow> False | _ \<Rightarrow> True)"

lemma storage_step_Inl:
  assumes "storage_step v root = Inl r" "rf_kind r = DecoyStorage w"
  shows "w = v \<and> severity_of v = severity.Refuse \<and> traced v"
  using assms by (cases v; cases "severity_of v") (auto simp: storage_step_def new_refusal_def traced_def)

lemma device_step_Inr:
  assumes "device_step fs root w = Inr a"
  shows "\<exists>x y. device_id fs root = Inr x \<and> device_id fs ''/'' = Inr y
    \<and> a = (if x = y then Refused (new_refusal SameDeviceAsRoot root) else case w of None \<Rightarrow> Attached | Some r \<Rightarrow> Warned r)"
  using assms by (auto simp: device_step_def split: sum.splits if_splits)

text \<open>What stands behind every verdict that lets a command write: the root is a mount of its own that
  covers no other volume, it is the volume the session started from, and out of a session the judge
  has said where it lives.\<close>

definition root_in_place :: "fs_view \<Rightarrow> path \<Rightarrow> (verdict \<Rightarrow> bool) \<Rightarrow> bool" where
  "root_in_place fs root accepted \<longleftrightarrow>
     root \<noteq> [] \<and> path_exists fs root = Inr True
     \<and> (\<exists>table visible. mount_table fs = Inr table \<and> top_mount_at table (canonical_root fs root) = Some visible
          \<and> (\<forall>l. (visible, l) \<in> (stands_on table visible)\<^sup>* \<longrightarrow> m_dev l = m_dev visible)
          \<and> (if root_is_hidden_overlay table (canonical_root fs root) \<noteq> None
             then holds_the_session_volume fs (canonical_root fs root) visible (recorded_hidden_dev fs)
             else accepted (j_verdict (judge_storage fs table visible ''/''))))"

lemma assess_visible:
  assumes "assess fs root = Some (Inr a)" "\<And>r. a = Refused r \<Longrightarrow> \<exists>v. rf_kind r = DecoyStorage v"
  obtains table visible where "root \<noteq> []" "path_exists fs root = Inr True" "mount_table fs = Inr table"
    "top_mount_at table (canonical_root fs root) = Some visible" "covered_mount table visible = Some None"
    "visible_step fs root table visible None = Inr a"
proof -
  have kinds: "rf_kind (new_refusal k p) = k" for k p by (simp add: new_refusal_def)
  obtain table visible c where *: "root \<noteq> []" "path_exists fs root = Inr True" "mount_table fs = Inr table"
    "top_mount_at table (canonical_root fs root) = Some visible" "covered_mount table visible = Some c"
    "visible_step fs root table visible c = Inr a"
    using assms by (auto simp: assess_def kinds split: if_splits sum.splits bool.splits option.splits)
  have "c = None" using *(6) assms(2) by (cases c) (auto simp: visible_step_def kinds)
  with * that show thesis by blast
qed

lemma visible_step_cases:
  assumes "visible_step fs root table visible None = Inr a" "\<And>r. a = Refused r \<Longrightarrow> \<exists>v. rf_kind r = DecoyStorage v"
  shows "if root_is_hidden_overlay table (canonical_root fs root) \<noteq> None
     then holds_the_session_volume fs (canonical_root fs root) visible (recorded_hidden_dev fs) \<and> device_step fs root None = Inr a
     else (let v = j_verdict (judge_storage fs table visible ''/'') in
       (v = Separate \<and> device_step fs root None = Inr a)
       \<or> (severity_of v = Warn \<and> device_step fs root (Some (new_refusal (DecoyStorage v) root)) = Inr a)
       \<or> (severity_of v = severity.Refuse \<and> traced v \<and> a = Refused (new_refusal (DecoyStorage v) root)))"
proof (cases "root_is_hidden_overlay table (canonical_root fs root) \<noteq> None")
  case True
  then show ?thesis using assms by (auto simp: visible_step_def Let_def new_refusal_def split: if_splits)
next
  case False
  let ?v = "j_verdict (judge_storage fs table visible ''/'')"
  show ?thesis
  proof (cases "storage_step ?v root")
    case (Inl r)
    then have a: "a = Refused r" using assms(1) False by (simp add: visible_step_def)
    then obtain w where w: "rf_kind r = DecoyStorage w" using assms(2) by blast
    then have "w = ?v \<and> severity_of ?v = severity.Refuse \<and> traced ?v" using storage_step_Inl [OF Inl] by blast
    moreover have "r = new_refusal (rf_kind r) root"
      using Inl by (cases ?v; cases "severity_of ?v") (auto simp: storage_step_def new_refusal_def)
    ultimately show ?thesis using False a w by auto
  next
    case (Inr w)
    then have "device_step fs root w = Inr a" using assms(1) False by (simp add: visible_step_def)
    then show ?thesis using storage_step_Inr [OF Inr] False by (auto simp: Let_def)
  qed
qed

lemma assess_in_place:
  assumes "assess fs root = Some (Inr a)" "\<And>r. a = Refused r \<Longrightarrow> \<exists>v. rf_kind r = DecoyStorage v"
  shows "root_in_place fs root (\<lambda>v. case a of Attached \<Rightarrow> v = Separate
       | Warned _ \<Rightarrow> severity_of v = Warn | Refused _ \<Rightarrow> severity_of v = severity.Refuse \<and> traced v)"
proof -
  obtain table visible where *: "root \<noteq> []" "path_exists fs root = Inr True" "mount_table fs = Inr table"
    "top_mount_at table (canonical_root fs root) = Some visible" "covered_mount table visible = Some None"
    and v: "visible_step fs root table visible None = Inr a"
    using assess_visible [OF assms] by blast
  show ?thesis
    unfolding root_in_place_def
  proof (intro conjI exI [of _ table] exI [of _ visible] allI impI)
    fix l assume "(visible, l) \<in> (stands_on table visible)\<^sup>*"
    then show "m_dev l = m_dev visible" by (rule covered_mount_None [OF *(5)])
  next
    let ?v = "j_verdict (judge_storage fs table visible ''/'')"
    have d: "a = (case w of None \<Rightarrow> Attached | Some r \<Rightarrow> Warned r)" if "device_step fs root w = Inr a" for w
      using device_step_Inr [OF that] assms(2) by (auto simp: new_refusal_def split: if_splits)
    show "if root_is_hidden_overlay table (canonical_root fs root) \<noteq> None
      then holds_the_session_volume fs (canonical_root fs root) visible (recorded_hidden_dev fs)
      else case a of Attached \<Rightarrow> ?v = Separate | Warned _ \<Rightarrow> severity_of ?v = Warn
       | Refused _ \<Rightarrow> severity_of ?v = severity.Refuse \<and> traced ?v"
      using visible_step_cases [OF v assms(2)]
      by (simp add: Let_def del: One_nat_def split: if_splits) (elim disjE conjE; simp add: d)
  qed (use * in auto)
qed

lemma in_place_mono:
  assumes "root_in_place fs root P" "\<And>v. P v \<Longrightarrow> Q v"
  shows "root_in_place fs root Q"
proof -
  have *: "(if b then h else P v) \<Longrightarrow> (if b then h else Q v)" for b h v using assms(2) by (simp split: if_splits)
  show ?thesis using assms(1) unfolding root_in_place_def by (blast intro: *)
qed

lemma Warn_traced: "severity_of v = Warn \<Longrightarrow> traced v"
  by (cases v) (auto simp: severity_of_def severity_with_def traced_def)

subsection \<open>The gate as an interface\<close>

text \<open>What a writer relies on: an assessment that lets it through vouches for the root, and the check of a
  directory is the assessment of the root followed by the place of the directory.\<close>

definition inside :: "fs_view \<Rightarrow> path \<Rightarrow> path \<Rightarrow> bool" where
  "inside fs root dir \<longleftrightarrow> path_starts_with (canonical_root fs dir) (canonical_root fs root)
     \<and> (\<exists>table h r. mount_table fs = Inr table \<and> mount_holding table (canonical_root fs dir) = Some h
          \<and> mount_holding table (canonical_root fs root) = Some r \<and> mount_id h = mount_id r)"

definition vouched :: "allow \<Rightarrow> verdict \<Rightarrow> bool" where
  "vouched alw v \<longleftrightarrow> v = Separate \<or> severity_of v = Warn \<or> (alw = AllowDecoyStorage \<and> severity_of v = severity.Refuse \<and> traced v)"

locale gate =
  fixes assessed :: "'h \<Rightarrow> path \<Rightarrow> allow \<Rightarrow> (nails_error + assessment) option"
    and ensured :: "'h \<Rightarrow> path \<Rightarrow> path \<Rightarrow> allow \<Rightarrow> (nails_error + unit) option"
    and vouches :: "'h \<Rightarrow> path \<Rightarrow> allow \<Rightarrow> bool"
    and holds :: "'h \<Rightarrow> path \<Rightarrow> path \<Rightarrow> bool"
  assumes assessed_vouches: "assessed h root alw = Some (Inr a) \<Longrightarrow> is_attached a \<Longrightarrow> vouches h root alw"
    and ensured_assessed: "ensured h root dir alw = Some (Inr ()) \<Longrightarrow> \<exists>a. assessed h root alw = Some (Inr a) \<and> is_attached a"
    and ensured_holds: "ensured h root dir alw = Some (Inr ()) \<Longrightarrow> holds h root dir"
    and refused_stops: "assessed h root alw = Some (Inr (Refused r)) \<Longrightarrow>
          \<exists>why. ensured h root dir alw = Some (Inl (InvalidState (why @ rf_reason r)))"
    and errors_stop: "assessed h root alw = Some (Inl e) \<Longrightarrow> ensured h root dir alw = Some (Inl e)"
    and ensured_returns: "assessed h root alw \<noteq> None \<Longrightarrow> ensured h root dir alw \<noteq> None"
begin

lemma ensured_in_place:
  assumes "ensured h root dir alw = Some (Inr ())"
  shows "vouches h root alw \<and> holds h root dir"
  using ensured_assessed [OF assms] assessed_vouches ensured_holds [OF assms] by blast

lemma not_vouched_stops:
  assumes "assessed h root alw = Some x" "\<not> vouches h root alw"
  shows "(\<exists>e. x = Inl e \<and> ensured h root dir alw = Some (Inl e))
    \<or> (\<exists>r why. x = Inr (Refused r) \<and> ensured h root dir alw = Some (Inl (InvalidState (why @ rf_reason r))))"
proof (cases x)
  case (Inl e)
  then show ?thesis using assms(1) errors_stop by blast
next
  case (Inr a)
  then obtain r where "a = Refused r" using assms assessed_vouches by (cases a) (auto simp: is_attached_def)
  then show ?thesis using assms(1) Inr refused_stops by blast
qed

end

lemma assess_allowing_vouched:
  assumes "assess_allowing fs root alw = Some (Inr a)" "is_attached a"
  shows "root_in_place fs root (vouched alw)"
proof -
  obtain b where b: "assess fs root = Some (Inr b)"
    and r: "\<And>r. b = Refused r \<Longrightarrow> alw = AllowDecoyStorage \<and> (\<exists>v. rf_kind r = DecoyStorage v)"
    using assms
    by (cases "assess fs root"; cases "projr (the (assess fs root))"; cases "the (assess fs root)")
      (auto simp: assess_allowing_def is_attached_def covers_def split: if_splits refusal_kind.splits)
  have "root_in_place fs root (\<lambda>v. case b of Attached \<Rightarrow> v = Separate
       | Warned _ \<Rightarrow> severity_of v = Warn | Refused _ \<Rightarrow> severity_of v = severity.Refuse \<and> traced v)"
    using assess_in_place [OF b] r by blast
  then show ?thesis by (rule in_place_mono) (use r in \<open>auto simp: vouched_def split: assessment.splits\<close>)
qed

lemma state_dir_step_inside:
  assumes "state_dir_step fs root dir = Inr ()"
  shows "inside fs root dir"
proof (cases "mount_table fs")
  case (Inr table)
  then show ?thesis using assms
    by (cases "mount_holding table (canonical_root fs root)")
      (auto simp: state_dir_step_def inside_def state_refused_def Let_def split: if_splits)
qed (use assms in \<open>simp add: state_dir_step_def state_refused_def Let_def split: if_splits\<close>)

interpretation ag: gate assess_allowing ensure_state_dir_attached_allowing "\<lambda>fs root alw. root_in_place fs root (vouched alw)" inside
proof
  fix fs root dir alw
  assume e: "ensure_state_dir_attached_allowing fs root dir alw = Some (Inr ())"
  then obtain x where x: "assess_allowing fs root alw = Some x" by (auto simp: ensure_state_dir_attached_allowing_def)
  with e obtain a where a: "x = Inr a" by (cases x) (auto simp: ensure_state_dir_attached_allowing_def)
  then show "\<exists>a. assess_allowing fs root alw = Some (Inr a) \<and> is_attached a"
    using e x by (cases a) (auto simp: ensure_state_dir_attached_allowing_def is_attached_def state_refused_def)
  show "inside fs root dir"
    using e x a by (cases a) (auto simp: ensure_state_dir_attached_allowing_def state_refused_def intro: state_dir_step_inside)
qed (auto simp: ensure_state_dir_attached_allowing_def state_refused_def intro: assess_allowing_vouched)

section \<open>Properties\<close>

text \<open>C8: a root the gate calls attached is a mount of its own, apart from the decoy.  It exists, it is the
  mount visible at its canonical path, no mount of another device lies under it there, its device is not
  that of \<^verbatim>\<open>/\<close>; in a session it is the volume the session started from; out of one the judge called it
  separate, and unless it is in RAM no mount of the decoy is on its file system.\<close>

theorem attached_root_is_separate:
  assumes "assess fs root = Some (Inr Attached)"
  shows "root_in_place fs root (\<lambda>v. v = Separate)
    \<and> (\<exists>x y. device_id fs root = Inr x \<and> device_id fs ''/'' = Inr y \<and> x \<noteq> y)
    \<and> (\<forall>table visible m. mount_table fs = Inr table \<and> top_mount_at table (canonical_root fs root) = Some visible
         \<and> root_is_hidden_overlay table (canonical_root fs root) = None \<and> \<not> is_ram (m_fstype visible)
         \<and> decoy_mounted (collect_scene fs table ''/'') visible m \<longrightarrow> m_dev m \<noteq> m_dev visible)"
proof (intro conjI allI impI)
  show p: "root_in_place fs root (\<lambda>v. v = Separate)" using assess_in_place [OF assms] by simp
  obtain table visible where "visible_step fs root table visible None = Inr Attached"
    using assess_visible [OF assms] by blast
  from visible_step_cases [OF this] have "\<exists>w. device_step fs root w = Inr Attached"
    by (auto simp: Let_def split: if_splits)
  then show "\<exists>x y. device_id fs root = Inr x \<and> device_id fs ''/'' = Inr y \<and> x \<noteq> y"
    using device_step_Inr by (fastforce split: if_splits)
  fix table visible m
  assume *: "mount_table fs = Inr table \<and> top_mount_at table (canonical_root fs root) = Some visible
    \<and> root_is_hidden_overlay table (canonical_root fs root) = None \<and> \<not> is_ram (m_fstype visible)
    \<and> decoy_mounted (collect_scene fs table ''/'') visible m"
  then have "j_verdict (judge (collect_scene fs table ''/'') visible) = Separate"
    using p by (auto simp: root_in_place_def judge_storage_def)
  then show "m_dev m \<noteq> m_dev visible" using judged_separate_mounts * by blast
qed

definition sample_layer :: "bytes \<Rightarrow> bytes \<Rightarrow> layer" where
  "sample_layer name dev =
     \<lparr>ly_sysfs = ''/sys/class/block/'' @ name, ly_name = name, ly_dev = Some dev, ly_dm = None, ly_slaves = [],
      ly_disk = None, ly_loop = None\<rparr>"

definition sample_host :: "mount_entry list \<Rightarrow> 64 word \<Rightarrow> fs_view" where
  "sample_host table dev =
     \<lparr>path_exists = (\<lambda>p. Inr (p = ''/mnt'')), mount_table = Inr table, canonicalize = Some,
      device_id = (\<lambda>p. Inr (if p = ''/'' then 1 else dev)), read_content = (\<lambda>_. Inl (FsError ''absent'')),
      list_directory = (\<lambda>_. Inr [''/sys/class/block/sda1'', ''/sys/class/block/sdb1'']),
      loop_backing_device = (\<lambda>_. None),
      dev_stack = (\<lambda>p. [if p = ''/sys/class/block/sda1'' then sample_layer ''sda1'' ''8:1'' else sample_layer ''sdb1'' ''8:17'']),
      resolve_spec = (\<lambda>_. None), btrfs_members = (\<lambda>_. []), plan_version = (\<lambda>_. Inl []), plan_reader = (\<lambda>_. Inl []),
      running_binary = ''/nails''\<rparr>"

theorem attached_root_is_separate_witness:
  "assess (sample_host [sample_root, sample_hidden] 2) ''/mnt'' = Some (Inr Attached)
   \<and> root_in_place (sample_host [sample_root, sample_hidden] 2) ''/mnt'' (\<lambda>v. v = Separate)"
proof -
  have "assess (sample_host [sample_root, sample_hidden] 2) ''/mnt'' = Some (Inr Attached)" by code_simp
  then show ?thesis using attached_root_is_separate by blast
qed


text \<open>A bind mount of a folder of the decoy's root passes with the override only.\<close>

definition sample_bind :: mount_entry where
  "sample_bind = sample_mount 2 1 ''8:1'' ''/mnt''"


text \<open>The gate fails closed.  When no vouched root is in place, the gate answers with the host's own error
  or with a refusal that carries the reason, whatever the override.\<close>

theorem gate_fails_closed:
  assumes "assess_allowing fs root alw = Some x" "\<not> root_in_place fs root (vouched alw)"
  shows "(\<exists>e. x = Inl e \<and> ensure_state_dir_attached_allowing fs root dir alw = Some (Inl e))
    \<or> (\<exists>r why. x = Inr (Refused r) \<and> ensure_state_dir_attached_allowing fs root dir alw = Some (Inl (InvalidState (why @ rf_reason r))))"
  using assms by (rule ag.not_vouched_stops)

theorem gate_fails_closed_witness:
  "\<exists>r. assess_allowing (sample_host [sample_root] 2) ''/mnt'' AllowDecoyStorage = Some (Inr (Refused r))
   \<and> (\<exists>why. ensure_state_dir_attached_allowing (sample_host [sample_root] 2) ''/mnt'' ''/mnt'' AllowDecoyStorage
        = Some (Inl (InvalidState (why @ rf_reason r))))"
proof -
  let ?fs = "sample_host [sample_root] 2"
  have a: "assess_allowing ?fs ''/mnt'' AllowDecoyStorage = Some (Inr (Refused (new_refusal (NotAMountPoint ''/'') ''/mnt'')))"
    by code_simp
  have "top_mount_at [sample_root] ''/mnt'' = None" by code_simp
  then have "\<not> root_in_place ?fs ''/mnt'' (vouched AllowDecoyStorage)"
    by (simp add: root_in_place_def sample_host_def canonical_root_def)
  from gate_fails_closed [OF a this] a show ?thesis by auto
qed

text \<open>C34: on a mount table whose parents are ranked below their children the gate returns.\<close>

theorem assess_returns:
  assumes "\<forall>table. mount_table fs = Inr table \<longrightarrow> ranked rank table"
  shows "\<exists>r. assess fs root = Some r"
proof -
  have "\<exists>y. covered_mount table m = Some y"
    if "mount_table fs = Inr table" "top_mount_at table p = Some m" for table m p
    using covered_search_returns [of rank table m m] assms that top_mount_at_in by (auto simp: covered_mount_def)
  then show ?thesis by (fastforce simp: assess_def split: sum.splits bool.splits option.splits)
qed

theorem assess_returns_witness:
  "\<exists>r. assess (sample_host [sample_root, sample_hidden] 2) ''/mnt'' = Some r"
  by (rule assess_returns [of _ nat]) (simp add: sample_host_def ranked_def sample_root_def sample_hidden_def sample_mount_def)

text \<open>A table read while mounts changed: the ID 2 was given twice.\<close>

definition torn_table :: "mount_entry list" where
  "torn_table = [sample_mount 1 0 ''8:1'' ''/'', sample_mount 2 4 ''8:17'' ''/mnt'', sample_mount 4 2 ''8:17'' ''/mnt'',
                 sample_mount 2 1 ''8:17'' ''/mnt'']"

lemma covered_search_diverges:
  assumes "below_at table tp a = Some b" "below_at table tp b = Some a" "m_dev a = m_dev tp" "m_dev b = m_dev tp"
  shows "covered_search table tp a = None"
proof -
  have "tb = table \<longrightarrow> t = tp \<longrightarrow> x \<noteq> a \<and> x \<noteq> b" if "covered_search tb t x = Some y" for tb t x y
    by (rule covered_search.raw_induct [OF _ that]) (use assms in \<open>auto split: option.splits if_splits\<close>)
  then show ?thesis by (cases "covered_search table tp a") auto
qed

text \<open>The gate never returns on a table that names a mount ID twice so that two mounts at the root are
  each the other's parent: the search for a covered mount follows parents without a bound.\<close>

theorem assess_torn_table_never_returns:
  "assess (sample_host torn_table 2) ''/mnt'' = None"
proof -
  have "covered_mount torn_table (sample_mount 4 2 ''8:17'' ''/mnt'') = None"
    unfolding covered_mount_def
    by (rule covered_search_diverges [of _ _ _ "sample_mount 2 4 ''8:17'' ''/mnt''"]) code_simp+
  moreover have "top_mount_at torn_table ''/mnt'' = Some (sample_mount 4 2 ''8:17'' ''/mnt'')" by code_simp
  ultimately show ?thesis by (simp add: assess_def sample_host_def canonical_root_def)
qed

end
