(* ===== verification/Decoy_Mounts.thy ===== *)
theory Decoy_Mounts
  imports Session_Plan
begin

text \<open>
  The decoy's mounts the way back makes again: the record the entry takes,
  \<^verbatim>\<open>nails-teardown/src/whole_root/decoy_mounts.rs\<close>, and the warnings about what does not come back,
  \<^verbatim>\<open>nails-session/src/session/way_back.rs\<close>.  The hash maps and sets of the source are searched lists
  here (a later entry of the table wins, as it does when the map is collected).  The lemmas show
  that the walk below the root finds exactly the mounts whose parents lead to it and ends on any
  table, that every mount of the decoy's tree is recorded or reported lost, and that a recorded
  mount can be made: its parent comes before it, its options can be set and a source reaches it.
\<close>

section \<open>Definitions\<close>

definition NOT_THE_TREE :: "path list" where
  "NOT_THE_TREE = [''/proc'', ''/sys'', ''/dev'', ''/run'']"

definition DELETED :: bytes where "DELETED = ''//deleted''"

datatype why = NoWayBack | ParentLost | Options | Deleted | Automounted

definition show_why :: "why \<Rightarrow> bytes" where
  "show_why w =
     (case w of
        NoWayBack \<Rightarrow> ''the session carries no mount that reaches its filesystem''
      | ParentLost \<Rightarrow> ''the mount it sits on does not come back''
      | Options \<Rightarrow> ''its mount options cannot be set again''
      | Deleted \<Rightarrow> ''the file or directory it shows was deleted''
      | Automounted \<Rightarrow> ''it sits on an automount point, which the decoy's start sets up again'')"

record lost =
  lost_id :: int
  lost_target :: path
  lost_fstype :: bytes
  lost_source :: path
  lost_why :: why

definition ends_with_its_server :: "lost \<Rightarrow> bool" where
  "ends_with_its_server l \<longleftrightarrow>
     lost_why l = Automounted \<or> lost_fstype l = ''fuse'' \<or> starts_with ''fuse.'' (lost_fstype l)
     \<or> lost_fstype l = ''autofs''"

record mount_record =
  rec_mounts :: "decoy_mount list"
  rec_lost :: "lost list"

definition in_tree :: "path \<Rightarrow> path \<Rightarrow> bool" where
  "in_tree point hidden_root \<longleftrightarrow>
     \<not> path_starts_with point hidden_root \<and> \<not> (\<exists>api\<in>set NOT_THE_TREE. path_starts_with point api)"

text \<open>\<^verbatim>\<open>below\<close>: the loop over the pending mounts.\<close>

function below_loop :: "int list \<Rightarrow> mount_entry list \<Rightarrow> mount_entry list" where
  "below_loop placed pending =
     (case position (\<lambda>m. parent_id m \<in> set placed) pending of
        None \<Rightarrow> []
      | Some i \<Rightarrow>
          if i < length pending
          then pending ! i # below_loop (mount_id (pending ! i) # placed) (take i pending @ drop (Suc i) pending)
          else [])"
  by pat_completeness auto
termination
  by (relation "measure (length \<circ> snd)") auto

declare below_loop.simps [simp del]

definition below :: "mount_entry list \<Rightarrow> mount_entry \<Rightarrow> mount_entry list" where
  "below mounts root = below_loop [mount_id root] (filter (\<lambda>m. mount_id m \<noteq> mount_id root) mounts)"

definition within :: "mount_entry \<Rightarrow> bytes \<Rightarrow> path \<Rightarrow> path option" where
  "within m dev shown = (if m_dev m = dev then path_strip_prefix shown (m_root m) else None)"

fun carried_source :: "mount_entry \<Rightarrow> nat \<Rightarrow> carried_mount list \<Rightarrow> (mount_source \<times> path) option" where
  "carried_source m i [] = None"
| "carried_source m i (c # cs) =
     (case (case cm_dev c of None \<Rightarrow> None
            | Some d \<Rightarrow> (case cm_root c of None \<Rightarrow> None | Some r \<Rightarrow> within m d r)) of
        Some p \<Rightarrow> Some (FromCarried i, p)
      | None \<Rightarrow> carried_source m (Suc i) cs)"

definition source_of :: "mount_entry \<Rightarrow> mount_entry \<Rightarrow> carried_mount list \<Rightarrow> (mount_source \<times> path) option" where
  "source_of m root cs =
     (case within m (m_dev root) (m_root root) of
        Some p \<Rightarrow> Some (FromRoot, p)
      | None \<Rightarrow> carried_source m 0 cs)"

text \<open>The table by mount ID, and the number of its keys.\<close>

definition by_id :: "mount_entry list \<Rightarrow> int \<Rightarrow> mount_entry option" where
  "by_id mounts i = rfind (\<lambda>m. mount_id m = i) mounts"

definition by_id_len :: "mount_entry list \<Rightarrow> nat" where
  "by_id_len mounts = length (remdups (map mount_id mounts))"

fun stack_base_loop :: "nat \<Rightarrow> mount_entry list \<Rightarrow> mount_entry \<Rightarrow> int option" where
  "stack_base_loop 0 mounts current = None"
| "stack_base_loop (Suc n) mounts current =
     (case by_id mounts (parent_id current) of None \<Rightarrow> None
      | Some parent \<Rightarrow>
          if \<not> path_eq (mount_point parent) (mount_point current) then Some (mount_id parent)
          else stack_base_loop n mounts parent)"

definition stack_base :: "mount_entry \<Rightarrow> mount_entry list \<Rightarrow> int option" where
  "stack_base m mounts = stack_base_loop (by_id_len mounts) mounts m"

definition on_kept :: "mount_entry \<Rightarrow> mount_entry list \<Rightarrow> int list \<Rightarrow> int list \<Rightarrow> bool" where
  "on_kept m mounts kept tops \<longleftrightarrow>
     mount_id m \<in> set tops \<and> is_some_and (stack_base m mounts) (\<lambda>b. b \<in> set kept)"

definition why_lost :: "mount_entry \<Rightarrow> mount_entry list \<Rightarrow> int list \<Rightarrow> int list \<Rightarrow> why option" where
  "why_lost m mounts kept tops =
     (if ends_with DELETED (m_root m) then Some Deleted
      else if is_some_and (by_id mounts (parent_id m)) (\<lambda>p. m_fstype p = ''autofs'') then Some Automounted
      else if parent_id m \<notin> set kept \<and> \<not> on_kept m mounts kept tops then Some ParentLost
      else if per_mount_flags (mount_opts m) = None then Some Options
      else None)"

definition lost_of :: "mount_entry \<Rightarrow> why \<Rightarrow> lost" where
  "lost_of m w = \<lparr>lost_id = mount_id m, lost_target = mount_point m, lost_fstype = m_fstype m,
                  lost_source = m_source m, lost_why = w\<rparr>"

definition root_record :: "mount_entry \<Rightarrow> decoy_mount" where
  "root_record root =
     \<lparr>dm_id = mount_id root, dm_target = ''/'', dm_source = FromRoot, dm_path = [],
      dm_options = (case per_mount_flags (mount_opts root) of None \<Rightarrow> [] | Some _ \<Rightarrow> mount_opts root),
      dm_restored = None\<rparr>"

definition mount_of :: "mount_entry \<Rightarrow> mount_source \<Rightarrow> path \<Rightarrow> decoy_mount" where
  "mount_of m s p =
     \<lparr>dm_id = mount_id m, dm_target = mount_point m, dm_source = s, dm_path = p,
      dm_options = mount_opts m, dm_restored = None\<rparr>"

text \<open>One turn of \<^verbatim>\<open>record\<close>'s loop: the IDs kept so far, and the record so far.\<close>

definition record_step ::
    "mount_entry list \<Rightarrow> mount_entry \<Rightarrow> path \<Rightarrow> carried_mount list \<Rightarrow> int list
     \<Rightarrow> int list \<times> mount_record \<Rightarrow> mount_entry \<Rightarrow> int list \<times> mount_record" where
  "record_step mounts root hidden_root cs tops st m =
     (case st of (kept, r) \<Rightarrow>
        if \<not> in_tree (mount_point m) hidden_root then (kept, r)
        else (case why_lost m mounts kept tops of
            Some w \<Rightarrow> (kept, r\<lparr>rec_lost := rec_lost r @ [lost_of m w]\<rparr>)
          | None \<Rightarrow>
              (case source_of m root cs of
                 None \<Rightarrow> (kept, r\<lparr>rec_lost := rec_lost r @ [lost_of m NoWayBack]\<rparr>)
               | Some (s, p) \<Rightarrow>
                   (mount_id m # kept, r\<lparr>rec_mounts := rec_mounts r @ [mount_of m s p]\<rparr>))))"

definition carried_tops :: "mount_entry list \<Rightarrow> carried_mount list \<Rightarrow> int list" where
  "carried_tops mounts cs = map mount_id (filter_map (\<lambda>c. top_mount_at mounts (cm_target c)) cs)"

definition record_mounts :: "mount_entry list \<Rightarrow> path \<Rightarrow> carried_mount list \<Rightarrow> mount_record" where
  "record_mounts mounts hidden_root cs =
     (case top_mount_at mounts ''/'' of
        None \<Rightarrow> \<lparr>rec_mounts = [], rec_lost = []\<rparr>
      | Some root \<Rightarrow>
          snd (foldl (record_step mounts root hidden_root cs (carried_tops mounts cs))
                 ([mount_id root], \<lparr>rec_mounts = [root_record root], rec_lost = []\<rparr>)
                 (below mounts root)))"

subsection \<open>The entry's side\<close>

record kept_by_systemd =
  ks_fstab :: "fstab_entry list"
  ks_initrd :: "int list"

definition keeps :: "kept_by_systemd \<Rightarrow> lost \<Rightarrow> bool" where
  "keeps k l \<longleftrightarrow>
     path_eq (lost_target l) ''/usr'' \<or> path_eq (lost_target l) ''/etc''
     \<or> lost_id l \<in> set (ks_initrd k)
     \<or> (\<exists>e\<in>set (ks_fstab k). path_eq (fs_file e) (lost_target l) \<and> has_option e ''x-initrd.mount'')"

text \<open>\<^verbatim>\<open>hidden_in_decoy\<close>, of the canonical path where there is one.\<close>

definition hidden_in_decoy :: "sys_paths \<Rightarrow> path option \<Rightarrow> path \<Rightarrow> path" where
  "hidden_in_decoy ps canonical hidden_root =
     (let hidden = (case canonical of None \<Rightarrow> hidden_root | Some c \<Rightarrow> c) in
      case path_strip_prefix (paths_root ps) hidden of
        Some rest \<Rightarrow> join ''/'' rest
      | None \<Rightarrow> hidden)"

definition initrd_ram_filesystems :: "fstab_entry list \<Rightarrow> mount_entry list \<Rightarrow> path \<Rightarrow> path list" where
  "initrd_ram_filesystems fstab mounts hidden_root =
     map fs_file
       (filter (\<lambda>e. (vfstype e = ''tmpfs'' \<or> vfstype e = ''ramfs'') \<and> has_option e ''x-initrd.mount''
                  \<and> in_tree (fs_file e) hidden_root \<and> top_mount_at mounts (fs_file e) \<noteq> None) fstab)"

text \<open>The targets \<^verbatim>\<open>keep\<close> carries: those the policy placed, then the initrd's RAM file systems
  that are not among them.\<close>

definition carry_targets :: "policy_mount list \<Rightarrow> path list \<Rightarrow> path list" where
  "carry_targets placed ram =
     foldl (\<lambda>ts t. if \<exists>u\<in>set ts. path_eq u t then ts else ts @ [t])
       (map pm_target (filter (\<lambda>m. pm_kind m \<noteq> KindHiddenVolume) placed)) ram"

definition warned :: "carried_mount list \<Rightarrow> kept_by_systemd \<Rightarrow> lost \<Rightarrow> bool" where
  "warned cs k l \<longleftrightarrow>
     ((\<exists>c\<in>set cs. path_starts_with (lost_target l) (cm_target c)) \<or> keeps k l) \<and> \<not> ends_with_its_server l"

definition warning :: "kept_by_systemd \<Rightarrow> lost \<Rightarrow> bytes" where
  "warning k l =
     ''the way back cannot mount '' @ utf8_lossy (lost_target l) @ '' ('' @ lost_fstype l @ '' ''
     @ utf8_lossy (lost_source l) @ '') again: '' @ show_why (lost_why l)
     @ (if keeps k l then ''; a plain soft-reboot keeps it, but'' else '';'')
     @ '' after the session the decoy is without it until it is mounted again''"

definition warnings :: "lost list \<Rightarrow> carried_mount list \<Rightarrow> kept_by_systemd \<Rightarrow> bytes list" where
  "warnings ls cs k = map (warning k) (filter (warned cs k) ls)"

text \<open>\<^verbatim>\<open>keep\<close>: \<open>carry_all\<close> is what carrying the targets into the next root gave, \<open>saved\<close> the
  entry's copy of \<^verbatim>\<open>utab\<close>.\<close>

definition keep ::
    "sys_paths \<Rightarrow> layout \<Rightarrow> path option \<Rightarrow> (path list \<Rightarrow> io_error + carried_mount list) \<Rightarrow> bytes
     \<Rightarrow> plan \<Rightarrow> fstab_entry list \<Rightarrow> mount_entry list \<Rightarrow> (io_error + bytes list) \<times> plan" where
  "keep ps l canonical carry_all saved p fstab mounts =
     (let hidden = hidden_in_decoy ps canonical (hidden_root_of l);
          targets = carry_targets (p_policy_mounts p) (initrd_ram_filesystems fstab mounts hidden) in
      case carry_all targets of
        Inl e \<Rightarrow> (Inl e, p)
      | Inr cs \<Rightarrow>
          (let r = record_mounts mounts hidden cs;
               k = \<lparr>ks_fstab = fstab, ks_initrd = initrd_mounts saved mounts\<rparr>
           in (Inr (warnings (rec_lost r) cs k),
               p\<lparr>p_carried := cs, p_decoy_mounts := rec_mounts r\<rparr>)))"

section \<open>Lemmas\<close>

lemma position_lt: "position P xs = Some i \<Longrightarrow> i < length xs \<and> P (xs ! i)"
  by (simp add: position_Some_iff)

text \<open>The IDs a table's parents lead to the root from.\<close>

inductive reaches :: "mount_entry list \<Rightarrow> int list \<Rightarrow> int \<Rightarrow> bool" for ms ids where
  reaches_base: "i \<in> set ids \<Longrightarrow> reaches ms ids i"
| reaches_step: "m \<in> set ms \<Longrightarrow> reaches ms ids (parent_id m) \<Longrightarrow> reaches ms ids (mount_id m)"

inductive_simps reaches_simps: "reaches ms ids i"

lemma take_drop_set:
  assumes "i < length xs"
  shows "set xs = insert (xs ! i) (set (take i xs @ drop (Suc i) xs))"
    and "mset xs = add_mset (xs ! i) (mset (take i xs @ drop (Suc i) xs))"
proof -
  have "xs = take i xs @ xs ! i # drop (Suc i) xs" using assms by (rule id_take_nth_drop)
  then show "set xs = insert (xs ! i) (set (take i xs @ drop (Suc i) xs))"
    "mset xs = add_mset (xs ! i) (mset (take i xs @ drop (Suc i) xs))"
    by (metis list.simps(15) set_append Un_insert_right, metis mset.simps(2) mset_append union_mset_add_mset_right)
qed

lemma reaches_mono: "reaches ms ids i \<Longrightarrow> set ms \<subseteq> set ms' \<Longrightarrow> set ids \<subseteq> set ids' \<Longrightarrow> reaches ms' ids' i"
  by (induction rule: reaches.induct) (auto intro: reaches.intros)

lemma reaches_cut:
  assumes "reaches ms ids i" "set ms = insert x (set ms')" "parent_id x \<in> set ids"
  shows "reaches ms' (mount_id x # ids) i"
  using assms by (induction rule: reaches.induct) (auto intro: reaches.intros)

lemma reaches_uncut:
  assumes "reaches ms' (mount_id x # ids) i" "set ms = insert x (set ms')" "parent_id x \<in> set ids"
  shows "reaches ms ids i"
  using assms by (induction rule: reaches.induct) (auto intro: reaches.intros)

lemma reaches_none: "\<forall>m\<in>set ms. parent_id m \<notin> set ids \<Longrightarrow> reaches ms ids i \<Longrightarrow> i \<in> set ids"
  by (erule reaches.induct) auto

lemma below_loop_set:
  "set (below_loop placed pending) = {m \<in> set pending. reaches pending placed (parent_id m)}"
proof (induction placed pending rule: below_loop.induct)
  case (1 placed pending)
  show ?case
  proof (cases "position (\<lambda>m. parent_id m \<in> set placed) pending")
    case None
    then have "\<forall>m\<in>set pending. parent_id m \<notin> set placed" by (simp add: position_None_iff)
    with None show ?thesis
      using reaches_none [of pending placed] by (subst below_loop.simps) auto
  next
    case (Some i)
    let ?x = "pending ! i" and ?rest = "take i pending @ drop (Suc i) pending"
    have i: "i < length pending" "parent_id ?x \<in> set placed" using position_lt [OF Some] by auto
    note s = take_drop_set(1) [OF i(1)]
    have IH: "set (below_loop (mount_id ?x # placed) ?rest)
        = {m \<in> set ?rest. reaches ?rest (mount_id ?x # placed) (parent_id m)}"
      using 1 Some i by blast
    have r: "reaches ?rest (mount_id ?x # placed) j \<longleftrightarrow> reaches pending placed j" for j
      using reaches_cut [OF _ s i(2)] reaches_uncut [OF _ s i(2)] by blast
    have "set (below_loop placed pending) = insert ?x {m \<in> set ?rest. reaches pending placed (parent_id m)}"
      using Some i(1) IH unfolding r by (subst below_loop.simps) (simp del: set_append)
    also have "\<dots> = {m \<in> set pending. reaches pending placed (parent_id m)}"
      using s i(2) by (auto intro: reaches_base)
    finally show ?thesis .
  qed
qed

lemma below_loop_submset: "mset (below_loop placed pending) \<subseteq># mset pending"
proof (induction placed pending rule: below_loop.induct)
  case (1 placed pending)
  show ?case
  proof (cases "position (\<lambda>m. parent_id m \<in> set placed) pending")
    case None
    then show ?thesis by (simp add: below_loop.simps)
  next
    case (Some i)
    then have i: "i < length pending" by (simp add: position_Some_iff)
    with 1 Some show ?thesis
      by (subst below_loop.simps) (simp add: take_drop_set(2) [OF i])
  qed
qed

lemma below_loop_parents:
  "j < length (below_loop placed pending) \<Longrightarrow>
     parent_id (below_loop placed pending ! j) \<in> set placed \<union> mount_id ` set (take j (below_loop placed pending))"
proof (induction placed pending arbitrary: j rule: below_loop.induct)
  case (1 placed pending)
  show ?case
  proof (cases "position (\<lambda>m. parent_id m \<in> set placed) pending")
    case None
    with 1(2) show ?thesis by (simp add: below_loop.simps)
  next
    case (Some i)
    let ?rest = "below_loop (mount_id (pending ! i) # placed) (take i pending @ drop (Suc i) pending)"
    have i: "i < length pending" "parent_id (pending ! i) \<in> set placed" using position_lt [OF Some] by auto
    then have eq: "below_loop placed pending = pending ! i # ?rest"
      using Some by (simp add: below_loop.simps [of placed pending])
    show ?thesis
    proof (cases j)
      case 0
      with i eq show ?thesis by simp
    next
      case (Suc k)
      with 1(2) eq have "k < length ?rest" by simp
      from 1(1) [OF Some i(1) this] Suc eq show ?thesis by auto
    qed
  qed
qed

text \<open>The IDs a record names, recorded or lost.\<close>

definition rec_ids :: "mount_record \<Rightarrow> int multiset" where
  "rec_ids r = mset (map dm_id (rec_mounts r)) + mset (map lost_id (rec_lost r))"

lemma record_step_ids:
  "rec_ids (snd (record_step ms root h cs tops st m))
     = rec_ids (snd st) + (if in_tree (mount_point m) h then {#mount_id m#} else {#})"
  by (auto simp: rec_ids_def record_step_def mount_of_def lost_of_def split: option.splits prod.splits)

lemma record_fold_ids:
  "rec_ids (snd (foldl (record_step ms root h cs tops) st xs))
     = rec_ids (snd st) + mset (map mount_id (filter (\<lambda>m. in_tree (mount_point m) h) xs))"
  by (induction xs arbitrary: st) (auto simp: record_step_ids)

lemma within_SomeD:
  "within m d r = Some p \<Longrightarrow> m_dev m = d \<and> path_strip_prefix r (m_root m) = Some p"
  by (auto simp: within_def split: if_splits)

text \<open>A source reaches a mount: it is of its file system, and shows a directory above its own.\<close>

definition source_reaches :: "mount_entry \<Rightarrow> mount_entry \<Rightarrow> carried_mount list \<Rightarrow> mount_source \<Rightarrow> path \<Rightarrow> bool" where
  "source_reaches m root cs s p \<longleftrightarrow>
     (case s of
        FromRoot \<Rightarrow> m_dev m = m_dev root \<and> path_strip_prefix (m_root root) (m_root m) = Some p
      | FromCarried i \<Rightarrow> i < length cs \<and> cm_dev (cs ! i) = Some (m_dev m)
          \<and> (\<exists>r. cm_root (cs ! i) = Some r \<and> path_strip_prefix r (m_root m) = Some p))"

lemma carried_source_SomeD:
  "carried_source m i cs = Some (s, p) \<Longrightarrow>
     \<exists>j<length cs. s = FromCarried (i + j) \<and> cm_dev (cs ! j) = Some (m_dev m)
       \<and> (\<exists>r. cm_root (cs ! j) = Some r \<and> path_strip_prefix r (m_root m) = Some p)"
proof (induction m i cs rule: carried_source.induct)
  case (2 m i c cs)
  show ?case
  proof (cases "case cm_dev c of None \<Rightarrow> None
            | Some d \<Rightarrow> (case cm_root c of None \<Rightarrow> None | Some r \<Rightarrow> within m d r)")
    case None
    with 2 obtain j where "j < length cs" "s = FromCarried (Suc i + j)" "cm_dev (cs ! j) = Some (m_dev m)"
      "\<exists>r. cm_root (cs ! j) = Some r \<and> path_strip_prefix r (m_root m) = Some p" by auto
    then show ?thesis by (intro exI [of _ "Suc j"]) simp
  next
    case (Some q)
    with 2(2) have "s = FromCarried i" "q = p" by simp_all
    with Some show ?thesis
      by (intro exI [of _ 0]) (auto split: option.splits dest!: within_SomeD)
  qed
qed simp

lemma source_of_reaches: "source_of m root cs = Some (s, p) \<Longrightarrow> source_reaches m root cs s p"
  by (auto simp: source_of_def source_reaches_def dest!: within_SomeD carried_source_SomeD split: option.splits)

text \<open>What makes a recorded mount one the way back can make, after the mounts with IDs \<open>kept\<close>.\<close>

definition makeable ::
    "mount_entry list \<Rightarrow> mount_entry \<Rightarrow> path \<Rightarrow> carried_mount list \<Rightarrow> int set \<Rightarrow> decoy_mount \<Rightarrow> bool" where
  "makeable ms root h cs kept d \<longleftrightarrow>
     (\<exists>m\<in>set ms. d = mount_of m (dm_source d) (dm_path d) \<and> in_tree (mount_point m) h
        \<and> (parent_id m \<in> kept \<or> (\<exists>b\<in>kept. stack_base m ms = Some b))
        \<and> per_mount_flags (dm_options d) \<noteq> None \<and> \<not> ends_with DELETED (m_root m)
        \<and> source_reaches m root cs (dm_source d) (dm_path d))"

definition record_ok :: "mount_entry list \<Rightarrow> mount_entry \<Rightarrow> path \<Rightarrow> carried_mount list \<Rightarrow> int list \<times> mount_record \<Rightarrow> bool" where
  "record_ok ms root h cs st \<longleftrightarrow>
     set (fst st) = dm_id ` set (rec_mounts (snd st))
     \<and> (\<exists>ds. rec_mounts (snd st) = root_record root # ds)
     \<and> (\<forall>xs d ys. rec_mounts (snd st) = xs @ d # ys \<longrightarrow> xs \<noteq> [] \<longrightarrow> makeable ms root h cs (dm_id ` set xs) d)"

lemma record_step_ok:
  assumes "m \<in> set ms" "record_ok ms root h cs st"
  shows "record_ok ms root h cs (record_step ms root h cs tops st m)"
proof -
  obtain kept r where st: "st = (kept, r)" by (cases st)
  have same: "record_ok ms root h cs (kept, r\<lparr>rec_lost := l\<rparr>)" for l
    using assms(2) st by (simp add: record_ok_def)
  have add: "record_ok ms root h cs (mount_id m # kept, r\<lparr>rec_mounts := rec_mounts r @ [mount_of m s p]\<rparr>)"
    if w: "why_lost m ms kept tops = None" and s: "source_of m root cs = Some (s, p)"
      and t: "in_tree (mount_point m) h" for s p
  proof -
    have k: "parent_id m \<in> set kept \<or> (\<exists>b\<in>set kept. stack_base m ms = Some b)"
      "per_mount_flags (mount_opts m) \<noteq> None" "\<not> ends_with DELETED (m_root m)"
      using w by (auto simp: why_lost_def on_kept_def is_some_and_iff split: if_splits)
    have mk: "makeable ms root h cs (set kept) (mount_of m s p)"
      unfolding makeable_def
      using k t assms(1) source_of_reaches [OF s] by (intro bexI [of _ m]) (auto simp: mount_of_def)
    have r: "set kept = dm_id ` set (rec_mounts r)" "\<exists>ds. rec_mounts r = root_record root # ds"
      "\<And>xs d ys. rec_mounts r = xs @ d # ys \<Longrightarrow> xs \<noteq> [] \<Longrightarrow> makeable ms root h cs (dm_id ` set xs) d"
      using assms(2) st by (auto simp: record_ok_def)
    have "makeable ms root h cs (dm_id ` set xs) d"
      if "rec_mounts r @ [mount_of m s p] = xs @ d # ys" "xs \<noteq> []" for xs d ys
      using that(1) by (rule snoc_split_cases) (use that(2) r(1,3) mk in auto)
    moreover have "dm_id (mount_of m s p) = mount_id m" by (simp add: mount_of_def)
    ultimately show ?thesis
      using r(1,2) unfolding record_ok_def by auto
  qed
  show ?thesis
    using same add assms(2) unfolding st record_step_def by (auto split: option.splits)
qed

lemma below_subset: "m \<in> set (below ms root) \<Longrightarrow> m \<in> set ms"
  by (auto simp: below_def below_loop_set)

lemma record_mounts_ok:
  assumes "top_mount_at ms ''/'' = Some root"
  shows "\<exists>kept. record_ok ms root h cs (kept, record_mounts ms h cs)"
proof -
  let ?f = "foldl (record_step ms root h cs (carried_tops ms cs))
              ([mount_id root], \<lparr>rec_mounts = [root_record root], rec_lost = []\<rparr>) (below ms root)"
  have "record_ok ms root h cs ?f"
  proof (rule foldl_invariant)
    show "record_ok ms root h cs ([mount_id root], \<lparr>rec_mounts = [root_record root], rec_lost = []\<rparr>)"
      by (auto simp: record_ok_def root_record_def Cons_eq_append_conv)
  qed (use record_step_ok below_subset in blast)
  moreover have "snd ?f = record_mounts ms h cs" using assms by (simp add: record_mounts_def)
  ultimately show ?thesis by (metis prod.collapse)
qed

section \<open>Properties\<close>

text \<open>C32: the walk below the root finds exactly the mounts whose parents lead to it, no mount more
  often than the table has it, each after the mount it sits on, on any table, torn or cyclic.\<close>

theorem below_exact:
  "set (below ms root) =
     {m \<in> set ms. mount_id m \<noteq> mount_id root \<and>
        reaches (filter (\<lambda>m. mount_id m \<noteq> mount_id root) ms) [mount_id root] (parent_id m)}
   \<and> mset (below ms root) \<subseteq># mset ms
   \<and> (\<forall>j<length (below ms root).
        parent_id (below ms root ! j) \<in> insert (mount_id root) (mount_id ` set (take j (below ms root))))"
proof (intro conjI allI impI)
  let ?p = "filter (\<lambda>m. mount_id m \<noteq> mount_id root) ms"
  show "set (below ms root) = {m \<in> set ms. mount_id m \<noteq> mount_id root \<and> reaches ?p [mount_id root] (parent_id m)}"
    by (auto simp: below_def below_loop_set)
  have "mset ?p \<subseteq># mset ms" by (simp add: multiset_filter_subset)
  then show "mset (below ms root) \<subseteq># mset ms"
    using below_loop_submset [of "[mount_id root]" ?p] subset_mset.order_trans unfolding below_def by blast
  fix j
  assume "j < length (below ms root)"
  then show "parent_id (below ms root ! j) \<in> insert (mount_id root) (mount_id ` set (take j (below ms root)))"
    using below_loop_parents [of j "[mount_id root]" ?p] unfolding below_def by simp
qed

definition torn_table :: "mount_entry list" where
  "torn_table =
     [next_mount\<lparr>mount_id := 1, parent_id := 0, mount_point := ''/''\<rparr>,
      next_mount\<lparr>mount_id := 4, parent_id := 5, mount_point := ''/b''\<rparr>,
      next_mount\<lparr>mount_id := 5, parent_id := 4, mount_point := ''/b''\<rparr>,
      next_mount\<lparr>mount_id := 3, parent_id := 2, mount_point := ''/a/c''\<rparr>,
      next_mount\<lparr>mount_id := 2, parent_id := 1, mount_point := ''/a''\<rparr>]"

theorem below_exact_witness:
  "map mount_id (below torn_table (hd torn_table)) = [2, 3]
   \<and> mset (below torn_table (hd torn_table)) \<subseteq># mset torn_table"
proof
  show "map mount_id (below torn_table (hd torn_table)) = [2, 3]" by code_simp
  show "mset (below torn_table (hd torn_table)) \<subseteq># mset torn_table" using below_exact by blast
qed

text \<open>C31: nothing of the decoy's tree is forgotten: the record has the root, and each mount below
  it outside the API trees, \<^verbatim>\<open>/run\<close> and the hidden volume is recorded or reported lost, exactly once.\<close>

theorem record_mounts_complete:
  assumes "top_mount_at ms ''/'' = Some root"
  shows "rec_ids (record_mounts ms h cs)
       = add_mset (mount_id root) (mset (map mount_id (filter (\<lambda>m. in_tree (mount_point m) h) (below ms root))))"
  using assms by (simp add: record_mounts_def record_fold_ids) (simp add: rec_ids_def root_record_def)

theorem record_mounts_complete_witness:
  "rec_ids (record_mounts torn_table ''/h'' []) = {#1, 2, 3#}"
proof -
  have "top_mount_at torn_table ''/'' = Some (hd torn_table)" by code_simp
  moreover have "map mount_id (filter (\<lambda>m. in_tree (mount_point m) ''/h'') (below torn_table (hd torn_table))) = [2, 3]"
    by code_simp
  moreover have "mount_id (hd torn_table) = 1" by code_simp
  ultimately show ?thesis using record_mounts_complete [of torn_table "hd torn_table" "''/h''" "[]"]
    by (simp only: mset.simps)
qed

text \<open>C28: every recorded mount can be made again in the order of the record: it is a mount of the
  decoy's tree, the mount it sits on (or the one its stack at a carried mount point sits on) comes
  earlier in the record, its options can be set by a remount, its directory is not deleted, and the
  source recorded is of its file system and shows a directory above its own.\<close>

theorem record_mounts_makeable:
  assumes "top_mount_at ms ''/'' = Some root" "rec_mounts (record_mounts ms h cs) = xs @ d # ys" "xs \<noteq> []"
  shows "makeable ms root h cs (dm_id ` set xs) d"
  using record_mounts_ok [OF assms(1), of h cs] assms(2,3) by (auto simp: record_ok_def)

theorem record_mounts_makeable_witness:
  "makeable torn_table (hd torn_table) ''/h'' [] {1} (rec_mounts (record_mounts torn_table ''/h'' []) ! 1)"
proof -
  have r: "top_mount_at torn_table ''/'' = Some (hd torn_table)" by code_simp
  let ?l = "rec_mounts (record_mounts torn_table ''/h'' [])"
  have l: "1 < length ?l" "map dm_id (take 1 ?l) = [1]" by code_simp+
  then have "dm_id ` set (take 1 ?l) = {1}" "take 1 ?l \<noteq> []" by (metis list.set(1,2) set_map, auto)
  with record_mounts_makeable [OF r id_take_nth_drop [OF l(1)]] show ?thesis by simp
qed

end
