(* ===== verification/Run_Scrub.thy ===== *)
theory Run_Scrub
  imports World "HOL-Library.List_Lexorder" "HOL-Library.Char_ord"
begin

text \<open>
  What the hidden session leaves in \<^verbatim>\<open>/run\<close> and the scrub that removes it,
  \<^verbatim>\<open>nails-teardown/src/whole_root/run_scrub.rs\<close>: the snapshot and its text format, the bounded
  listing, the scrub over the file tree, and the sequence numbers of kernel log records.  The
  lemmas show that a snapshot is read back from its text, that the listing finds every entry of the
  tree it is meant to, that after a scrub on a host that refuses nothing only entries of the
  snapshot (or sockets, or entries the listing never looks into) are left, and that an entry of the
  snapshot outside the per-session state stays.
\<close>

section \<open>Definitions\<close>

definition PRUNED :: "bytes list" where
  "PRUNED = [''nextroot'', ''udev'', ''credentials'', ''current-system'', ''booted-system'']"

definition SESSION_STATE_DIRS :: "path list" where
  "SESSION_STATE_DIRS =
     [''log/journal'', ''systemd/sessions'', ''systemd/users'', ''systemd/seats'', ''systemd/inhibit'',
      ''systemd/shutdown'']"

definition SESSION_STATE_FILES :: "path list" where
  "SESSION_STATE_FILES = [''utmp'']"

definition DEEP_DIR :: path where "DEEP_DIR = ''systemd''"

text \<open>\<^verbatim>\<open>Snapshot\<close>: a sorted set of byte strings.\<close>

record snapshot =
  entries :: "bytes list"

definition to_set :: "bytes list \<Rightarrow> bytes list" where
  "to_set es = sort (remdups es)"

definition snapshot_ok :: "snapshot \<Rightarrow> bool" where
  "snapshot_ok s \<longleftrightarrow> sorted (entries s) \<and> distinct (entries s)"

definition snap_contains :: "snapshot \<Rightarrow> bytes \<Rightarrow> bool" where
  "snap_contains s r \<longleftrightarrow> r \<in> set (entries s)"

definition default_snapshot :: snapshot where
  "default_snapshot = \<lparr>entries = []\<rparr>"

definition escape_entry :: "bytes \<Rightarrow> bytes" where
  "escape_entry e =
     concat (map (\<lambda>b. if b = backslash then [backslash, backslash]
                      else if b = newline then [backslash, CHR ''n''] else [b]) e)"

definition to_text :: "snapshot \<Rightarrow> bytes" where
  "to_text s = concat (map (\<lambda>e. escape_entry e @ [newline]) (entries s))"

fun unescape_entry :: "bool \<Rightarrow> bytes \<Rightarrow> bytes" where
  "unescape_entry escaped [] = []"
| "unescape_entry escaped (b # bs) =
     (if \<not> escaped \<and> b = backslash then unescape_entry True bs
      else if escaped \<and> b = CHR ''n'' then newline # unescape_entry False bs
      else b # unescape_entry False bs)"

definition from_text :: "bytes \<Rightarrow> snapshot" where
  "from_text text =
     \<lparr>entries = to_set (map (unescape_entry False) (filter (\<lambda>l. l \<noteq> []) (split_on newline text)))\<rparr>"

definition load_snapshot :: "path \<Rightarrow> world \<Rightarrow> snapshot option \<times> world" where
  "load_snapshot p w =
     (case read_file p w of (Inl _, w1) \<Rightarrow> (None, w1) | (Inr t, w1) \<Rightarrow> (Some (from_text t), w1))"

text \<open>The listing.\<close>

definition max_depth :: "path \<Rightarrow> nat" where
  "max_depth rel = (if path_starts_with rel DEEP_DIR then 3 else 2)"

lemma max_depth_le: "max_depth rel \<le> 3"
  by (simp add: max_depth_def)

function walk :: "path \<Rightarrow> path \<Rightarrow> nat \<Rightarrow> nat \<Rightarrow> bytes list \<Rightarrow> world \<Rightarrow> bytes list \<times> world"
  and walk_entry :: "path \<Rightarrow> path \<Rightarrow> nat \<Rightarrow> nat \<Rightarrow> world \<Rightarrow> bytes list \<times> world" where
  "walk run rel dev depth [] w = ([], w)"
| "walk run rel dev depth (name # names) w =
     (if depth = 1 \<and> name \<in> set PRUNED then walk run rel dev depth names w
      else (case walk_entry run (join rel name) dev depth w of
              (es, w1) \<Rightarrow> (case walk run rel dev depth names w1 of (out, w2) \<Rightarrow> (es @ out, w2))))"
| "walk_entry run r dev depth w =
     (case lstat (join run r) w of
        (Inl _, w1) \<Rightarrow> ([r], w1)
      | (Inr n, w1) \<Rightarrow>
          if n = Dir \<and> w_dev w1 (key_of (join run r)) = dev \<and> depth < max_depth r
          then (case read_dir (join run r) w1 of
                  (Inl _, w2) \<Rightarrow> ([r], w2)
                | (Inr cs, w2) \<Rightarrow> (case walk run r dev (depth + 1) cs w2 of (sub, w3) \<Rightarrow> (r # sub, w3)))
          else ([r], w1))"
  by pat_completeness auto
termination
  by (relation "measures
        [\<lambda>x. case x of Inl (_, _, _, depth, _, _) \<Rightarrow> 4 - depth | Inr (_, _, _, depth, _) \<Rightarrow> 4 - depth,
         \<lambda>x. case x of Inl (_, _, _, _, names, _) \<Rightarrow> Suc (length names) | Inr _ \<Rightarrow> 0]")
    (auto simp: max_depth_def split: if_splits)

declare walk_entry.simps [simp del]

definition list_run :: "path \<Rightarrow> world \<Rightarrow> bytes list \<times> world" where
  "list_run run w =
     (case lstat run w of
        (Inl _, w1) \<Rightarrow> ([], w1)
      | (Inr _, w1) \<Rightarrow>
          (case read_dir (join run []) w1 of
             (Inl _, w2) \<Rightarrow> ([], w2)
           | (Inr cs, w2) \<Rightarrow> walk run [] (w_dev w1 (key_of run)) 1 cs w2))"

definition take_snapshot :: "path \<Rightarrow> world \<Rightarrow> snapshot \<times> world" where
  "take_snapshot run w = (case list_run run w of (es, w1) \<Rightarrow> (\<lparr>entries = to_set es\<rparr>, w1))"

fun present_loop :: "path \<Rightarrow> bytes list \<Rightarrow> world \<Rightarrow> bytes list \<times> world" where
  "present_loop run [] w = ([], w)"
| "present_loop run (e # es) w =
     (case lstat (join run e) w of
        (r, w1) \<Rightarrow> (case present_loop run es w1 of (out, w2) \<Rightarrow> (if r = Inl NotFound then out else e # out, w2)))"

definition still_present :: "snapshot \<Rightarrow> path \<Rightarrow> world \<Rightarrow> snapshot \<times> world" where
  "still_present s run w =
     (case lstat run w of
        (Inl _, w1) \<Rightarrow> (s, w1)
      | (Inr _, w1) \<Rightarrow> (case present_loop run (entries s) w1 of (es, w2) \<Rightarrow> (\<lparr>entries = es\<rparr>, w2)))"

record scrub_report =
  removed :: "path list"
  failed :: "(path \<times> io_error) list"
  detached :: "path list"

text \<open>\<^verbatim>\<open>nextroot::detach_under\<close>: the mounts at or below a path, the deepest first, and those that
  went.\<close>

definition mounts_under :: "path \<Rightarrow> path list \<Rightarrow> path list" where
  "mounts_under p points =
     rev (sort_key (\<lambda>m. length (components m)) (rev (filter (\<lambda>m. path_starts_with m p) points)))"

fun detach_loop :: "path list \<Rightarrow> world \<Rightarrow> path list \<times> world" where
  "detach_loop [] w = ([], w)"
| "detach_loop (m # ms) w =
     (case act_only (OpDetach m) w of
        (r, w1) \<Rightarrow> (case detach_loop ms w1 of (out, w2) \<Rightarrow> (if r = None then m # out else out, w2)))"

definition detach_under :: "path \<Rightarrow> path list \<Rightarrow> world \<Rightarrow> path list \<times> world" where
  "detach_under p points w = detach_loop (mounts_under p points) w"

definition remove_entry :: "path \<Rightarrow> path list \<Rightarrow> path \<Rightarrow> scrub_report \<Rightarrow> world \<Rightarrow> scrub_report \<times> world" where
  "remove_entry run points rel report w =
     (case lstat (join run rel) w of
        (Inl _, w1) \<Rightarrow> (report, w1)
      | (Inr n, w1) \<Rightarrow>
          if n = Socket then (report, w1)
          else
            (case (if n = Dir then detach_under (join run rel) points w1 else ([], w1)) of
               (gone, w2) \<Rightarrow>
                 (case (if n = Dir then remove_dir_all (join run rel) w2 else remove_file (join run rel) w2) of
                    (None, w3) \<Rightarrow> (report\<lparr>detached := detached report @ gone, removed := removed report @ [rel]\<rparr>, w3)
                  | (Some NotFound, w3) \<Rightarrow> (report\<lparr>detached := detached report @ gone\<rparr>, w3)
                  | (Some e, w3) \<Rightarrow> (report\<lparr>detached := detached report @ gone, failed := failed report @ [(rel, e)]\<rparr>, w3))))"

fun remove_all :: "path \<Rightarrow> path list \<Rightarrow> path list \<Rightarrow> scrub_report \<Rightarrow> world \<Rightarrow> scrub_report \<times> world" where
  "remove_all run points [] report w = (report, w)"
| "remove_all run points (r # rs) report w =
     (case remove_entry run points r report w of (report1, w1) \<Rightarrow> remove_all run points rs report1 w1)"

fun scrub_dirs :: "path \<Rightarrow> path list \<Rightarrow> path list \<Rightarrow> scrub_report \<Rightarrow> world \<Rightarrow> scrub_report \<times> world" where
  "scrub_dirs run points [] report w = (report, w)"
| "scrub_dirs run points (d # ds) report w =
     (case read_dir (join run d) w of
        (Inl _, w1) \<Rightarrow> scrub_dirs run points ds report w1
      | (Inr cs, w1) \<Rightarrow>
          (case remove_all run points (map (join d) cs) report w1 of
             (report1, w2) \<Rightarrow> scrub_dirs run points ds report1 w2))"

text \<open>The empty mount point directories of \<^verbatim>\<open>/run/user\<close>.\<close>

definition scrub_user :: "path \<Rightarrow> world \<Rightarrow> world" where
  "scrub_user run w =
     (case read_dir (join run ''user'') w of
        (Inl _, w1) \<Rightarrow> w1
      | (Inr cs, w1) \<Rightarrow> foldl (\<lambda>w c. snd (remove_dir (join (join run ''user'') c) w)) w1 cs)"

definition scrub :: "path \<Rightarrow> snapshot \<Rightarrow> path list \<Rightarrow> path list \<Rightarrow> world \<Rightarrow> scrub_report \<times> world" where
  "scrub run snap extra points w =
     (case scrub_dirs run points SESSION_STATE_DIRS \<lparr>removed = [], failed = [], detached = []\<rparr> w of
        (r1, w1) \<Rightarrow>
     (case remove_all run points SESSION_STATE_FILES r1 w1 of
        (r2, w2) \<Rightarrow>
     (case list_run run (scrub_user run w2) of
        (es, w3) \<Rightarrow>
     (case remove_all run points
             (filter (\<lambda>e. (\<exists>x\<in>set extra. path_eq x e) \<or> \<not> snap_contains snap e) es) r2 w3 of
        (r3, w4) \<Rightarrow> remove_all run points extra r3 w4))))"

subsection \<open>The kernel log cursor\<close>

definition record_seqnum :: "bytes \<Rightarrow> nat option" where
  "record_seqnum rec =
     (case split_on (CHR '','') (hd (split_on (CHR '';'') rec)) of
        _ # seq # _ \<Rightarrow> if utf8_valid seq then parse_u64 seq else None
      | _ \<Rightarrow> None)"

fun max_option :: "nat list \<Rightarrow> nat option" where
  "max_option [] = None"
| "max_option (x # xs) = (case max_option xs of None \<Rightarrow> Some x | Some y \<Rightarrow> Some (max x y))"

definition highest_in :: "bytes \<Rightarrow> nat option" where
  "highest_in buffer =
     max_option (filter_map record_seqnum
       (filter (\<lambda>l. l \<noteq> [] \<and> hd l \<noteq> CHR '' '') (split_on newline buffer)))"

text \<open>The read loop of \<^verbatim>\<open>next_kernel_seqnum\<close>: what each read gives, until the buffer is drained.  A
  read that was overtaken or interrupted is tried again.\<close>

datatype kmsg_read = Chunk bytes | Overtaken | Interrupted | Drained | ReadError

fun seqnum_loop :: "nat option \<Rightarrow> kmsg_read list \<Rightarrow> nat option" where
  "seqnum_loop highest [] = highest"
| "seqnum_loop highest (Chunk b # rs) =
     (if b = [] then highest
      else seqnum_loop (case highest_in b of None \<Rightarrow> highest
                        | Some s \<Rightarrow> (case highest of None \<Rightarrow> Some s | Some h \<Rightarrow> Some (max h s))) rs)"
| "seqnum_loop highest (Overtaken # rs) = seqnum_loop highest rs"
| "seqnum_loop highest (Interrupted # rs) = seqnum_loop highest rs"
| "seqnum_loop highest (Drained # rs) = highest"
| "seqnum_loop highest (ReadError # rs) = highest"

definition next_kernel_seqnum :: "kmsg_read list \<Rightarrow> nat option" where
  "next_kernel_seqnum reads = map_option Suc (seqnum_loop None reads)"

definition KERNEL_SEQNUM :: path where "KERNEL_SEQNUM = ''systemd/journal/kernel-seqnum''"

section \<open>Lemmas\<close>

subsection \<open>The text of a snapshot\<close>

lemma escape_entry_Nil [simp]: "escape_entry [] = []"
  by (simp add: escape_entry_def)

lemma escape_entry_Cons:
  "escape_entry (b # e) =
     (if b = backslash then [backslash, backslash]
      else if b = newline then [backslash, CHR ''n''] else [b]) @ escape_entry e"
  by (simp add: escape_entry_def)

lemma newline_distinct [simp]: "newline \<noteq> backslash" "backslash \<noteq> newline"
  "newline \<noteq> CHR ''n''" "backslash \<noteq> CHR ''n''" "CHR ''n'' \<noteq> newline" "CHR ''n'' \<noteq> backslash"
  by (simp_all add: newline_def backslash_def)

lemma unescape_escape_entry: "unescape_entry False (escape_entry e) = e"
  by (induction e) (auto simp: escape_entry_Cons)

lemma escape_entry_no_newline: "newline \<notin> set (escape_entry e)"
  by (induction e) (auto simp: escape_entry_Cons)

lemma escape_entry_empty_iff [simp]: "escape_entry e = [] \<longleftrightarrow> e = []"
  by (cases e) (auto simp: escape_entry_Cons)

lemma split_to_text: "split_on newline (to_text s) = map escape_entry (entries s) @ [[]]"
proof -
  have "split_on newline (concat (map (\<lambda>e. escape_entry e @ [newline]) es)) = map escape_entry es @ [[]]" for es
    by (induction es) (simp_all add: split_on_append_delim split_on_id escape_entry_no_newline)
  then show ?thesis by (simp add: to_text_def)
qed

lemma to_set_id: "sorted es \<Longrightarrow> distinct es \<Longrightarrow> to_set es = es"
  by (simp add: to_set_def sorted_sort_id distinct_remdups_id)

lemma to_set_ok: "snapshot_ok \<lparr>entries = to_set es\<rparr>" "set (to_set es) = set es"
  by (simp_all add: snapshot_ok_def to_set_def)

subsection \<open>Reading leaves the tree\<close>

definition same_tree :: "world \<Rightarrow> world \<Rightarrow> bool" where
  "same_tree w w' \<longleftrightarrow> w_fs w' = w_fs w \<and> touches {} w w'"

lemma same_tree_refl [simp]: "same_tree w w"
  by (simp add: same_tree_def)

lemma same_tree_trans [trans]: "same_tree w w1 \<Longrightarrow> same_tree w1 w2 \<Longrightarrow> same_tree w w2"
  using touches_trans by (auto simp: same_tree_def)

lemma same_tree_reads:
  "lstat p w = (r1, w') \<Longrightarrow> same_tree w w'"
  "read_dir p w = (r2, w') \<Longrightarrow> same_tree w w'"
  "read_file p w = (r3, w') \<Longrightarrow> same_tree w w'"
  "act_only act w = (r4, w') \<Longrightarrow> same_tree w w'"
  using lstat_touches read_dir_touches read_file_touches act_only_touches by (auto simp: same_tree_def)

lemma walk_same_tree:
  "walk run rel dev depth names w = (out, w') \<Longrightarrow> same_tree w w'"
  "walk_entry run r dev depth w = (out, w') \<Longrightarrow> same_tree w w'"
proof (induction run rel dev depth names w and run r dev depth w arbitrary: out w' and out w'
    rule: walk_walk_entry.induct)
  case (2 run rel dev depth name names w)
  then show ?case
    by (auto split: if_splits prod.splits intro: same_tree_trans)
next
  case (3 run r dev depth w)
  then show ?case
    by (auto simp: walk_entry.simps [of run r] split: prod.splits sum.splits if_splits
        dest!: same_tree_reads intro: same_tree_trans)
qed simp

lemma list_run_same_tree: "list_run run w = (es, w') \<Longrightarrow> same_tree w w'"
  by (auto simp: list_run_def split: prod.splits sum.splits
      dest!: same_tree_reads walk_same_tree intro: same_tree_trans)

subsection \<open>The listing is complete\<close>

text \<open>The relative path of a list of names, and the names below a directory that the listing goes
  on to: each directory on the way is one, on the device of the root and not too deep.\<close>

abbreviation rel_of :: "bytes list \<Rightarrow> path" where
  "rel_of ns \<equiv> join_with ''/'' ns"

definition name_ok :: "bytes \<Rightarrow> bool" where
  "name_ok n \<longleftrightarrow> component_of n = Some (Normal n) \<and> slash \<notin> set n"

definition tree_ok :: "tree \<Rightarrow> bool" where
  "tree_ok fs \<longleftrightarrow> (\<forall>(k, _)\<in>set fs. \<forall>n. Normal n \<in> set k \<longrightarrow> name_ok n)"

fun listable :: "tree \<Rightarrow> (key \<Rightarrow> nat) \<Rightarrow> key \<Rightarrow> nat \<Rightarrow> bytes list \<Rightarrow> bytes list \<Rightarrow> bool" where
  "listable fs dv root dev ns [] = True"
| "listable fs dv root dev ns (m # ms) =
     (map_of fs (root @ map Normal ns) = Some Dir \<and> dv (root @ map Normal ns) = dev
      \<and> (ns \<noteq> [] \<longrightarrow> length ns < max_depth (rel_of ns))
      \<and> m \<in> set (children_of fs (root @ map Normal ns)) \<and> listable fs dv root dev (ns @ [m]) ms)"

lemma name_ok_not_absolute: "name_ok n \<Longrightarrow> \<not> is_absolute n \<and> n \<noteq> []"
  by (cases n) (auto simp: name_ok_def is_absolute_def component_of_def)

lemma rel_of_not_absolute: "\<forall>n\<in>set ns. name_ok n \<Longrightarrow> \<not> is_absolute (rel_of ns)"
proof (cases ns rule: remdups_adj.cases)
  case (3 n m ms)
  moreover assume "\<forall>n\<in>set ns. name_ok n"
  ultimately have "name_ok n" by simp
  then have "n \<noteq> []" "hd n \<noteq> slash" using name_ok_not_absolute by (auto simp: is_absolute_def)
  with 3 show ?thesis by (simp add: is_absolute_def)
qed (auto simp: is_absolute_def dest: name_ok_not_absolute)

lemma rel_of_components: "\<forall>n\<in>set ns. name_ok n \<Longrightarrow> filter_map component_of (split_on slash (rel_of ns)) = map Normal ns"
proof (cases "ns = []")
  case False
  assume ok: "\<forall>n\<in>set ns. name_ok n"
  then have "split_on slash (rel_of ns) = ns"
    using False by (intro split_on_join) (auto simp: name_ok_def)
  with ok show ?thesis by (simp add: filter_map_eq_map [where g = Normal] name_ok_def)
qed (simp add: component_of_def)

lemma key_join_rel:
  "is_absolute run \<Longrightarrow> \<forall>n\<in>set ns. name_ok n \<Longrightarrow> key_of (join run (rel_of ns)) = key_of run @ map Normal ns"
  by (simp add: components_join rel_of_not_absolute rel_of_components)

lemma join_with_snoc': "ps \<noteq> [] \<Longrightarrow> join_with sep (ps @ [q]) = join_with sep ps @ sep @ q"
  by (induction sep ps rule: join_with.induct) auto

lemma rel_of_snoc: "\<forall>n\<in>set ns. name_ok n \<Longrightarrow> name_ok m \<Longrightarrow> join (rel_of ns) m = rel_of (ns @ [m])"
proof (cases "ns = []")
  case False
  assume ok: "\<forall>n\<in>set ns. name_ok n" "name_ok m"
  have "rel_of ns \<noteq> [] \<and> last (rel_of ns) \<noteq> slash"
    using False ok(1)
  proof (induction "''/''" ns rule: join_with.induct)
    case (2 p)
    then have "name_ok p" by simp
    then show ?case using name_ok_not_absolute [of p] by (metis join_with.simps(2) last_in_set name_ok_def)
  next
    case (3 p q ps)
    then show ?case by simp
  qed simp
  with False ok(2) name_ok_not_absolute [OF ok(2)] show ?thesis
    by (simp add: join_def join_with_snoc')
qed (auto simp: join_def dest: name_ok_not_absolute)

lemma calm_lstat: "calm w \<Longrightarrow> lstat p w = (r, w') \<Longrightarrow> r = (case node_at w p of Some n \<Rightarrow> Inr n | None \<Rightarrow> Inl NotFound)"
  by (auto simp: lstat_def calm_attempt node_at_def)

lemma calm_read_dir:
  "calm w \<Longrightarrow> read_dir p w = (r, w') \<Longrightarrow> node_at w p = Some Dir \<Longrightarrow> r = Inr (children_of (w_fs w) (key_of p))"
  by (auto simp: read_dir_def calm_attempt node_at_def)

lemma same_treeD: "same_tree w w' \<Longrightarrow> w_fs w' = w_fs w \<and> w_dev w' = w_dev w \<and> (calm w' \<longleftrightarrow> calm w)"
  by (auto simp: same_tree_def touches_def calm_def)

lemma children_of_ok: "tree_ok fs \<Longrightarrow> n \<in> set (children_of fs k) \<Longrightarrow> name_ok n"
proof -
  assume ok: "tree_ok fs" and "n \<in> set (children_of fs k)"
  then obtain k' v where k': "(k', v) \<in> set fs" "length k' = Suc (length k)" "last k' = Normal n"
    by (auto simp: children_of_def set_filter_map split: if_splits component.splits)
  then have "Normal n \<in> set k'" by (metis last_in_set length_0_conv nat.distinct(1))
  with ok k'(1) show ?thesis by (auto simp: tree_ok_def)
qed

lemma walk_entry_self: "walk_entry run r dev depth w = (es, w') \<Longrightarrow> r \<in> set es"
  by (auto simp: walk_entry.simps split: prod.splits sum.splits if_splits)

lemma walk_complete:
  "walk run rel dev depth names w = (out, w') \<Longrightarrow> calm w \<Longrightarrow> tree_ok (w_fs w) \<Longrightarrow> is_absolute run \<Longrightarrow>
     rel = rel_of ns \<Longrightarrow> \<forall>n\<in>set (ns @ names). name_ok n \<Longrightarrow> depth = Suc (length ns) \<Longrightarrow>
     n \<in> set names \<Longrightarrow> \<not> (depth = 1 \<and> n \<in> set PRUNED) \<Longrightarrow>
     listable (w_fs w) (w_dev w) (key_of run) dev (ns @ [n]) ms \<Longrightarrow> rel_of (ns @ n # ms) \<in> set out"
  "walk_entry run r dev depth w = (es, w') \<Longrightarrow> calm w \<Longrightarrow> tree_ok (w_fs w) \<Longrightarrow> is_absolute run \<Longrightarrow>
     r = rel_of ns \<Longrightarrow> \<forall>n\<in>set ns. name_ok n \<Longrightarrow> ns \<noteq> [] \<Longrightarrow> depth = length ns \<Longrightarrow>
     listable (w_fs w) (w_dev w) (key_of run) dev ns ms \<Longrightarrow> rel_of (ns @ ms) \<in> set es"
proof (induction run rel dev depth names w and run r dev depth w
    arbitrary: out w' ns n ms and es w' ns ms rule: walk_walk_entry.induct)
  case (2 run rel dev depth name names w)
  show ?case
  proof (cases "depth = 1 \<and> name \<in> set PRUNED")
    case True
    with 2(4,11,12) have "n \<in> set names" "walk run rel dev depth names w = (out, w')" by auto
    with 2(1) [OF True this(2) 2(5-8) _ 2(10) this(1) 2(12,13)] 2(9) show ?thesis by simp
  next
    case False
    obtain es w1 where es: "walk_entry run (join rel name) dev depth w = (es, w1)" by fastforce
    obtain o2 w2 where o2: "walk run rel dev depth names w1 = (o2, w2)" by fastforce
    have out: "out = es @ o2" using 2(4) es o2 False by auto
    note s = same_treeD [OF walk_same_tree(2) [OF es]]
    have nm: "name_ok name" "\<forall>n\<in>set ns. name_ok n" using 2(9) by auto
    have j: "join rel name = rel_of (ns @ [name])" using rel_of_snoc nm 2(8) by simp
    show ?thesis
    proof (cases "n = name")
      case True
      have "rel_of ((ns @ [name]) @ ms) \<in> set es"
        by (rule 2(2) [OF False es 2(5-7) j]) (use nm 2(10,13) True in auto)
      with True out show ?thesis by simp
    next
      case other: False
      have "rel_of (ns @ n # ms) \<in> set o2"
        by (rule 2(3) [OF False es [symmetric] o2]) (use 2(5-13) s other in auto)
      with out show ?thesis by simp
    qed
  qed
next
  case (3 run r dev depth w)
  show ?case
  proof (cases ms)
    case Nil
    with walk_entry_self [OF 3(2)] 3(6) show ?thesis by simp
  next
    case (Cons m ms')
    have k: "key_of (join run r) = key_of run @ map Normal ns" using key_join_rel 3(5-7) by simp
    with 3(10) Cons 3(6,8,9) have l: "node_at w (join run r) = Some Dir" "w_dev w (key_of (join run r)) = dev"
      "depth < max_depth r" "m \<in> set (children_of (w_fs w) (key_of (join run r)))"
      "listable (w_fs w) (w_dev w) (key_of run) dev (ns @ [m]) ms'"
      by (auto simp: node_at_def)
    obtain x w1 where x: "lstat (join run r) w = (x, w1)" by fastforce
    note s1 = same_treeD [OF same_tree_reads(1) [OF x]]
    have xd: "x = Inr Dir" using calm_lstat [OF 3(3) x] l(1) by simp
    obtain d w2 where d: "read_dir (join run r) w1 = (d, w2)" by fastforce
    note s2 = same_treeD [OF same_tree_reads(2) [OF d]]
    have dd: "d = Inr (children_of (w_fs w) (key_of (join run r)))"
      using calm_read_dir [OF _ d] s1 3(3) l(1) by (simp add: node_at_def)
    obtain sub w3 where sub: "walk run r dev (depth + 1) (children_of (w_fs w) (key_of (join run r))) w2 = (sub, w3)"
      by fastforce
    have es: "es = r # sub" using 3(2) x xd d dd sub l s1 by (simp add: walk_entry.simps)
    have go: "Dir = Dir \<and> w_dev w1 (key_of (join run r)) = dev \<and> depth < max_depth r" using l s1 by simp
    have "rel_of (ns @ m # ms') \<in> set sub"
      by (rule 3(1) [OF x [symmetric] xd go d [symmetric] dd sub])
        (use 3(3-9) l s1 s2 children_of_ok [OF 3(4)] in auto)
    with es Cons show ?thesis by simp
  qed
qed simp

subsection \<open>Removing\<close>

definition shrinks :: "world \<Rightarrow> world \<Rightarrow> bool" where
  "shrinks w w' \<longleftrightarrow> touches UNIV w w' \<and> (\<forall>k v. map_of (w_fs w') k = Some v \<longrightarrow> map_of (w_fs w) k = Some v)"

lemma shrinks_refl [simp]: "shrinks w w"
  by (simp add: shrinks_def)

lemma shrinks_trans [trans]: "shrinks w w1 \<Longrightarrow> shrinks w1 w2 \<Longrightarrow> shrinks w w2"
  using touches_trans by (fastforce simp: shrinks_def)

lemma same_tree_shrinks: "same_tree w w' \<Longrightarrow> shrinks w w'"
  by (auto simp: same_tree_def shrinks_def intro: touches_mono)

lemma shrinks_calm: "shrinks w w' \<Longrightarrow> calm w \<Longrightarrow> calm w'"
  by (auto simp: shrinks_def intro: calm_touches)

lemma shrinks_dev: "shrinks w w' \<Longrightarrow> w_dev w' = w_dev w"
  by (auto simp: shrinks_def touches_def)

lemma shrinks_node: "shrinks w w' \<Longrightarrow> node_at w' p = Some n \<Longrightarrow> node_at w p = Some n"
  by (auto simp: shrinks_def node_at_def)

lemma attempt_same_tree: "attempt act w = (r, w') \<Longrightarrow> same_tree w w'"
  using attempt_touches [of act w r w' "{}"] by (simp add: same_tree_def)

lemma drop_shrinks: "shrinks w w1 \<Longrightarrow> shrinks w (drop_key p w1)" "shrinks w w1 \<Longrightarrow> shrinks w (drop_tree p w1)"
  by (auto simp: shrinks_def drop_key_touches drop_tree_touches)
    (auto simp: drop_key_def drop_tree_def delete_conv' map_of_filter_fst split: if_splits)

lemma remove_file_shrinks: "remove_file p w = (r, w') \<Longrightarrow> shrinks w w'"
  by (auto simp: remove_file_def split: prod.splits option.splits node.splits
      dest!: attempt_same_tree same_tree_shrinks intro: drop_shrinks)

lemma remove_dir_shrinks: "remove_dir p w = (r, w') \<Longrightarrow> shrinks w w'"
  by (auto simp: remove_dir_def split: prod.splits option.splits node.splits if_splits
      dest!: attempt_same_tree same_tree_shrinks intro: drop_shrinks)

lemma filter_shrinks: "shrinks w w1 \<Longrightarrow> w_fs w1 = fs \<Longrightarrow> shrinks w (w1\<lparr>w_fs := filter (\<lambda>(k, _). P k) fs\<rparr>)"
  by (auto simp: shrinks_def touches_def map_of_filter_fst split: if_splits)

lemma remove_dir_all_shrinks: "remove_dir_all p w = (r, w') \<Longrightarrow> shrinks w w'"
  by (auto simp: remove_dir_all_def split: prod.splits option.splits node.splits
      dest!: attempt_same_tree dest: same_tree_shrinks intro: drop_shrinks filter_shrinks)

lemma detach_loop_same_tree: "detach_loop ms w = (out, w') \<Longrightarrow> same_tree w w'"
  by (induction ms arbitrary: w out w')
    (auto split: prod.splits dest!: same_tree_reads(4) intro: same_tree_trans)

lemma calm_remove_file:
  "calm w \<Longrightarrow> remove_file p w = (r, w') \<Longrightarrow> node_at w p = Some n \<Longrightarrow> n \<noteq> Dir \<Longrightarrow>
     r = None \<and> w' = drop_key p (w\<lparr>w_log := OpRemoveFile p # w_log w\<rparr>)"
  by (cases n) (auto simp: remove_file_def calm_attempt node_at_def)

lemma calm_remove_dir_all:
  "calm w \<Longrightarrow> remove_dir_all p w = (r, w') \<Longrightarrow> node_at w p = Some Dir \<Longrightarrow>
     r = None \<and> w' = drop_tree p (w\<lparr>w_log := OpRemoveDirAll p # w_log w\<rparr>)"
  by (auto simp: remove_dir_all_def calm_attempt node_at_def)

text \<open>Removing one entry on a calm host: it is gone unless it is a socket, and what is gone is
  reported.\<close>

definition reported :: "path \<Rightarrow> scrub_report \<Rightarrow> path \<Rightarrow> bool" where
  "reported run report q \<longleftrightarrow> (\<exists>r\<in>set (removed report). path_starts_with q (join run r))"

lemma remove_entry_calm:
  assumes "calm w" "remove_entry run points rel report w = (report', w')"
  shows "shrinks w w'" and "node_at w' (join run rel) \<in> {None, Some Socket}"
    and "set (removed report) \<subseteq> set (removed report')"
    and "\<not> reported run report' q \<Longrightarrow> node_at w' q = node_at w q"
proof -
  let ?p = "join run rel"
  obtain x w1 where x: "lstat ?p w = (x, w1)" by fastforce
  have st1: "same_tree w w1" using x same_tree_reads(1) by blast
  then have c1: "calm w1" using assms(1) same_treeD by blast
  have nd: "\<And>q. node_at w1 q = node_at w q" using same_treeD [OF st1] by (simp add: node_at_def)
  note xv = calm_lstat [OF assms(1) x]
  consider "node_at w ?p = None" | "node_at w ?p = Some Socket" | "node_at w ?p = Some Dir"
    | n where "node_at w ?p = Some n" "n \<noteq> Socket" "n \<noteq> Dir" by fastforce
  then have "shrinks w w' \<and> node_at w' ?p \<in> {None, Some Socket} \<and> set (removed report) \<subseteq> set (removed report')
      \<and> (\<not> reported run report' q \<longrightarrow> node_at w' q = node_at w q)"
  proof cases
    case 1
    with assms(2) x xv have "w' = w1" "report' = report" by (simp_all add: remove_entry_def)
    with 1 nd st1 show ?thesis by (simp add: same_tree_shrinks)
  next
    case 2
    with assms(2) x xv have "w' = w1" "report' = report" by (simp_all add: remove_entry_def)
    with 2 nd st1 show ?thesis by (simp add: same_tree_shrinks)
  next
    case 3
    obtain gone w2 where g: "detach_under ?p points w1 = (gone, w2)" by fastforce
    have st2: "same_tree w1 w2" using g detach_loop_same_tree by (simp add: detach_under_def)
    then have c2: "calm w2" and n2: "\<And>q. node_at w2 q = node_at w q"
      using c1 same_treeD nd by (auto simp: node_at_def)
    obtain r w3 where r: "remove_dir_all ?p w2 = (r, w3)" by fastforce
    from calm_remove_dir_all [OF c2 r] 3 n2
    have rv: "r = None" "w3 = drop_tree ?p (w2\<lparr>w_log := OpRemoveDirAll ?p # w_log w2\<rparr>)" by auto
    have "w' = w3" "report' = report\<lparr>detached := detached report @ gone, removed := removed report @ [rel]\<rparr>"
      using assms(2) x xv 3 g r rv(1) by (simp_all add: remove_entry_def)
    moreover have "shrinks w w3"
      using remove_dir_all_shrinks [OF r] same_tree_shrinks st1 st2 shrinks_trans by blast
    moreover have "node_at w3 q = (if path_starts_with q ?p then None else node_at w q)" for q
      using rv(2) n2 by simp
    ultimately show ?thesis by (auto simp: reported_def)
  next
    case (4 n)
    obtain r w3 where r: "remove_file ?p w1 = (r, w3)" by fastforce
    from calm_remove_file [OF c1 r _ 4(3)] 4 nd
    have rv: "r = None" "w3 = drop_key ?p (w1\<lparr>w_log := OpRemoveFile ?p # w_log w1\<rparr>)" by auto
    have "w' = w3" "report' = report\<lparr>detached := detached report @ [], removed := removed report @ [rel]\<rparr>"
      using assms(2) x xv 4 r rv(1) by (simp_all add: remove_entry_def)
    moreover have "shrinks w w3" using remove_file_shrinks [OF r] same_tree_shrinks st1 shrinks_trans by blast
    moreover have "node_at w3 q = (if path_eq ?p q then None else node_at w q)" for q
      using rv(2) nd by simp
    ultimately show ?thesis by (auto simp: reported_def path_eq_def path_starts_with_def)
  qed
  then show "shrinks w w'" "node_at w' ?p \<in> {None, Some Socket}" "set (removed report) \<subseteq> set (removed report')"
    "\<not> reported run report' q \<Longrightarrow> node_at w' q = node_at w q" by auto
qed

lemma reported_mono:
  "set (removed r) \<subseteq> set (removed r') \<Longrightarrow> \<not> reported run r' q \<Longrightarrow> \<not> reported run r q"
  by (auto simp: reported_def)

lemma remove_all_calm:
  assumes "calm w" "remove_all run points rs report w = (report', w')"
  shows "shrinks w w' \<and> (\<forall>r\<in>set rs. node_at w' (join run r) \<in> {None, Some Socket})
       \<and> set (removed report) \<subseteq> set (removed report')
       \<and> (\<forall>q. \<not> reported run report' q \<longrightarrow> node_at w' q = node_at w q)"
  using assms
proof (induction rs arbitrary: report w)
  case (Cons r rs)
  obtain report1 w1 where e: "remove_entry run points r report w = (report1, w1)" by fastforce
  note one = remove_entry_calm [OF Cons.prems(1) e]
  from Cons.prems(2) e have "remove_all run points rs report1 w1 = (report', w')" by simp
  from Cons.IH [OF shrinks_calm [OF one(1) Cons.prems(1)] this]
  have rest: "shrinks w1 w'" "\<forall>r\<in>set rs. node_at w' (join run r) \<in> {None, Some Socket}"
    "set (removed report1) \<subseteq> set (removed report')" "\<forall>q. \<not> reported run report' q \<longrightarrow> node_at w' q = node_at w1 q"
    by auto
  have "node_at w' (join run r) \<in> {None, Some Socket}"
    using one(2) shrinks_node [OF rest(1), of "join run r"] by (cases "node_at w' (join run r)") auto
  moreover have "\<not> reported run report' q \<Longrightarrow> \<not> reported run report1 q" for q
    using rest(3) by (auto simp: reported_def)
  ultimately show ?case
    using one rest shrinks_trans by fastforce
qed simp

lemma scrub_dirs_calm:
  assumes "calm w" "scrub_dirs run points ds report w = (report', w')"
  shows "shrinks w w' \<and> set (removed report) \<subseteq> set (removed report')
       \<and> (\<forall>q. \<not> reported run report' q \<longrightarrow> node_at w' q = node_at w q)"
  using assms
proof (induction ds arbitrary: report w)
  case (Cons d ds)
  obtain x w1 where x: "read_dir (join run d) w = (x, w1)" by fastforce
  note st = same_tree_reads(2) [OF x]
  have nd: "\<And>q. node_at w1 q = node_at w q" and c1: "calm w1"
    using same_treeD [OF st] Cons.prems(1) by (auto simp: node_at_def)
  show ?case
  proof (cases x)
    case (Inl e)
    with Cons.prems(2) x have "scrub_dirs run points ds report w1 = (report', w')" by simp
    from Cons.IH [OF c1 this] nd same_tree_shrinks [OF st] show ?thesis using shrinks_trans by fastforce
  next
    case (Inr cs)
    obtain report1 w2 where a: "remove_all run points (map (join d) cs) report w1 = (report1, w2)" by fastforce
    note ra = remove_all_calm [OF c1 a]
    from Cons.prems(2) x Inr a have "scrub_dirs run points ds report1 w2 = (report', w')" by simp
    from Cons.IH [OF shrinks_calm [OF _ c1] this] ra
    have rest: "shrinks w2 w'" "set (removed report1) \<subseteq> set (removed report')"
      "\<forall>q. \<not> reported run report' q \<longrightarrow> node_at w' q = node_at w2 q" by auto
    have "\<not> reported run report' q \<Longrightarrow> \<not> reported run report1 q" for q
      using rest(2) by (auto simp: reported_def)
    moreover have "shrinks w w'" using ra rest(1) same_tree_shrinks [OF st] shrinks_trans by blast
    ultimately show ?thesis using ra rest nd by fastforce
  qed
qed simp

text \<open>The user directories: only entries directly below \<^verbatim>\<open>/run/user\<close> go.\<close>

definition below_user :: "path \<Rightarrow> path \<Rightarrow> bool" where
  "below_user run q \<longleftrightarrow> path_starts_with q (join run ''user'')"

lemma remove_dirs_shrinks:
  "shrinks w (foldl (\<lambda>w c. snd (remove_dir (f c) w)) w cs)
   \<and> (\<forall>q. (\<forall>c\<in>set cs. \<not> path_eq q (f c)) \<longrightarrow> node_at (foldl (\<lambda>w c. snd (remove_dir (f c) w)) w cs) q = node_at w q)"
proof (induction cs arbitrary: w)
  case (Cons c cs)
  obtain r w1 where r: "remove_dir (f c) w = (r, w1)" by fastforce
  have "\<not> path_eq q (f c) \<Longrightarrow> node_at w1 q = node_at w q" for q
    using touches_node [OF remove_dir_touches [OF r]] by (auto simp: path_eq_def)
  then show ?case
    using Cons [of w1] remove_dir_shrinks [OF r] r shrinks_trans by fastforce
qed simp

lemma scrub_user_shrinks: "shrinks w (scrub_user run w)"
proof -
  obtain x w1 where x: "read_dir (join run ''user'') w = (x, w1)" by fastforce
  show ?thesis
    using x same_tree_shrinks [OF same_tree_reads(2) [OF x]] remove_dirs_shrinks [of w1 "join (join run ''user'')"] shrinks_trans
    by (cases x) (auto simp: scrub_user_def)
qed

lemma scrub_user_frame:
  assumes "is_absolute run" "tree_ok (w_fs w)" "\<not> below_user run q"
  shows "node_at (scrub_user run w) q = node_at w q"
proof -
  let ?u = "join run ''user''"
  obtain x w1 where x: "read_dir ?u w = (x, w1)" by fastforce
  note st = same_treeD [OF same_tree_reads(2) [OF x]]
  have u: "is_absolute ?u" using assms(1) by (auto simp: join_def is_absolute_def)
  have "\<not> path_eq q (join ?u c)" if "x = Inr cs" "c \<in> set cs" for c cs
  proof -
    have "c \<in> set (children_of (w_fs w1) (key_of ?u))"
      using x that by (auto simp: read_dir_def split: prod.splits option.splits node.splits)
    then have "\<not> is_absolute c" using children_of_ok st assms(2) name_ok_not_absolute by metis
    then have "path_starts_with (join ?u c) ?u" using join_starts_with u by blast
    then show ?thesis using assms(3) path_starts_with_eq_left by (auto simp: below_user_def)
  qed
  then show ?thesis
    using x st remove_dirs_shrinks [of w1 "join ?u"] by (cases x) (auto simp: scrub_user_def node_at_def)
qed

lemma child_key: "length k' = Suc (length k) \<and> prefix k k' \<and> last k' = c \<longleftrightarrow> k' = k @ [c]"
proof
  assume a: "length k' = Suc (length k) \<and> prefix k k' \<and> last k' = c"
  then obtain zs where z: "k' = k @ zs" "length zs = Suc 0" by (auto simp: prefix_def)
  then obtain z where "zs = [z]" by (auto simp: length_Suc_conv)
  with a z show "k' = k @ [c]" by simp
qed simp

lemma children_of_mem:
  "m \<in> set (children_of fs k) \<longleftrightarrow> (\<exists>v. map_of fs (k @ [Normal m]) = Some v)"
proof -
  have "(case x of (k', _) \<Rightarrow> if length k' = Suc (length k) \<and> prefix k k'
          then (case last k' of Normal n \<Rightarrow> Some n | _ \<Rightarrow> None) else None) = Some m
        \<longleftrightarrow> fst x = k @ [Normal m]" for x :: "key \<times> node"
    using child_key [of "fst x" k "Normal m"] by (auto split: prod.splits component.splits)
  then have "m \<in> set (children_of fs k) \<longleftrightarrow> (\<exists>x\<in>set fs. fst x = k @ [Normal m])"
    by (simp add: children_of_def set_filter_map)
  then show ?thesis by (metis fst_conv map_of_SomeD map_of_eq_None_iff image_eqI option.exhaust)
qed

lemma listable_shrinks:
  "shrinks w w' \<Longrightarrow> listable (w_fs w') dv root dev ns ms \<Longrightarrow> listable (w_fs w) dv root dev ns ms"
  by (induction ms arbitrary: ns) (auto simp: children_of_mem shrinks_def)

lemma listable_names: "tree_ok fs \<Longrightarrow> listable fs dv root dev ns ms \<Longrightarrow> \<forall>m\<in>set ms. name_ok m"
  by (induction ms arbitrary: ns) (auto dest: children_of_ok)

lemma shrinks_tree_ok: "shrinks w w' \<Longrightarrow> tree_ok (w_fs w) \<Longrightarrow> tree_ok (w_fs w')"
proof -
  assume s: "shrinks w w'" and ok: "tree_ok (w_fs w)"
  have "\<exists>v'. (k, v') \<in> set (w_fs w)" if "(k, v) \<in> set (w_fs w')" for k v
    using s weak_map_of_SomeI [OF that] unfolding shrinks_def by (meson map_of_SomeD)
  with ok show ?thesis unfolding tree_ok_def by fastforce
qed

lemma list_run_complete:
  assumes "calm w" "tree_ok (w_fs w)" "is_absolute run" "list_run run w = (es, w')"
    and l: "listable (w_fs w) (w_dev w) (key_of run) (w_dev w (key_of run)) [] (m # ms)" "m \<notin> set PRUNED"
  shows "rel_of (m # ms) \<in> set es"
proof -
  have k: "key_of (join run []) = key_of run" using components_join [OF assms(3), of "[]"]
    by (simp add: is_absolute_def component_of_def)
  have d: "node_at w run = Some Dir" "m \<in> set (children_of (w_fs w) (key_of run))" using l(1) by (auto simp: node_at_def)
  obtain x w1 where x: "lstat run w = (x, w1)" by fastforce
  note s1 = same_treeD [OF same_tree_reads(1) [OF x]]
  have xd: "x = Inr Dir" using calm_lstat [OF assms(1) x] d by simp
  obtain y w2 where y: "read_dir (join run []) w1 = (y, w2)" by fastforce
  note s2 = same_treeD [OF same_tree_reads(2) [OF y]]
  have yd: "y = Inr (children_of (w_fs w) (key_of run))"
    using calm_read_dir [OF _ y] s1 assms(1) d(1) k by (simp add: node_at_def)
  have wk: "walk run [] (w_dev w1 (key_of run)) 1 (children_of (w_fs w) (key_of run)) w2 = (es, w')"
    using assms(4) x xd y yd by (simp add: list_run_def)
  have "rel_of ([] @ m # ms) \<in> set es"
    by (rule walk_complete(1) [OF wk])
      (use assms(1-3) l d(2) s1 s2 children_of_ok [OF assms(2)] in auto)
  then show ?thesis by simp
qed

section \<open>Properties\<close>

text \<open>C29: the scrub is complete.  On a host that refuses nothing, whatever the listing of \<^verbatim>\<open>/run\<close>
  still reaches afterwards is a socket or an entry of the snapshot that is none of the names to
  remove by force: nothing else the hidden session put there is left for the decoy to find.\<close>

theorem scrub_complete:
  assumes "calm w" "tree_ok (w_fs w)" "is_absolute run" "scrub run snap extra points w = (report, w')"
    and "listable (w_fs w') (w_dev w') (key_of run) (w_dev w' (key_of run)) [] (m # ms)" "m \<notin> set PRUNED"
    and "node_at w' (join run (rel_of (m # ms))) = Some n"
  shows "n = Socket \<or> snap_contains snap (rel_of (m # ms)) \<and> \<not> (\<exists>x\<in>set extra. path_eq x (rel_of (m # ms)))"
proof (rule ccontr)
  assume left: "\<not> ?thesis"
  obtain r1 w1 where a1: "scrub_dirs run points SESSION_STATE_DIRS \<lparr>removed = [], failed = [], detached = []\<rparr> w = (r1, w1)"
    by fastforce
  obtain r2 w2 where a2: "remove_all run points SESSION_STATE_FILES r1 w1 = (r2, w2)" by fastforce
  let ?u = "scrub_user run w2"
  obtain es w3 where a3: "list_run run ?u = (es, w3)" by fastforce
  let ?go = "filter (\<lambda>e. (\<exists>x\<in>set extra. path_eq x e) \<or> \<not> snap_contains snap e) es"
  obtain r3 w4 where a4: "remove_all run points ?go r2 w3 = (r3, w4)" by fastforce
  have a5: "remove_all run points extra r3 w4 = (report, w')"
    using assms(4) a1 a2 a3 a4 by (simp add: scrub_def)
  have s2: "shrinks w w2"
    using scrub_dirs_calm [OF assms(1) a1] remove_all_calm [OF shrinks_calm [OF _ assms(1)] a2] shrinks_trans by blast
  then have u: "shrinks w ?u" using scrub_user_shrinks shrinks_trans by blast
  have s3: "shrinks ?u w3" using list_run_same_tree [OF a3] same_tree_shrinks by blast
  have c3: "calm w3" using u s3 assms(1) shrinks_calm by blast
  note r4 = remove_all_calm [OF c3 a4]
  have s5: "shrinks w4 w'" using remove_all_calm [OF shrinks_calm [OF _ c3] a5] r4 by blast
  have s: "shrinks ?u w'" using s3 r4 s5 shrinks_trans by blast
  have dv: "w_dev ?u = w_dev w'" using s shrinks_dev by metis
  have "rel_of (m # ms) \<in> set es"
    by (rule list_run_complete [OF _ _ assms(3) a3])
      (use u assms(1,2,6) shrinks_calm shrinks_tree_ok listable_shrinks [OF s assms(5)] dv in auto)
  with left have "rel_of (m # ms) \<in> set ?go" by auto
  with r4 have "node_at w4 (join run (rel_of (m # ms))) \<in> {None, Some Socket}" by blast
  with shrinks_node [OF s5 assms(7)] left show False by auto
qed

definition sample_world :: world where
  "sample_world =
     \<lparr>w_fs = [(key_of ''/run'', Dir), (key_of ''/run/keep'', File ''k''), (key_of ''/run/hid'', Dir),
              (key_of ''/run/hid/s'', Socket), (key_of ''/run/utmp'', File []), (key_of ''/run/sock'', Socket)],
      w_log = [], w_fault = (\<lambda>_. None), w_dev = (\<lambda>_. 0), w_torn = (\<lambda>_ _. False),
      w_short = (\<lambda>_. None), w_points = (\<lambda>_. []), w_mode = (\<lambda>_. 0), w_reply = (\<lambda>_. [])\<rparr>"

definition sample_scrub :: "scrub_report \<times> world" where
  "sample_scrub = scrub ''/run'' \<lparr>entries = [''keep'']\<rparr> [] [] sample_world"

lemma sample_world_ok: "calm sample_world" "tree_ok (w_fs sample_world)" "is_absolute ''/run''"
  by (simp add: calm_def sample_world_def,
      simp add: tree_ok_def sample_world_def components_def is_absolute_def component_of_def name_ok_def,
      simp add: is_absolute_def)

theorem scrub_complete_witness:
  "node_at (snd sample_scrub) ''/run/sock'' = Some Socket
   \<and> snap_contains \<lparr>entries = [''keep'']\<rparr> (rel_of [''keep''])"
proof
  show "node_at (snd sample_scrub) ''/run/sock'' = Some Socket" by code_simp
  have e: "scrub ''/run'' \<lparr>entries = [''keep'']\<rparr> [] [] sample_world = (fst sample_scrub, snd sample_scrub)"
    by (simp add: sample_scrub_def)
  have "listable (w_fs (snd sample_scrub)) (w_dev (snd sample_scrub)) (key_of ''/run'')
      (w_dev (snd sample_scrub) (key_of ''/run'')) [] [''keep'']" "''keep'' \<notin> set PRUNED"
    "node_at (snd sample_scrub) (join ''/run'' (rel_of [''keep''])) = Some (File ''k'')"
    by code_simp+
  from scrub_complete [OF sample_world_ok e this] show "snap_contains \<lparr>entries = [''keep'']\<rparr> (rel_of [''keep''])"
    by simp
qed

text \<open>C30: the scrub is honest.  On a host that refuses nothing, what is at a path changes only when
  the report lists an entry at or above it as removed (or the path is below
  \<^verbatim>\<open>/run/user\<close>, where empty directories go): no state of the decoy goes unreported.\<close>

theorem scrub_reports_all:
  assumes "calm w" "scrub run snap extra points w = (report, w')"
    and "\<not> reported run report q" "\<not> below_user run q" "is_absolute run" "tree_ok (w_fs w)"
  shows "node_at w' q = node_at w q"
proof -
  obtain r1 w1 where a1: "scrub_dirs run points SESSION_STATE_DIRS \<lparr>removed = [], failed = [], detached = []\<rparr> w = (r1, w1)"
    by fastforce
  obtain r2 w2 where a2: "remove_all run points SESSION_STATE_FILES r1 w1 = (r2, w2)" by fastforce
  let ?u = "scrub_user run w2"
  obtain es w3 where a3: "list_run run ?u = (es, w3)" by fastforce
  obtain r3 w4 where a4: "remove_all run points
      (filter (\<lambda>e. (\<exists>x\<in>set extra. path_eq x e) \<or> \<not> snap_contains snap e) es) r2 w3 = (r3, w4)" by fastforce
  have a5: "remove_all run points extra r3 w4 = (report, w')"
    using assms(2) a1 a2 a3 a4 by (simp add: scrub_def)
  note b1 = scrub_dirs_calm [OF assms(1) a1]
  have c1: "calm w1" using b1 shrinks_calm assms(1) by blast
  note b2 = remove_all_calm [OF c1 a2]
  have "shrinks w w2" using b1 b2 shrinks_trans by blast
  then have u: "calm ?u" "node_at ?u q = node_at w2 q"
    using scrub_user_shrinks [of w2 run] scrub_user_frame [OF assms(5) _ assms(4)] shrinks_tree_ok [OF _ assms(6)]
      shrinks_calm assms(1) by blast+
  have c3: "calm w3" "node_at w3 q = node_at ?u q"
    using same_treeD [OF list_run_same_tree [OF a3]] u(1) by (auto simp: node_at_def)
  note b4 = remove_all_calm [OF c3(1) a4]
  note b5 = remove_all_calm [OF shrinks_calm [OF b4 [THEN conjunct1] c3(1)] a5]
  have n3: "\<not> reported run r3 q" using b5 assms(3) reported_mono by blast
  then have n2: "\<not> reported run r2 q" using b4 reported_mono by blast
  then have n1: "\<not> reported run r1 q" using b2 reported_mono by blast
  have "node_at w' q = node_at w4 q" using b5 assms(3) by blast
  also have "\<dots> = node_at w3 q" using b4 n3 by blast
  also have "\<dots> = node_at w2 q" using c3(2) u(2) by simp
  also have "\<dots> = node_at w1 q" using b2 n2 by blast
  also have "\<dots> = node_at w q" using b1 n1 by blast
  finally show ?thesis .
qed

theorem scrub_reports_all_witness:
  "node_at (snd sample_scrub) ''/run/keep'' = node_at sample_world ''/run/keep''"
proof -
  have e: "scrub ''/run'' \<lparr>entries = [''keep'']\<rparr> [] [] sample_world = (fst sample_scrub, snd sample_scrub)"
    by (simp add: sample_scrub_def)
  have "removed (fst sample_scrub) = [''utmp'', ''hid'']" by code_simp
  then have "\<not> reported ''/run'' (fst sample_scrub) ''/run/keep''"
    by (simp add: reported_def) code_simp
  moreover have "\<not> below_user ''/run'' ''/run/keep''" by code_simp
  ultimately show ?thesis by (rule scrub_reports_all [OF sample_world_ok(1) e _ _ sample_world_ok(3,2)])
qed

text \<open>A snapshot is read back from the text it is saved as, whatever bytes its entries
  hold.\<close>

theorem snapshot_roundtrip:
  assumes "snapshot_ok s" "[] \<notin> set (entries s)"
  shows "from_text (to_text s) = s"
proof -
  have "filter (\<lambda>l. l \<noteq> []) (map escape_entry (entries s)) = map escape_entry (entries s)"
    using assms(2) by (auto simp: filter_id_conv)
  then show ?thesis
    using assms(1)
    by (cases s) (simp add: from_text_def split_to_text comp_def unescape_escape_entry to_set_id snapshot_ok_def)
qed

theorem snapshot_roundtrip_witness:
  "from_text (to_text \<lparr>entries = [[CHR ''a'', newline], [CHR ''b'', backslash]]\<rparr>)
     = \<lparr>entries = [[CHR ''a'', newline], [CHR ''b'', backslash]]\<rparr>"
proof (rule snapshot_roundtrip)
  show "snapshot_ok \<lparr>entries = [[CHR ''a'', newline], [CHR ''b'', backslash]]\<rparr>" by code_simp
  show "[] \<notin> set (entries \<lparr>entries = [[CHR ''a'', newline], [CHR ''b'', backslash]]\<rparr>)" by simp
qed

text \<open>Removing a directory the snapshot does not hold removes the sockets inside it too: only
  the entry itself is looked at.\<close>

theorem scrub_takes_nested_sockets:
  "node_at sample_world ''/run/hid/s'' = Some Socket \<and> node_at (snd sample_scrub) ''/run/hid/s'' = None"
  by code_simp

subsection \<open>The cursor\<close>

lemma max_option_ge: "x \<in> set xs \<Longrightarrow> \<exists>m. max_option xs = Some m \<and> x \<le> m"
proof (induction xs)
  case (Cons y xs)
  then show ?case by (cases "max_option xs") (auto simp: le_max_iff_disj)
qed simp

lemma seqnum_loop_ge: "highest = Some h \<Longrightarrow> \<exists>m. seqnum_loop highest rs = Some m \<and> h \<le> m"
proof (induction highest rs arbitrary: h rule: seqnum_loop.induct)
  case (2 highest b rs)
  show ?case
  proof (cases "b = [] \<or> highest_in b = None")
    case True
    with 2 show ?thesis by auto
  next
    case False
    then obtain s where "highest_in b = Some s" "b \<noteq> []" by auto
    with 2(1) [of "max h s"] 2(2) show ?thesis by auto
  qed
qed auto

fun reads_on :: "kmsg_read \<Rightarrow> bool" where
  "reads_on (Chunk b) \<longleftrightarrow> b \<noteq> []"
| "reads_on Overtaken \<longleftrightarrow> True"
| "reads_on Interrupted \<longleftrightarrow> True"
| "reads_on _ \<longleftrightarrow> False"

text \<open>The cursor never comes out too low: it lies past every kernel record that was read, also
  when a read was overtaken or interrupted.\<close>

theorem cursor_past_every_record:
  assumes "Chunk b \<in> set (takeWhile reads_on rs)"
    and "line \<in> set (split_on newline b)" "line \<noteq> []" "hd line \<noteq> CHR '' ''" "record_seqnum line = Some s"
  shows "\<exists>n. next_kernel_seqnum rs = Some n \<and> s < n"
proof -
  have "s \<in> set (filter_map record_seqnum (filter (\<lambda>l. l \<noteq> [] \<and> hd l \<noteq> CHR '' '') (split_on newline b)))"
    using assms(2-5) by (auto simp: set_filter_map)
  then obtain m where m: "highest_in b = Some m" "s \<le> m"
    using max_option_ge by (fastforce simp: highest_in_def)
  have "\<exists>n. seqnum_loop highest rs = Some n \<and> m \<le> n" for highest
    using assms(1)
  proof (induction highest rs rule: seqnum_loop.induct)
    case (2 highest c rs)
    show ?case
    proof (cases "Chunk b = Chunk c")
      case True
      with 2(2) have c: "c = b" "b \<noteq> []" by (auto split: if_splits)
      obtain h' where h': "(case highest of None \<Rightarrow> Some m | Some h \<Rightarrow> Some (max h m)) = Some h'" "m \<le> h'"
        by (cases highest) auto
      from seqnum_loop_ge [OF h'(1), of rs] h'(2) c m(1) show ?thesis by auto
    next
      case False
      with 2 show ?thesis by (auto split: if_splits)
    qed
  qed (auto split: if_splits)
  from this [of None] m(2) show ?thesis by (auto simp: next_kernel_seqnum_def)
qed

theorem cursor_past_every_record_witness:
  "\<exists>n. next_kernel_seqnum [Overtaken, Chunk ''6,41,9,-;text'', Drained] = Some n \<and> 41 < n"
proof (rule cursor_past_every_record)
  show "Chunk ''6,41,9,-;text'' \<in> set (takeWhile reads_on [Overtaken, Chunk ''6,41,9,-;text'', Drained])" by simp
  show "''6,41,9,-;text'' \<in> set (split_on newline ''6,41,9,-;text'')" by code_simp
  show "record_seqnum ''6,41,9,-;text'' = Some 41" by code_simp
qed simp_all

end
