(* ===== verification/Runtime_Units.thy ===== *)
theory Runtime_Units
  imports Run_Scrub Session_Plan
begin

text \<open>
  Runtime units and masks in \<^verbatim>\<open>/run/systemd\<close>, \<^verbatim>\<open>nails-teardown/src/whole_root/runtime_units.rs\<close>.  The
  lemmas show that a unit name can only name an entry of the directory it is written to, that a
  mask that succeeded is in place for every unit asked for, and that nothing outside the unit
  directories is touched.
\<close>

section \<open>Definitions\<close>

definition RUNTIME_UNIT_DIR :: path where "RUNTIME_UNIT_DIR = ''systemd/system''"
definition RUNTIME_CONTROL_DIR :: path where "RUNTIME_CONTROL_DIR = ''systemd/system.control''"

definition UNIT_SUFFIXES :: "bytes list" where
  "UNIT_SUFFIXES = [''.service'', ''.target'', ''.socket'', ''.timer'', ''.path'', ''.mount'',
                    ''.automount'', ''.swap'', ''.scope'']"

definition valid_unit_name :: "bytes \<Rightarrow> bool" where
  "valid_unit_name name \<longleftrightarrow>
     name \<noteq> [] \<and> length name \<le> 255 \<and> \<not> starts_with ''.'' name \<and> slash \<notin> set name
     \<and> CHR 0x00 \<notin> set name
     \<and> (\<exists>s\<in>set UNIT_SUFFIXES. length name > length s \<and> ends_with s name)"

definition dev_null :: path where "dev_null = ''/dev/null''"

text \<open>\<^verbatim>\<open>mask_units\<close>: the first failure ends it.\<close>

fun mask_loop :: "path \<Rightarrow> bytes list \<Rightarrow> path list \<Rightarrow> world \<Rightarrow> (io_error + path list) \<times> world" where
  "mask_loop dir [] written w = (Inr written, w)"
| "mask_loop dir (name # names) written w =
     (if \<not> valid_unit_name name then (Inl (InvalidInput name), w)
      else (case create_dir_all dir w of
          (Some e, w1) \<Rightarrow> (Inl e, w1)
        | (None, w1) \<Rightarrow>
            (let link = join dir name in
             case remove_file link w1 of (_, w2) \<Rightarrow>
             (case symlink dev_null link w2 of
                (Some e, w3) \<Rightarrow> (Inl e, w3)
              | (None, w3) \<Rightarrow> mask_loop dir names (written @ [link]) w3))))"

definition mask_units :: "path \<Rightarrow> bytes list \<Rightarrow> world \<Rightarrow> (io_error + path list) \<times> world" where
  "mask_units run units w = mask_loop (join run RUNTIME_UNIT_DIR) units [] w"

text \<open>\<^verbatim>\<open>mask_units_best_effort\<close>: one at a time, and never over anything that is there.\<close>

fun mask_effort_loop :: "path \<Rightarrow> bytes list \<Rightarrow> world \<Rightarrow> path list \<times> world" where
  "mask_effort_loop dir [] w = ([], w)"
| "mask_effort_loop dir (name # names) w =
     (if \<not> valid_unit_name name then mask_effort_loop dir names w
      else
        (let link = join dir name in
         case lstat link w of
           (Inr _, w1) \<Rightarrow> mask_effort_loop dir names w1
         | (Inl _, w1) \<Rightarrow>
             (case create_dir_all dir w1 of
                (Some _, w2) \<Rightarrow> mask_effort_loop dir names w2
              | (None, w2) \<Rightarrow>
                  (case symlink dev_null link w2 of
                     (Some _, w3) \<Rightarrow> mask_effort_loop dir names w3
                   | (None, w3) \<Rightarrow> (case mask_effort_loop dir names w3 of (out, w4) \<Rightarrow> (link # out, w4))))))"

definition mask_units_best_effort :: "path \<Rightarrow> bytes list \<Rightarrow> world \<Rightarrow> path list \<times> world" where
  "mask_units_best_effort run units w = mask_effort_loop (join run RUNTIME_CONTROL_DIR) units w"

fun unmask_loop :: "path \<Rightarrow> snapshot \<Rightarrow> path \<Rightarrow> bytes list \<Rightarrow> world \<Rightarrow> bool \<times> world" where
  "unmask_loop run kept dir [] w = (False, w)"
| "unmask_loop run kept dir (name # names) w =
     (if \<not> valid_unit_name name then unmask_loop run kept dir names w
      else
        (let relative = join dir name; link = join run relative in
         if snap_contains kept relative then unmask_loop run kept dir names w
         else (case read_link link w of
             (Inl _, w1) \<Rightarrow> unmask_loop run kept dir names w1
           | (Inr t, w1) \<Rightarrow>
               if \<not> path_eq t dev_null then unmask_loop run kept dir names w1
               else (case remove_file link w1 of
                       (r, w2) \<Rightarrow>
                         (case unmask_loop run kept dir names w2 of (b, w3) \<Rightarrow> (r = None \<or> b, w3))))))"

definition remove_masks :: "path \<Rightarrow> bytes list \<Rightarrow> bytes list \<Rightarrow> snapshot \<Rightarrow> world \<Rightarrow> bool \<times> world" where
  "remove_masks run ms boot_masks kept w =
     (case unmask_loop run kept RUNTIME_UNIT_DIR ms w of
        (b1, w1) \<Rightarrow>
     (case unmask_loop run kept RUNTIME_CONTROL_DIR boot_masks w1 of
        (b2, w2) \<Rightarrow>
          (b1 \<or> b2,
           if snap_contains kept RUNTIME_CONTROL_DIR then w2
           else snd (remove_dir (join run RUNTIME_CONTROL_DIR) w2))))"

fun wants_loop :: "path \<Rightarrow> bytes \<Rightarrow> bytes list \<Rightarrow> path list \<Rightarrow> world \<Rightarrow> (io_error + path list) \<times> world" where
  "wants_loop dir name [] written w = (Inr written, w)"
| "wants_loop dir name (target # targets) written w =
     (let wants = join dir (target @ ''.wants''); link = join wants name in
      case create_dir_all wants w of
        (Some e, w1) \<Rightarrow> (Inl e, w1)
      | (None, w1) \<Rightarrow>
          (case remove_file link w1 of (_, w2) \<Rightarrow>
          (case symlink (join ''..'' name) link w2 of
             (Some e, w3) \<Rightarrow> (Inl e, w3)
           | (None, w3) \<Rightarrow> wants_loop dir name targets (written @ [link]) w3)))"

fun install_loop :: "path \<Rightarrow> runtime_unit list \<Rightarrow> path list \<Rightarrow> world \<Rightarrow> (io_error + path list) \<times> world" where
  "install_loop dir [] written w = (Inr written, w)"
| "install_loop dir (u # us) written w =
     (if \<not> valid_unit_name (ru_name u) \<or> \<not> (\<forall>t\<in>set (ru_wanted_by u). valid_unit_name t)
      then (Inl (InvalidInput (ru_name u)), w)
      else (case create_dir_all dir w of
          (Some e, w1) \<Rightarrow> (Inl e, w1)
        | (None, w1) \<Rightarrow>
            (let p = join dir (ru_name u) in
             case write_atomic p (ru_content u) w1 of
               (Some e, w2) \<Rightarrow> (Inl e, w2)
             | (None, w2) \<Rightarrow>
                 (case wants_loop dir (ru_name u) (ru_wanted_by u) (written @ [p]) w2 of
                    (Inl e, w3) \<Rightarrow> (Inl e, w3)
                  | (Inr written', w3) \<Rightarrow> install_loop dir us written' w3))))"

definition install_units :: "path \<Rightarrow> runtime_unit list \<Rightarrow> world \<Rightarrow> (io_error + path list) \<times> world" where
  "install_units run units w = install_loop (join run RUNTIME_UNIT_DIR) units [] w"

section \<open>Lemmas\<close>

lemma valid_unit_name_ok: "valid_unit_name n \<Longrightarrow> name_ok n"
  by (cases n) (auto simp: valid_unit_name_def name_ok_def component_of_def starts_with_def)

lemma wants_name_ok: "valid_unit_name n \<Longrightarrow> name_ok (n @ ''.wants'')"
  by (cases n) (auto simp: valid_unit_name_def name_ok_def component_of_def starts_with_def)

lemma key_join_name:
  assumes "is_absolute p" "name_ok n"
  shows "key_of (join p n) = key_of p @ [Normal n]"
  using assms name_ok_not_absolute [OF assms(2)]
  by (simp add: components_join split_on_id name_ok_def)

text \<open>Where the loops write: the directories down to the unit directory, and below it the entries
  they name.\<close>

abbreviation dirs_to :: "key \<Rightarrow> key set" where
  "dirs_to k \<equiv> {k'. prefix k' k}"

abbreviation entry_keys :: "key \<Rightarrow> bytes set \<Rightarrow> key set" where
  "entry_keys k N \<equiv> {k @ [Normal n] |n. n \<in> N}"

definition wants_keys :: "key \<Rightarrow> bytes set \<Rightarrow> key set" where
  "wants_keys k T = {k'. \<exists>t\<in>T. prefix (k @ [Normal (t @ ''.wants'')]) k'}"

lemma create_dir_all_in: "create_dir_all p w = (r, w') \<Longrightarrow> dirs_to (key_of p) \<subseteq> K \<Longrightarrow> touches K w w'"
  using create_dir_all_touches touches_mono by blast

lemma symlink_in: "symlink t p w = (r, w') \<Longrightarrow> key_of p \<in> K \<Longrightarrow> touches K w w'"
  using symlink_touches touches_mono by blast

lemma remove_file_in: "remove_file p w = (r, w') \<Longrightarrow> key_of p \<in> K \<Longrightarrow> touches K w w'"
  using remove_file_touches touches_mono by blast

lemma write_atomic_in: "write_atomic p b w = (r, w') \<Longrightarrow> key_of p \<in> K \<Longrightarrow> touches K w w'"
  using write_atomic_touches touches_mono by blast

lemma remove_dir_in: "remove_dir p w = (r, w') \<Longrightarrow> key_of p \<in> K \<Longrightarrow> touches K w w'"
  using remove_dir_touches touches_mono by blast

lemma mask_loop_touches:
  assumes "mask_loop dir names written w = (r, w')" "is_absolute dir"
    and "dirs_to (key_of dir) \<union> entry_keys (key_of dir) (set names) \<subseteq> K"
  shows "touches K w w'"
  using assms
proof (induction dir names written w arbitrary: r w' rule: mask_loop.induct)
  case (2 dir name names written w)
  show ?case
  proof (cases "valid_unit_name name")
    case True
    then have k: "key_of (join dir name) \<in> K" using 2(3,4) key_join_name valid_unit_name_ok by auto
    obtain e w1 where c: "create_dir_all dir w = (e, w1)" by fastforce
    have t1: "touches K w w1" using create_dir_all_in [OF c] 2(4) by simp
    show ?thesis
    proof (cases e)
      case None
      obtain x w2 where x: "remove_file (join dir name) w1 = (x, w2)" by fastforce
      obtain y w3 where y: "symlink dev_null (join dir name) w2 = (y, w3)" by fastforce
      have t3: "touches K w w3" using t1 remove_file_in [OF x k] symlink_in [OF y k] touches_trans by blast
      show ?thesis
      proof (cases y)
        case None
        with True c \<open>e = None\<close> x y 2(2) have m: "mask_loop dir names (written @ [join dir name]) w3 = (r, w')"
          by (simp add: Let_def)
        have "touches K w3 w'"
          by (rule 2(1) [OF _ c [symmetric] \<open>e = None\<close> refl x [symmetric] y [symmetric] None m 2(3)])
            (use True 2(4) in auto)
        with t3 show ?thesis using touches_trans by blast
      qed (use 2(2) True c \<open>e = None\<close> x y t3 in \<open>simp add: Let_def\<close>)
    qed (use 2(2) True c t1 in simp)
  qed (use 2(2) in simp)
qed simp

text \<open>A mask that succeeded is in place, for every unit.\<close>

lemma mask_loop_done:
  assumes "mask_loop dir names written w = (Inr out, w')" "is_absolute dir" "n \<in> set names"
  shows "node_at w' (join dir n) = Some (Link dev_null)"
  using assms
proof (induction dir names written w arbitrary: out w' rule: mask_loop.induct)
  case (2 dir name names written w)
  obtain w1 x w2 w3 where s: "valid_unit_name name" "create_dir_all dir w = (None, w1)"
    "remove_file (join dir name) w1 = (x, w2)" "symlink dev_null (join dir name) w2 = (None, w3)"
    "mask_loop dir names (written @ [join dir name]) w3 = (Inr out, w')"
    using 2(2) by (auto simp: Let_def split: if_splits prod.splits option.splits)
  show ?case
  proof (cases "n \<in> set names")
    case True
    show ?thesis
      by (rule 2(1) [OF _ s(2) [symmetric] refl refl s(3) [symmetric] s(4) [symmetric] refl s(5) 2(3) True])
        (use s(1) in simp)
  next
    case False
    then have n: "n = name" using 2(4) by simp
    let ?K = "dirs_to (key_of dir) \<union> entry_keys (key_of dir) (set names)"
    have "touches ?K w3 w'" using mask_loop_touches [OF s(5) 2(3)] by simp
    moreover have "key_of (join dir name) \<notin> ?K"
      using key_join_name [OF 2(3) valid_unit_name_ok [OF s(1)]] False n by auto
    ultimately have "node_at w' (join dir name) = node_at w3 (join dir name)" by (rule touches_node)
    with symlink_done [OF s(4)] n show ?thesis by simp
  qed
qed simp

lemma wants_loop_touches:
  assumes "wants_loop dir name targets written w = (r, w')" "is_absolute dir" "name_ok name"
    and "\<forall>t\<in>set targets. valid_unit_name t"
    and "dirs_to (key_of dir) \<union> wants_keys (key_of dir) (set targets) \<subseteq> K"
  shows "touches K w w'"
  using assms
proof (induction dir name targets written w arbitrary: r w' rule: wants_loop.induct)
  case (2 dir name target targets written w)
  let ?wants = "join dir (target @ ''.wants'')" and ?link = "join (join dir (target @ ''.wants'')) name"
  have tn: "name_ok (target @ ''.wants'')" using 2(5) wants_name_ok by simp
  have wk: "key_of ?wants = key_of dir @ [Normal (target @ ''.wants'')]" using key_join_name [OF 2(3) tn] .
  have wa: "is_absolute ?wants" using 2(3) is_absolute_joinI by blast
  have lk: "key_of ?link = key_of ?wants @ [Normal name]" using key_join_name [OF wa 2(4)] .
  have K: "dirs_to (key_of ?wants) \<subseteq> K" "key_of ?link \<in> K"
    using 2(6) unfolding lk wk wants_keys_def by (auto simp: prefix_def Cons_eq_append_conv append_eq_append_conv2)
  obtain e w1 where c: "create_dir_all ?wants w = (e, w1)" by fastforce
  have t1: "touches K w w1" using create_dir_all_in [OF c K(1)] .
  show ?case
  proof (cases e)
    case None
    obtain x w2 where x: "remove_file ?link w1 = (x, w2)" by fastforce
    obtain y w3 where y: "symlink (join ''..'' name) ?link w2 = (y, w3)" by fastforce
    have t3: "touches K w w3" using t1 remove_file_in [OF x K(2)] symlink_in [OF y K(2)] touches_trans by blast
    show ?thesis
    proof (cases y)
      case None
      with c \<open>e = None\<close> x y 2(2) have m: "wants_loop dir name targets (written @ [?link]) w3 = (r, w')"
        by (simp add: Let_def)
      have "touches K w3 w'"
        by (rule 2(1) [OF refl refl c [symmetric] \<open>e = None\<close> x [symmetric] y [symmetric] None m 2(3,4)])
          (use 2(5,6) in \<open>auto simp: wants_keys_def\<close>)
      with t3 show ?thesis using touches_trans by blast
    qed (use 2(2) c \<open>e = None\<close> x y t3 in \<open>simp add: Let_def\<close>)
  qed (use 2(2) c t1 in \<open>simp add: Let_def\<close>)
qed simp

lemma wants_keys_mono: "T \<subseteq> T' \<Longrightarrow> wants_keys k T \<subseteq> wants_keys k T'"
  by (auto simp: wants_keys_def)

abbreviation install_keys :: "key \<Rightarrow> runtime_unit list \<Rightarrow> key set" where
  "install_keys k us \<equiv> dirs_to k \<union> entry_keys k (ru_name ` set us)
     \<union> wants_keys k (\<Union>u\<in>set us. set (ru_wanted_by u))"

lemma install_keys_Cons: "install_keys k (u # us) \<subseteq> K \<Longrightarrow> install_keys k us \<subseteq> K"
  using wants_keys_mono [of "\<Union>u\<in>set us. set (ru_wanted_by u)" "\<Union>u\<in>set (u # us). set (ru_wanted_by u)" k]
  by auto

lemma install_loop_touches:
  assumes "install_loop dir us written w = (r, w')" "is_absolute dir"
    and "install_keys (key_of dir) us \<subseteq> K"
  shows "touches K w w'"
  using assms
proof (induction dir us written w arbitrary: r w' rule: install_loop.induct)
  case (2 dir u us written w)
  let ?bad = "\<not> valid_unit_name (ru_name u) \<or> \<not> (\<forall>t\<in>set (ru_wanted_by u). valid_unit_name t)"
  show ?case
  proof (cases ?bad)
    case False
    then have ok: "name_ok (ru_name u)" "\<forall>t\<in>set (ru_wanted_by u). valid_unit_name t"
      using valid_unit_name_ok by auto
    have pk: "key_of (join dir (ru_name u)) \<in> K" using 2(4) key_join_name [OF 2(3) ok(1)] by auto
    have wk: "dirs_to (key_of dir) \<union> wants_keys (key_of dir) (set (ru_wanted_by u)) \<subseteq> K"
      using 2(4) by (auto simp: wants_keys_def)
    obtain e w1 where c: "create_dir_all dir w = (e, w1)" by fastforce
    have t1: "touches K w w1" using create_dir_all_in [OF c] 2(4) by simp
    show ?thesis
    proof (cases e)
      case e: None
      obtain x w2 where x: "write_atomic (join dir (ru_name u)) (ru_content u) w1 = (x, w2)" by fastforce
      have t2: "touches K w w2" using t1 write_atomic_in [OF x pk] touches_trans by blast
      show ?thesis
      proof (cases x)
        case xn: None
        obtain y w3 where y: "wants_loop dir (ru_name u) (ru_wanted_by u) (written @ [join dir (ru_name u)]) w2 = (y, w3)"
          by fastforce
        have t3: "touches K w w3" using wants_loop_touches [OF y 2(3) ok wk] t2 touches_trans by blast
        show ?thesis
        proof (cases y)
          case (Inr written')
          with False c e x xn y 2(2) have m: "install_loop dir us written' w3 = (r, w')" by (simp add: Let_def)
          have "touches K w3 w'"
            by (rule 2(1) [OF False c [symmetric] e refl x [symmetric] xn y [symmetric] Inr m 2(3)])
              (rule install_keys_Cons [OF 2(4)])
          with t3 show ?thesis using touches_trans by blast
        qed (use 2(2) False c e x xn y t3 in \<open>simp add: Let_def\<close>)
      qed (use 2(2) False c e x t2 in \<open>simp add: Let_def\<close>)
    qed (use 2(2) False c t1 in \<open>simp add: Let_def\<close>)
  qed (use 2(2) in simp)
qed simp

lemma mask_effort_loop_touches:
  assumes "mask_effort_loop dir names w = (r, w')" "is_absolute dir"
    and "dirs_to (key_of dir) \<union> entry_keys (key_of dir) (set names) \<subseteq> K"
  shows "touches K w w'"
  using assms
proof (induction names arbitrary: r w w')
  case (Cons name names)
  let ?link = "join dir name"
  have K: "dirs_to (key_of dir) \<subseteq> K" "dirs_to (key_of dir) \<union> entry_keys (key_of dir) (set names) \<subseteq> K"
    using Cons.prems(3) by auto
  have on: "touches K w w'" if "touches K w v" "mask_effort_loop dir names v = (r', w')" for v r'
    using Cons.IH [OF that(2) Cons.prems(2) K(2)] that(1) touches_trans by blast
  show ?case
  proof (cases "valid_unit_name name")
    case False
    with Cons.prems(1) show ?thesis using on [OF touches_refl] by simp
  next
    case True
    have k: "key_of ?link \<in> K"
      using Cons.prems(2,3) key_join_name [OF _ valid_unit_name_ok [OF True]] by auto
    obtain a w1 where a: "lstat ?link w = (a, w1)" by fastforce
    obtain b w2 where b: "create_dir_all dir w1 = (b, w2)" by fastforce
    obtain c w3 where c: "symlink dev_null ?link w2 = (c, w3)" by fastforce
    obtain out w4 where m: "mask_effort_loop dir names w3 = (out, w4)" by fastforce
    have t1: "touches K w w1" using lstat_touches [OF a] by blast
    have t2: "touches K w w2" using t1 create_dir_all_in [OF b K(1)] touches_trans by blast
    have t3: "touches K w w3" using t2 symlink_in [OF c k] touches_trans by blast
    consider "\<exists>n. a = Inr n" | e where "a = Inl e" "b \<noteq> None" | e where "a = Inl e" "b = None" "c \<noteq> None"
      | e where "a = Inl e" "b = None" "c = None" by (cases a) auto
    then show ?thesis
      using Cons.prems(1) True a b c m on [OF t1] on [OF t2] on [OF t3]
      by cases (auto simp: Let_def)
  qed
qed simp

lemma unmask_loop_touches:
  assumes "unmask_loop run kept dir names w = (r, w')" "is_absolute (join run dir)"
    and "\<And>n. valid_unit_name n \<Longrightarrow> key_of (join run (join dir n)) = key_of (join run dir) @ [Normal n]"
    and "entry_keys (key_of (join run dir)) (set names) \<subseteq> K"
  shows "touches K w w'"
  using assms
proof (induction names arbitrary: r w w')
  case (Cons name names)
  let ?link = "join run (join dir name)"
  have K: "entry_keys (key_of (join run dir)) (set names) \<subseteq> K" using Cons.prems(4) by auto
  have on: "touches K w w'" if "touches K w v" "unmask_loop run kept dir names v = (r', w')" for v r'
    using Cons.IH [OF that(2) Cons.prems(2,3) K] that(1) touches_trans by blast
  show ?case
  proof (cases "valid_unit_name name \<and> \<not> snap_contains kept (join dir name)")
    case False
    with Cons.prems(1) show ?thesis using on [OF touches_refl] by (auto simp: Let_def split: if_splits)
  next
    case True
    then have k: "key_of ?link \<in> K" using Cons.prems(3,4) by auto
    obtain a w1 where a: "read_link ?link w = (a, w1)" by fastforce
    obtain b w2 where b: "remove_file ?link w1 = (b, w2)" by fastforce
    obtain out w3 where m: "unmask_loop run kept dir names w2 = (out, w3)" by fastforce
    have t1: "touches K w w1" using read_link_touches [OF a] by blast
    have t2: "touches K w w2" using t1 remove_file_in [OF b k] touches_trans by blast
    consider e where "a = Inl e" | t where "a = Inr t" "\<not> path_eq t dev_null" | t where "a = Inr t" "path_eq t dev_null"
      by (cases a) auto
    then show ?thesis
      using Cons.prems(1) True a b m on [OF t1] on [OF t2]
      by cases (auto simp: Let_def)
  qed
qed simp

section \<open>Properties\<close>

text \<open>What lies outside the two unit directories and the directories down to them.\<close>

definition outside_units :: "path \<Rightarrow> path \<Rightarrow> bool" where
  "outside_units run q \<longleftrightarrow>
     (\<forall>d\<in>{join run RUNTIME_UNIT_DIR, join run RUNTIME_CONTROL_DIR}.
        \<not> prefix (key_of q) (key_of d) \<and> \<not> prefix (key_of d) (key_of q))"

lemma join_not_absolute: "\<not> is_absolute q \<Longrightarrow> is_absolute p \<Longrightarrow> is_absolute (join p q)"
  using is_absolute_joinI by blast

lemma unit_dirs_absolute:
  "is_absolute run \<Longrightarrow> is_absolute (join run RUNTIME_UNIT_DIR)"
  "is_absolute run \<Longrightarrow> is_absolute (join run RUNTIME_CONTROL_DIR)"
  by (simp_all add: is_absolute_joinI)

abbreviation unit_area :: "path \<Rightarrow> key set" where
  "unit_area d \<equiv> {k. prefix k (key_of d) \<or> prefix (key_of d) k}"

lemma wants_keys_area: "wants_keys (key_of d) T \<subseteq> unit_area d"
  by (auto simp: wants_keys_def prefix_def)

lemma outside_area:
  "outside_units run q \<Longrightarrow> d \<in> {join run RUNTIME_UNIT_DIR, join run RUNTIME_CONTROL_DIR} \<Longrightarrow>
     key_of q \<notin> unit_area d"
  by (auto simp: outside_units_def)

lemma mask_units_area: "is_absolute run \<Longrightarrow> mask_units run us w = (r, w') \<Longrightarrow> touches (unit_area (join run RUNTIME_UNIT_DIR)) w w'"
  unfolding mask_units_def by (erule mask_loop_touches) (auto simp: unit_dirs_absolute)

lemma install_units_area: "is_absolute run \<Longrightarrow> install_units run us w = (r, w') \<Longrightarrow> touches (unit_area (join run RUNTIME_UNIT_DIR)) w w'"
  unfolding install_units_def
  by (erule install_loop_touches) (use wants_keys_area in \<open>auto simp: unit_dirs_absolute\<close>)

lemma mask_units_best_effort_area:
  "is_absolute run \<Longrightarrow> mask_units_best_effort run us w = (r, w') \<Longrightarrow> touches (unit_area (join run RUNTIME_CONTROL_DIR)) w w'"
  unfolding mask_units_best_effort_def by (erule mask_effort_loop_touches) (auto simp: unit_dirs_absolute)

lemma touches_snd:
  "(\<And>r w'. res = (r, w') \<Longrightarrow> touches K w w') \<Longrightarrow> key_of q \<notin> K \<Longrightarrow> node_at (snd res) q = node_at w q"
  by (cases res) (simp add: touches_node)

lemma join_assoc:
  "d \<noteq> [] \<Longrightarrow> last d \<noteq> slash \<Longrightarrow> \<not> is_absolute d \<Longrightarrow> \<not> is_absolute n \<Longrightarrow>
     join p (join d n) = join (join p d) n"
  by (cases d) (simp_all add: join_def is_absolute_def ends_with_iff)

lemma unit_dir_link:
  assumes "is_absolute run" "valid_unit_name n" "d \<in> {RUNTIME_UNIT_DIR, RUNTIME_CONTROL_DIR}"
  shows "key_of (join run (join d n)) = key_of (join run d) @ [Normal n]"
proof -
  have "join run (join d n) = join (join run d) n"
    by (rule join_assoc) (use assms(3) name_ok_not_absolute [OF valid_unit_name_ok [OF assms(2)]] in
        \<open>auto simp: RUNTIME_UNIT_DIR_def RUNTIME_CONTROL_DIR_def is_absolute_def\<close>)
  then show ?thesis
    using key_join_name [OF is_absolute_joinI [OF assms(1)] valid_unit_name_ok [OF assms(2)]] by simp
qed

lemma remove_masks_area:
  assumes "is_absolute run" "remove_masks run ms bs kept w = (r, w')"
  shows "touches (unit_area (join run RUNTIME_UNIT_DIR) \<union> unit_area (join run RUNTIME_CONTROL_DIR)) w w'" (is "touches ?K w w'")
proof -
  obtain b1 w1 where a: "unmask_loop run kept RUNTIME_UNIT_DIR ms w = (b1, w1)" by fastforce
  obtain b2 w2 where b: "unmask_loop run kept RUNTIME_CONTROL_DIR bs w1 = (b2, w2)" by fastforce
  obtain x w3 where x: "remove_dir (join run RUNTIME_CONTROL_DIR) w2 = (x, w3)" by fastforce
  have "touches ?K w w1"
    by (rule unmask_loop_touches [OF a]) (use assms(1) unit_dirs_absolute unit_dir_link in auto)
  also have "touches ?K w1 w2"
    by (rule unmask_loop_touches [OF b]) (use assms(1) unit_dirs_absolute unit_dir_link in auto)
  finally have t: "touches ?K w w2" .
  moreover have "touches ?K w2 w3" by (rule remove_dir_in [OF x]) simp
  ultimately have "touches ?K w w3" by (rule touches_trans)
  with t show ?thesis using assms(2) a b x by (simp add: remove_masks_def split: if_splits)
qed

text \<open>Whatever the unit names of a plan are, installing units, masking units either way and taking
  masks back leave everything alone that is not in one of the two runtime unit directories (or one of
  the directories above them, which may be made): a plan cannot make the transition write elsewhere.\<close>

theorem units_confined:
  assumes "is_absolute run" "outside_units run q"
  shows "node_at (snd (install_units run units w)) q = node_at w q
       \<and> node_at (snd (mask_units run names w)) q = node_at w q
       \<and> node_at (snd (mask_units_best_effort run names w)) q = node_at w q
       \<and> node_at (snd (remove_masks run names boot_names kept w)) q = node_at w q"
proof -
  have out: "key_of q \<notin> unit_area (join run RUNTIME_UNIT_DIR)" "key_of q \<notin> unit_area (join run RUNTIME_CONTROL_DIR)"
    using outside_area [OF assms(2)] by blast+
  then have out2: "key_of q \<notin> unit_area (join run RUNTIME_UNIT_DIR) \<union> unit_area (join run RUNTIME_CONTROL_DIR)" by blast
  show ?thesis
  proof (intro conjI)
    show "node_at (snd (install_units run units w)) q = node_at w q"
      by (rule touches_snd [OF install_units_area [OF assms(1)] out(1)])
    show "node_at (snd (mask_units run names w)) q = node_at w q"
      by (rule touches_snd [OF mask_units_area [OF assms(1)] out(1)])
    show "node_at (snd (mask_units_best_effort run names w)) q = node_at w q"
      by (rule touches_snd [OF mask_units_best_effort_area [OF assms(1)] out(2)])
    show "node_at (snd (remove_masks run names boot_names kept w)) q = node_at w q"
      by (rule touches_snd [OF remove_masks_area [OF assms(1)] out2])
  qed
qed

definition sample_names :: "bytes list" where
  "sample_names = [''swap.swap'', ''../../../etc/x.mount'']"

theorem units_confined_witness:
  "node_at (snd (mask_units ''/run'' sample_names sample_world)) ''/etc/x.mount'' = None
   \<and> node_at sample_world ''/etc/x.mount'' = None"
proof -
  have out: "outside_units ''/run'' ''/etc/x.mount''" by code_simp
  have none: "node_at sample_world ''/etc/x.mount'' = None" by code_simp
  note units_confined [OF sample_world_ok(3) out, THEN conjunct2, THEN conjunct1, of sample_names sample_world]
  with none show ?thesis by (simp only: simp_thms)
qed

text \<open>The transition never goes on without a mask: when masking succeeds, every name was a unit
  name and every unit asked for is now a link to \<^verbatim>\<open>/dev/null\<close> in the runtime unit directory, whatever
  was there before.\<close>

theorem mask_units_in_place:
  assumes "is_absolute run" "mask_units run units w = (Inr links, w')" "n \<in> set units"
  shows "valid_unit_name n \<and> node_at w' (join (join run RUNTIME_UNIT_DIR) n) = Some (Link dev_null)"
proof
  have "mask_loop d us wr v = (Inr ls, v') \<Longrightarrow> n \<in> set us \<Longrightarrow> valid_unit_name n" for d us wr v ls v'
    by (induction d us wr v rule: mask_loop.induct) (auto simp: Let_def split: if_splits prod.splits option.splits)
  with assms(2,3) show "valid_unit_name n" by (simp add: mask_units_def)
  show "node_at w' (join (join run RUNTIME_UNIT_DIR) n) = Some (Link dev_null)"
    using mask_loop_done [OF assms(2) [unfolded mask_units_def] unit_dirs_absolute(1) [OF assms(1)] assms(3)] .
qed

theorem mask_units_in_place_witness:
  "node_at (snd (mask_units ''/run'' [''swap.swap''] sample_world)) ''/run/systemd/system/swap.swap'' = Some (Link dev_null)"
proof -
  have "fst (mask_units ''/run'' [''swap.swap''] sample_world) = Inr [''/run/systemd/system/swap.swap'']" by code_simp
  then have "mask_units ''/run'' [''swap.swap''] sample_world
      = (Inr [''/run/systemd/system/swap.swap''], snd (mask_units ''/run'' [''swap.swap''] sample_world))"
    by (simp only: prod_eq_iff fst_conv snd_conv simp_thms)
  from mask_units_in_place [OF sample_world_ok(3) this, of "''swap.swap''"]
  show ?thesis by (simp add: join_def is_absolute_def RUNTIME_UNIT_DIR_def)
qed

end
