(* ===== verification/Boot_Records.thy ===== *)
theory Boot_Records
  imports Runtime_Units
begin

text \<open>
  The decoy's login and boot records after a way back,
  \<^verbatim>\<open>nails-teardown/src/whole_root/boot_records.rs\<close>: the boot record of the classic \<^verbatim>\<open>wtmp\<close> that a
  soft-reboot left stamped before an earlier event, the pieces the way back leaves in \<^verbatim>\<open>/run\<close> for the
  decoy's first start, and the one-shot step that corrects the record and removes the pieces.  An
  \<^verbatim>\<open>i16\<close> is a \<^typ>\<open>16 word\<close> on disk and an \<^verbatim>\<open>i32\<close> a \<^typ>\<open>32 word\<close>, compared by their signed values.
\<close>

section \<open>Definitions\<close>

definition RECONCILE_ARG :: bytes where "RECONCILE_ARG = ''reconcile-records''"
definition NOEXEC_FLAG :: bytes where "NOEXEC_FLAG = ''--restore-noexec''"
definition FIXUP_DIR :: path where "FIXUP_DIR = ''overlay-runtime-boot''"
definition FIXUP_BINARY :: bytes where "FIXUP_BINARY = ''control''"
definition FIXUP_UNIT :: bytes where "FIXUP_UNIT = ''overlay-runtime-boot.service''"
definition FIXUP_WANTED_BY :: bytes where "FIXUP_WANTED_BY = ''multi-user.target''"
definition WTMP_PATH :: path where "WTMP_PATH = ''var/log/wtmp''"
definition WTMPDB_PATH :: path where "WTMPDB_PATH = ''var/log/wtmp.db''"
definition WTMPDB_UNIT :: bytes where "WTMPDB_UNIT = ''wtmpdb-update-boot.service''"
definition WTMPDB_DROPIN_DIR :: path where "WTMPDB_DROPIN_DIR = ''systemd/system/wtmpdb-update-boot.service.d''"
definition WTMPDB_DROPIN_NAME :: bytes where "WTMPDB_DROPIN_NAME = ''zz-overlay-runtime.conf''"

definition WTMPDB_DROPIN_TEXT :: bytes where
  "WTMPDB_DROPIN_TEXT = ''[Service]'' @ [newline]
     @ ''Environment=DBUS_SYSTEM_BUS_ADDRESS=unix:path=/run/overlay-runtime-boot/no-bus'' @ [newline]"

definition UTMP_RECORD_SIZE :: nat where "UTMP_RECORD_SIZE = 384"
definition UT_TYPE_OFFSET :: nat where "UT_TYPE_OFFSET = 0"
definition UT_TV_SEC_OFFSET :: nat where "UT_TV_SEC_OFFSET = 340"
definition UT_TV_USEC_OFFSET :: nat where "UT_TV_USEC_OFFSET = 344"
definition BOOT_TIME :: "16 word" where "BOOT_TIME = 2"

definition I32_MIN :: int where "I32_MIN = - (2 ^ 31)"
definition I32_MAX :: int where "I32_MAX = 2 ^ 31 - 1"

definition read_i16_le :: "bytes \<Rightarrow> nat \<Rightarrow> 16 word" where
  "read_i16_le r off = of_nat (byte (r ! off) + 256 * byte (r ! (off + 1)))"

definition le4 :: "bytes \<Rightarrow> nat \<Rightarrow> nat" where
  "le4 r off = byte (r ! off) + 256 * byte (r ! (off + 1)) + 65536 * byte (r ! (off + 2))
               + 16777216 * byte (r ! (off + 3))"

definition read_i32_le :: "bytes \<Rightarrow> nat \<Rightarrow> int" where
  "read_i32_le r off = sint (of_nat (le4 r off) :: 32 word)"

text \<open>\<^verbatim>\<open>i32::to_le_bytes\<close>, of a value in range.\<close>

definition le4_bytes :: "nat \<Rightarrow> bytes" where
  "le4_bytes n = [char_of n, char_of (n div 256), char_of (n div 65536), char_of (n div 16777216)]"

definition i32_le_bytes :: "int \<Rightarrow> bytes" where
  "i32_le_bytes v = le4_bytes (unat (word_of_int v :: 32 word))"

definition saturating_add_i32 :: "int \<Rightarrow> int \<Rightarrow> int" where
  "saturating_add_i32 a b = max I32_MIN (min I32_MAX (a + b))"

definition utmp_record :: "bytes \<Rightarrow> nat \<Rightarrow> bytes" where
  "utmp_record data i = take UTMP_RECORD_SIZE (drop (i * UTMP_RECORD_SIZE) data)"

definition is_boot :: "bytes \<Rightarrow> nat \<Rightarrow> bool" where
  "is_boot data i \<longleftrightarrow> read_i16_le (utmp_record data i) UT_TYPE_OFFSET = BOOT_TIME"

definition record_time :: "bytes \<Rightarrow> nat \<Rightarrow> int" where
  "record_time data i = read_i32_le (utmp_record data i) UT_TV_SEC_OFFSET"

definition last_boot :: "bytes \<Rightarrow> nat option" where
  "last_boot data = find (is_boot data) (rev [0..<length data div UTMP_RECORD_SIZE])"

fun max_from :: "int \<Rightarrow> int list \<Rightarrow> int" where
  "max_from m [] = m"
| "max_from m (x # xs) = max_from (max m x) xs"

definition earlier_max :: "bytes \<Rightarrow> nat \<Rightarrow> int" where
  "earlier_max data b =
     (case map (record_time data) [0..<b] of [] \<Rightarrow> I32_MIN | t # ts \<Rightarrow> max_from t ts)"

definition backdated_boot_fix :: "bytes \<Rightarrow> int \<Rightarrow> (nat \<times> int) option" where
  "backdated_boot_fix data now =
     (case last_boot data of
        None \<Rightarrow> None
      | Some b \<Rightarrow>
          let earlier = earlier_max data b in
          if record_time data b < earlier
          then Some (b * UTMP_RECORD_SIZE + UT_TV_SEC_OFFSET, max now (saturating_add_i32 earlier 1))
          else None)"

text \<open>The clock, since the epoch, as the two fields hold it; a clock before the epoch counts as 0.\<close>

definition now_timeval :: "(nat \<times> nat) option \<Rightarrow> int \<times> int" where
  "now_timeval since =
     (case since of None \<Rightarrow> (0, 0)
      | Some (secs, micros) \<Rightarrow> (if int secs \<le> I32_MAX then int secs else I32_MAX, int micros))"

definition reconcile_wtmp :: "path \<Rightarrow> int \<Rightarrow> int \<Rightarrow> world \<Rightarrow> (io_error + bool) \<times> world" where
  "reconcile_wtmp p now_sec now_usec w =
     (case read_file p w of
        (Inl e, w1) \<Rightarrow> (if e = NotFound then Inr False else Inl e, w1)
      | (Inr data, w1) \<Rightarrow>
          (case backdated_boot_fix data now_sec of
             None \<Rightarrow> (Inr False, w1)
           | Some (offset, corrected) \<Rightarrow>
               (case write_at p offset (i32_le_bytes corrected) w1 of
                  (Some e, w2) \<Rightarrow> (Inl e, w2)
                | (None, w2) \<Rightarrow>
                    (case write_at p (offset + (UT_TV_USEC_OFFSET - UT_TV_SEC_OFFSET)) (i32_le_bytes now_usec) w2 of
                       (Some e, w3) \<Rightarrow> (Inl e, w3)
                     | (None, w3) \<Rightarrow> (Inr True, w3)))))"

text \<open>\<^verbatim>\<open>Path::is_file\<close> and \<^verbatim>\<open>fs::metadata\<close>: a link at the path itself is followed, at most 40 times.\<close>

fun plain_key :: "key \<Rightarrow> key \<Rightarrow> key" where
  "plain_key acc [] = acc"
| "plain_key acc (ParentDir # cs) = plain_key (if length acc \<le> 1 then acc else butlast acc) cs"
| "plain_key acc (RootDir # cs) = plain_key [RootDir] cs"
| "plain_key acc (CurDir # cs) = plain_key acc cs"
| "plain_key acc (Normal n # cs) = plain_key (acc @ [Normal n]) cs"

fun follow :: "nat \<Rightarrow> tree \<Rightarrow> key \<Rightarrow> node option" where
  "follow 0 fs k = None"
| "follow (Suc n) fs k =
     (case map_of fs k of
        Some (Link t) \<Rightarrow> follow n fs (plain_key (butlast k) (components t))
      | r \<Rightarrow> r)"

definition MAX_LINKS :: nat where "MAX_LINKS = 40"

definition metadata :: "path \<Rightarrow> world \<Rightarrow> (io_error + node) \<times> world" where
  "metadata p w =
     (case attempt (OpStat p) w of
        (Some e, w1) \<Rightarrow> (Inl e, w1)
      | (None, w1) \<Rightarrow> ((case follow (Suc MAX_LINKS) (w_fs w1) (key_of p) of None \<Rightarrow> Inl NotFound | Some n \<Rightarrow> Inr n), w1))"

definition decoy_keeps_records :: "path \<Rightarrow> world \<Rightarrow> bool \<times> world" where
  "decoy_keeps_records nextroot w =
     (case metadata (join nextroot WTMPDB_PATH) w of
        (Inr (File _), w1) \<Rightarrow> (True, w1)
      | (_, w1) \<Rightarrow>
          (case metadata (join nextroot WTMP_PATH) w1 of
             (Inr (File b), w2) \<Rightarrow> (length b \<ge> UTMP_RECORD_SIZE, w2)
           | (_, w2) \<Rightarrow> (False, w2)))"

text \<open>A copy written through a temporary file beside it, which goes when anything fails.\<close>

definition write_executable :: "nat \<Rightarrow> path \<Rightarrow> path \<Rightarrow> bytes \<Rightarrow> world \<Rightarrow> io_error option \<times> world" where
  "write_executable pid dir p b w =
     (let temp = join dir (''.'' @ FIXUP_BINARY @ ''.'' @ show_nat pid) in
      case rewrite_file True temp b w of
        (Some e, w1) \<Rightarrow> (Some e, snd (remove_file temp w1))
      | (None, w1) \<Rightarrow>
          (case rename temp p w1 of
             (Some e, w2) \<Rightarrow> (Some e, snd (remove_file temp w2))
           | (None, w2) \<Rightarrow> (None, w2)))"

definition unit_text :: "path \<Rightarrow> bool \<Rightarrow> bytes" where
  "unit_text binary restore_noexec =
     ''[Unit]'' @ [newline]
     @ ''Description=Overlay runtime boot bookkeeping'' @ [newline]
     @ ''After=systemd-update-utmp.service '' @ WTMPDB_UNIT @ '' local-fs.target'' @ [newline]
     @ ''Before='' @ FIXUP_WANTED_BY @ [newline]
     @ [newline]
     @ ''[Service]'' @ [newline]
     @ ''Type=oneshot'' @ [newline]
     @ ''StandardInput=null'' @ [newline]
     @ ''StandardOutput=null'' @ [newline]
     @ ''StandardError=null'' @ [newline]
     @ ''ExecStart=-'' @ utf8_lossy binary @ '' '' @ RECONCILE_ARG
     @ (if restore_noexec then '' '' @ NOEXEC_FLAG else []) @ [newline]
     @ [newline]
     @ ''[Install]'' @ [newline]
     @ ''WantedBy='' @ FIXUP_WANTED_BY @ [newline]"

text \<open>Where the pieces are.\<close>

definition fixup_dropin :: "path \<Rightarrow> path" where
  "fixup_dropin run = join (join run WTMPDB_DROPIN_DIR) WTMPDB_DROPIN_NAME"

definition fixup_wants :: "path \<Rightarrow> path" where
  "fixup_wants run = join (join run RUNTIME_UNIT_DIR) (FIXUP_WANTED_BY @ ''.wants'')"

definition fixup_unit :: "path \<Rightarrow> path" where
  "fixup_unit run = join (join run RUNTIME_UNIT_DIR) FIXUP_UNIT"

definition fixup_link :: "path \<Rightarrow> path" where
  "fixup_link run = join (fixup_wants run) FIXUP_UNIT"

text \<open>Steps of \<^verbatim>\<open>?\<close>: the next runs only when the one before did not fail.\<close>

fun all_ok :: "(world \<Rightarrow> io_error option \<times> world) list \<Rightarrow> world \<Rightarrow> io_error option \<times> world" where
  "all_ok [] w = (None, w)"
| "all_ok (f # fs) w = (case f w of (Some e, w1) \<Rightarrow> (Some e, w1) | (None, w1) \<Rightarrow> all_ok fs w1)"

text \<open>A step whose failure is let go.\<close>

definition let_go :: "(world \<Rightarrow> 'r \<times> world) \<Rightarrow> world \<Rightarrow> io_error option \<times> world" where
  "let_go f w = (None, snd (f w))"

definition boot_install :: "nat \<Rightarrow> path \<Rightarrow> bytes \<Rightarrow> bool \<Rightarrow> world \<Rightarrow> io_error option \<times> world" where
  "boot_install pid run binary restore_noexec =
     (let bin_dir = join run FIXUP_DIR; bin_path = join bin_dir FIXUP_BINARY in
      all_ok
       [create_dir_all bin_dir,
        write_executable pid bin_dir bin_path binary,
        create_dir_all (join run WTMPDB_DROPIN_DIR),
        write_atomic (fixup_dropin run) WTMPDB_DROPIN_TEXT,
        create_dir_all (join run RUNTIME_UNIT_DIR),
        write_atomic (fixup_unit run) (unit_text bin_path restore_noexec),
        create_dir_all (fixup_wants run),
        let_go (remove_file (fixup_link run)),
        symlink (join ''..'' FIXUP_UNIT) (fixup_link run)])"

definition boot_run :: "path \<Rightarrow> path \<Rightarrow> bool \<Rightarrow> (nat \<times> nat) option \<Rightarrow> world \<Rightarrow> world" where
  "boot_run run root restore_noexec clock w =
     snd (all_ok
       [let_go (reconcile_wtmp (join root WTMP_PATH) (fst (now_timeval clock)) (snd (now_timeval clock))),
        let_go (remove_file (fixup_dropin run)),
        let_go (remove_dir (join run WTMPDB_DROPIN_DIR)),
        let_go (remove_file (fixup_link run)),
        let_go (remove_dir (fixup_wants run)),
        let_go (remove_file (fixup_unit run)),
        let_go (remove_dir_all (join run FIXUP_DIR)),
        let_go (\<lambda>w. if restore_noexec then act_only (OpSetNoexec run True) w else (None, w))] w)"

section \<open>Lemmas\<close>

subsection \<open>Words on disk\<close>

lemma sint_i32_range: "I32_MIN \<le> sint (x :: 32 word) \<and> sint x \<le> I32_MAX"
  using sint_range_size [of x] by (simp add: I32_MIN_def I32_MAX_def word_size)

lemma read_i32_le_range: "I32_MIN \<le> read_i32_le r off \<and> read_i32_le r off \<le> I32_MAX"
  by (simp only: read_i32_le_def sint_i32_range)

lemma le_bytes_sum:
  assumes "(n::nat) < 4294967296"
  shows "n mod 256 + 256 * (n div 256 mod 256) + 65536 * (n div 65536 mod 256) + 16777216 * (n div 16777216 mod 256) = n"
proof -
  have a: "n mod 65536 = n mod 256 + 256 * (n div 256 mod 256)"
    using mod_mult2_eq [of n 256 256] by simp
  have b: "n mod 16777216 = n mod 65536 + 65536 * (n div 65536 mod 256)"
    using mod_mult2_eq [of n 65536 256] by simp
  have c: "n mod 4294967296 = n mod 16777216 + 16777216 * (n div 16777216 mod 256)"
    using mod_mult2_eq [of n 16777216 256] by simp
  show ?thesis using a b c assms by simp
qed

lemma le4_le4_bytes: "n < 4294967296 \<Longrightarrow> le4 (le4_bytes n @ r) 0 = n"
  using le_bytes_sum [of n] by (simp add: le4_def le4_bytes_def)

lemma length_le4_bytes [simp]: "length (le4_bytes n) = 4"
  by (simp add: le4_bytes_def)

lemma le4_cong: "(\<And>k. k < 4 \<Longrightarrow> r ! (i + k) = s ! (j + k)) \<Longrightarrow> le4 r i = le4 s j"
proof -
  assume a: "\<And>k. k < 4 \<Longrightarrow> r ! (i + k) = s ! (j + k)"
  show ?thesis using a [of 0] a [of 1] a [of 2] a [of 3] by (simp add: le4_def)
qed

lemma read_i32_le_bytes:
  assumes "I32_MIN \<le> v" "v \<le> I32_MAX"
  shows "read_i32_le (i32_le_bytes v) 0 = v"
proof -
  let ?n = "unat (word_of_int v :: 32 word)"
  have "?n < 4294967296" using unsigned_less [of "word_of_int v :: 32 word", where 'a = nat] by simp
  from le4_le4_bytes [OF this, of "[]"] have "read_i32_le (i32_le_bytes v) 0 = sint (of_nat ?n :: 32 word)"
    by (simp only: read_i32_le_def i32_le_bytes_def append_Nil2)
  also have "\<dots> = sint (word_of_int v :: 32 word)" by simp
  also have "\<dots> = v"
    using assms signed_take_bit_int_eq_self [of 31 v] by (simp add: signed_of_int I32_MIN_def I32_MAX_def)
  finally show ?thesis .
qed

lemma length_i32_le_bytes [simp]: "length (i32_le_bytes v) = 4"
  by (simp add: i32_le_bytes_def)

subsection \<open>Bytes in place\<close>

lemma length_put_at: "off + length b \<le> length c \<Longrightarrow> length (put_at c off b) = length c"
  by (auto simp: put_at_def)

lemma nth_put_at:
  assumes "off + length b \<le> length c" "i < length c"
  shows "put_at c off b ! i = (if off \<le> i \<and> i < off + length b then b ! (i - off) else c ! i)"
  using assms by (auto simp: put_at_def nth_append min_def)

lemma put_at_outside:
  "off + length b \<le> length c \<Longrightarrow> i < length c \<Longrightarrow> i < off \<or> off + length b \<le> i \<Longrightarrow> put_at c off b ! i = c ! i"
  by (auto simp: nth_put_at)

subsection \<open>Records\<close>

lemmas utmp_sizes = UTMP_RECORD_SIZE_def UT_TYPE_OFFSET_def UT_TV_SEC_OFFSET_def UT_TV_USEC_OFFSET_def

lemma record_in: "i < length data div UTMP_RECORD_SIZE \<Longrightarrow> i * 384 + 384 \<le> length data"
  by (simp add: utmp_sizes)

lemma nth_utmp_record:
  "i < length data div UTMP_RECORD_SIZE \<Longrightarrow> k < 384 \<Longrightarrow> utmp_record data i ! k = data ! (i * 384 + k)"
  using record_in [of i data] by (simp add: utmp_record_def UTMP_RECORD_SIZE_def)

lemma record_time_at:
  assumes "i < length data div UTMP_RECORD_SIZE"
  shows "record_time data i = read_i32_le data (i * 384 + 340)"
proof -
  have "le4 (utmp_record data i) 340 = le4 data (i * 384 + 340)"
    by (rule le4_cong) (simp add: nth_utmp_record [OF assms] ac_simps)
  then show ?thesis by (simp add: record_time_def read_i32_le_def UT_TV_SEC_OFFSET_def)
qed

lemma is_boot_at:
  assumes "i < length data div UTMP_RECORD_SIZE"
  shows "is_boot data i \<longleftrightarrow> read_i16_le data (i * 384) = BOOT_TIME"
  using nth_utmp_record [OF assms, of 0] nth_utmp_record [OF assms, of 1]
  by (simp add: is_boot_def read_i16_le_def UT_TYPE_OFFSET_def)

lemma max_from_ge: "m \<le> max_from m xs \<and> (\<forall>x\<in>set xs. x \<le> max_from m xs)"
proof (induction xs arbitrary: m)
  case (Cons x xs)
  show ?case using Cons [of "max m x"] by simp
qed simp

lemma max_from_in: "max_from m xs \<in> insert m (set xs)"
proof (induction xs arbitrary: m)
  case (Cons x xs)
  then show ?case using Cons [of "max m x"] by (auto simp: max_def split: if_splits)
qed simp

lemma earlier_max_ge: "i < b \<Longrightarrow> record_time data i \<le> earlier_max data b"
proof -
  assume i: "i < b"
  then obtain t ts where e: "map (record_time data) [0..<b] = t # ts" by (cases "map (record_time data) [0..<b]") auto
  have "record_time data i \<in> set (t # ts)" using i e [symmetric] by simp
  then show ?thesis using max_from_ge [of t ts] e by (auto simp: earlier_max_def)
qed

lemma earlier_max_range: "I32_MIN \<le> earlier_max data b \<and> earlier_max data b \<le> I32_MAX"
proof (cases "map (record_time data) [0..<b]")
  case Nil
  then show ?thesis by (simp add: earlier_max_def I32_MIN_def I32_MAX_def)
next
  case (Cons t ts)
  have "max_from t ts \<in> set (map (record_time data) [0..<b])" using max_from_in [of t ts] Cons by simp
  then obtain i where "max_from t ts = record_time data i" by auto
  then show ?thesis using read_i32_le_range Cons by (simp add: earlier_max_def record_time_def)
qed

lemma last_boot_SomeD:
  "last_boot data = Some b \<Longrightarrow> b < length data div UTMP_RECORD_SIZE \<and> is_boot data b"
  by (auto simp: last_boot_def dest!: find_SomeD)

lemma fix_SomeD:
  assumes "backdated_boot_fix data now = Some (off, v)"
  obtains b where "last_boot data = Some b" "record_time data b < earlier_max data b"
    "off = b * 384 + 340" "v = max now (saturating_add_i32 (earlier_max data b) 1)"
  using assms by (auto simp: backdated_boot_fix_def Let_def utmp_sizes split: option.splits if_splits)

lemma corrected_ge:
  "max now (saturating_add_i32 (earlier_max data b) 1) \<ge> earlier_max data b"
  using earlier_max_range [of data b] by (auto simp: saturating_add_i32_def)

text \<open>The file after the two writes: the same records but for the time of the last boot.\<close>

definition corrected_data :: "bytes \<Rightarrow> nat \<Rightarrow> int \<Rightarrow> int \<Rightarrow> bytes" where
  "corrected_data data off v usec = put_at (put_at data off (i32_le_bytes v)) (off + 4) (i32_le_bytes usec)"

lemma corrected_room:
  assumes "b < length data div UTMP_RECORD_SIZE"
  shows "b * 384 + 340 + 4 \<le> length data" "b * 384 + 340 + 4 + 4 \<le> length data"
  using record_in [OF assms] by simp_all

lemma corrected_length:
  "b < length data div UTMP_RECORD_SIZE \<Longrightarrow> length (corrected_data data (b * 384 + 340) v usec) = length data"
  using corrected_room [of b data] by (simp add: corrected_data_def length_put_at)

lemma corrected_nth:
  "b < length data div UTMP_RECORD_SIZE \<Longrightarrow> i < length data \<Longrightarrow> i < b * 384 + 340 \<or> b * 384 + 348 \<le> i \<Longrightarrow>
     corrected_data data (b * 384 + 340) v usec ! i = data ! i"
  using corrected_room [of b data] by (auto simp: corrected_data_def length_put_at put_at_outside)

lemma corrected_is_boot:
  assumes "b < length data div UTMP_RECORD_SIZE" "i < length data div UTMP_RECORD_SIZE"
  shows "is_boot (corrected_data data (b * 384 + 340) v usec) i = is_boot data i" (is "is_boot ?d i = _")
proof -
  have "?d ! (i * 384 + k) = data ! (i * 384 + k)" if "k < 2" for k
  proof (rule corrected_nth [OF assms(1)])
    show "i * 384 + k < length data" using record_in [OF assms(2)] that by simp
    show "i * 384 + k < b * 384 + 340 \<or> b * 384 + 348 \<le> i * 384 + k" using that by (cases i b rule: linorder_cases) simp_all
  qed
  from this [of 0] this [of 1] show ?thesis
    using assms corrected_length [OF assms(1)] by (simp add: is_boot_at read_i16_le_def)
qed

lemma corrected_time:
  assumes "b < length data div UTMP_RECORD_SIZE" "i < length data div UTMP_RECORD_SIZE" "i \<noteq> b"
  shows "record_time (corrected_data data (b * 384 + 340) v usec) i = record_time data i" (is "record_time ?d i = _")
proof -
  have "le4 ?d (i * 384 + 340) = le4 data (i * 384 + 340)"
  proof (rule le4_cong, rule corrected_nth [OF assms(1)])
    fix k :: nat assume "k < 4"
    then show "i * 384 + 340 + k < length data" using record_in [OF assms(2)] by simp
    show "i * 384 + 340 + k < b * 384 + 340 \<or> b * 384 + 348 \<le> i * 384 + 340 + k"
      using \<open>k < 4\<close> assms(3) by (cases i b rule: linorder_cases) simp_all
  qed
  then show ?thesis using assms corrected_length [OF assms(1)] by (simp add: record_time_at read_i32_le_def)
qed

lemma corrected_time_boot:
  assumes "b < length data div UTMP_RECORD_SIZE" "I32_MIN \<le> v" "v \<le> I32_MAX"
  shows "record_time (corrected_data data (b * 384 + 340) v usec) b = v" (is "record_time ?d b = _")
proof -
  have "le4 ?d (b * 384 + 340) = le4 (i32_le_bytes v) 0"
    by (rule le4_cong)
      (use corrected_room [OF assms(1)] in \<open>simp add: corrected_data_def length_put_at put_at_outside nth_put_at\<close>)
  then show ?thesis
    using assms(1) read_i32_le_bytes [OF assms(2,3)] corrected_length [OF assms(1)] by (simp add: record_time_at read_i32_le_def)
qed

lemma corrected_last_boot:
  assumes "b < length data div UTMP_RECORD_SIZE"
  shows "last_boot (corrected_data data (b * 384 + 340) v usec) = last_boot data"
  unfolding last_boot_def corrected_length [OF assms]
  by (rule find_cong) (simp_all add: corrected_is_boot [OF assms])

lemma corrected_earlier:
  assumes "b < length data div UTMP_RECORD_SIZE"
  shows "earlier_max (corrected_data data (b * 384 + 340) v usec) b = earlier_max data b"
proof -
  have "map (record_time (corrected_data data (b * 384 + 340) v usec)) [0..<b] = map (record_time data) [0..<b]"
    using assms by (simp add: corrected_time)
  then show ?thesis by (simp only: earlier_max_def)
qed

text \<open>A shutdown at the time 2000 and a boot stamped 1000 after it.\<close>

definition sample_record :: "nat \<Rightarrow> nat \<Rightarrow> bytes" where
  "sample_record typ time =
     [char_of typ, CHR 0x00] @ replicate 338 (CHR 0x00) @ le4_bytes time @ replicate 40 (CHR 0x00)"

definition sample_wtmp :: bytes where
  "sample_wtmp = sample_record 1 2000 @ sample_record 2 1000"

lemma sample_wtmp_length: "length sample_wtmp = 768"
  by (simp add: sample_wtmp_def sample_record_def)

lemma sample_wtmp_facts:
  "record_time sample_wtmp 0 = 2000" "record_time sample_wtmp 1 = 1000"
  "is_boot sample_wtmp 1" "\<not> is_boot sample_wtmp 0"
  by (simp_all add: record_time_at is_boot_at sample_wtmp_length UTMP_RECORD_SIZE_def read_i32_le_def read_i16_le_def
      le4_def le4_bytes_def sample_wtmp_def sample_record_def nth_append BOOT_TIME_def)

lemma sample_wtmp_last: "last_boot sample_wtmp = Some 1"
  using sample_wtmp_facts by (simp add: last_boot_def sample_wtmp_length UTMP_RECORD_SIZE_def upt_rec)

lemma sample_wtmp_fix: "backdated_boot_fix sample_wtmp 1500 = Some (724, 2001)"
  using sample_wtmp_facts
  by (simp add: backdated_boot_fix_def sample_wtmp_last earlier_max_def utmp_sizes saturating_add_i32_def
      I32_MIN_def I32_MAX_def)

section \<open>Properties\<close>

text \<open>The corrected boot time fits the 32-bit field, is not before the time the decoy came back, and
  is after every earlier record, or the greatest time the field can hold; its offset is that of the time
  field of the last boot record, within the file.\<close>

theorem backdated_boot_fix_bounds:
  assumes "backdated_boot_fix data now = Some (off, v)" "I32_MIN \<le> now" "now \<le> I32_MAX"
  shows "\<exists>b. last_boot data = Some b \<and> off = b * UTMP_RECORD_SIZE + UT_TV_SEC_OFFSET \<and> off + 8 \<le> length data
       \<and> I32_MIN \<le> v \<and> v \<le> I32_MAX \<and> now \<le> v
       \<and> (\<forall>i<b. record_time data i < v \<or> v = I32_MAX)"
proof -
  obtain b where b: "last_boot data = Some b" "record_time data b < earlier_max data b" "off = b * 384 + 340"
    "v = max now (saturating_add_i32 (earlier_max data b) 1)"
    by (rule fix_SomeD [OF assms(1)])
  have "off + 8 \<le> length data" using b last_boot_SomeD record_in by fastforce
  moreover have "I32_MIN \<le> v" "v \<le> I32_MAX"
    using assms(2,3) b(4) by (auto simp: saturating_add_i32_def I32_MIN_def I32_MAX_def)
  moreover have "record_time data i < v \<or> v = I32_MAX" if "i < b" for i
  proof (cases "earlier_max data b + 1 \<le> I32_MAX")
    case True
    with b(4) earlier_max_range [of data b] have "earlier_max data b + 1 \<le> v" by (auto simp: saturating_add_i32_def)
    with earlier_max_ge [OF that, of data] show ?thesis by simp
  next
    case False
    with b(4) assms(3) have "v = I32_MAX" by (auto simp: saturating_add_i32_def I32_MIN_def I32_MAX_def)
    then show ?thesis ..
  qed
  ultimately show ?thesis using b by (auto simp: utmp_sizes)
qed

theorem backdated_boot_fix_bounds_witness:
  "backdated_boot_fix sample_wtmp 1500 = Some (724, 2001)
   \<and> (\<exists>b. last_boot sample_wtmp = Some b \<and> 724 = b * UTMP_RECORD_SIZE + UT_TV_SEC_OFFSET)"
proof
  show e: "backdated_boot_fix sample_wtmp 1500 = Some (724, 2001)" by (rule sample_wtmp_fix)
  have "I32_MIN \<le> 1500" "1500 \<le> I32_MAX" by (simp_all add: I32_MIN_def I32_MAX_def)
  from backdated_boot_fix_bounds [OF e this]
  show "\<exists>b. last_boot sample_wtmp = Some b \<and> 724 = b * UTMP_RECORD_SIZE + UT_TV_SEC_OFFSET" by blast
qed

lemma calm_read_file:
  "calm w \<Longrightarrow> node_at w p = Some (File d) \<Longrightarrow> read_file p w = (r, w') \<Longrightarrow> r = Inr d \<and> node_at w' q = node_at w q \<and> calm w'"
  by (auto simp: read_file_def calm_attempt calm_def)

lemma calm_put [simp]: "calm (put p n w) = calm w"
  by (simp add: calm_def put_def)

lemma calm_write_at:
  "calm w \<Longrightarrow> node_at w p = Some (File d) \<Longrightarrow> write_at p off b w = (r, w') \<Longrightarrow>
     r = None \<and> node_at w' p = Some (File (put_at d off b)) \<and> calm w'"
  by (auto simp: write_at_def calm_attempt) (simp add: calm_def)

text \<open>C35: on a host that refuses nothing the reconcile step settles the file: it reports a change exactly
  when the last boot record was backdated, afterwards the last boot record is backdated at no time the
  step may run again, the file keeps its length, and no byte changed but the time of that record.\<close>

theorem reconcile_wtmp_settles:
  assumes "calm w" "node_at w p = Some (File data)" "I32_MIN \<le> now" "now \<le> I32_MAX"
    and "reconcile_wtmp p now usec w = (r, w')"
  shows "\<exists>data'. r = Inr (backdated_boot_fix data now \<noteq> None) \<and> node_at w' p = Some (File data')
       \<and> length data' = length data \<and> backdated_boot_fix data' later = None
       \<and> (\<forall>i<length data. data' ! i = data ! i
            \<or> (\<exists>off v. backdated_boot_fix data now = Some (off, v) \<and> off \<le> i \<and> i < off + 8))"
proof -
  obtain x w1 where x: "read_file p w = (x, w1)" by fastforce
  from calm_read_file [OF assms(1,2) x, of p] assms(2) have w1: "x = Inr data" "node_at w1 p = Some (File data)" "calm w1"
    by simp_all
  show ?thesis
  proof (cases "backdated_boot_fix data now")
    case None
    have "backdated_boot_fix data later = None"
      using None by (auto simp: backdated_boot_fix_def Let_def split: option.splits if_splits)
    with assms(5) x w1 None show ?thesis by (simp add: reconcile_wtmp_def)
  next
    case (Some ov)
    then obtain off v where s: "backdated_boot_fix data now = Some (off, v)" by (cases ov) simp
    obtain b where b: "last_boot data = Some b" "record_time data b < earlier_max data b" "off = b * 384 + 340"
      "v = max now (saturating_add_i32 (earlier_max data b) 1)"
      by (rule fix_SomeD [OF s])
    have bl: "b < length data div UTMP_RECORD_SIZE" using b(1) last_boot_SomeD by blast
    have vr: "I32_MIN \<le> v" "v \<le> I32_MAX"
      using assms(3,4) b(4) by (auto simp: saturating_add_i32_def I32_MIN_def I32_MAX_def)
    let ?d = "corrected_data data off v usec"
    obtain y w2 where y: "write_at p off (i32_le_bytes v) w1 = (y, w2)" by fastforce
    note w2 = calm_write_at [OF w1(3,2) y]
    obtain z w3 where z: "write_at p (off + 4) (i32_le_bytes usec) w2 = (z, w3)" by fastforce
    note w3 = calm_write_at [OF w2 [THEN conjunct2, THEN conjunct2] w2 [THEN conjunct2, THEN conjunct1] z]
    have "r = Inr True" "w' = w3"
      using assms(5) x w1(1) s y w2 z w3 by (simp_all add: reconcile_wtmp_def utmp_sizes)
    moreover have "node_at w3 p = Some (File ?d)" using w3 by (simp add: corrected_data_def)
    moreover have "backdated_boot_fix ?d later = None"
      using corrected_last_boot [OF bl] corrected_earlier [OF bl] corrected_time_boot [OF bl vr]
        corrected_ge [of data b now, folded b(4)] b(1,3)
      by (simp add: backdated_boot_fix_def Let_def)
    moreover have "?d ! i = data ! i \<or> off \<le> i \<and> i < off + 8" if "i < length data" for i
      using corrected_nth [OF bl that] b(3) by fastforce
    ultimately show ?thesis using s b(3) corrected_length [OF bl] by auto
  qed
qed

definition wtmp_world :: world where
  "wtmp_world = sample_world\<lparr>w_fs := [(key_of ''/wtmp'', File sample_wtmp)]\<rparr>"

theorem reconcile_wtmp_settles_witness:
  "\<exists>data'. node_at (snd (reconcile_wtmp ''/wtmp'' 1500 7 wtmp_world)) ''/wtmp'' = Some (File data')
     \<and> backdated_boot_fix data' 1600 = None"
proof -
  have "calm wtmp_world" using sample_world_ok(1) by (simp add: wtmp_world_def calm_def)
  moreover have "node_at wtmp_world ''/wtmp'' = Some (File sample_wtmp)" by (simp add: wtmp_world_def node_at_def)
  moreover have "I32_MIN \<le> 1500" "1500 \<le> I32_MAX" by (simp_all add: I32_MIN_def I32_MAX_def)
  ultimately show ?thesis
    using reconcile_wtmp_settles [of wtmp_world "''/wtmp''" sample_wtmp 1500 7 _ _ 1600] by (metis prod.collapse)
qed

subsection \<open>The pieces go\<close>

lemma write_at_dir: "write_at p off b w = (r, w') \<Longrightarrow> node_at w' q = Some Dir \<longleftrightarrow> node_at w q = Some Dir"
  by (auto simp: write_at_def begun_def node_at_def put_def update_conv' split: prod.splits option.splits node.splits if_splits
      dest!: attempt_touches [where K = "{}"])

lemma reconcile_wtmp_dir:
  assumes "reconcile_wtmp p now usec w = (r, w')"
  shows "node_at w' q = Some Dir \<longleftrightarrow> node_at w q = Some Dir"
proof -
  obtain x w1 where x: "read_file p w = (x, w1)" by fastforce
  then have n: "node_at w1 q = node_at w q" using read_file_touches by (auto simp: node_at_def)
  show ?thesis
    using assms x n write_at_dir
    by (auto simp: reconcile_wtmp_def split: sum.splits option.splits prod.splits)
qed

lemma reconcile_wtmp_touches: "reconcile_wtmp p now usec w = (r, w') \<Longrightarrow> touches {key_of p} w w'"
  by (auto simp: reconcile_wtmp_def split: sum.splits option.splits prod.splits
      dest!: write_at_touches dest: read_file_touches [where K = "{key_of p}"] intro: touches_trans)

lemma shrinks_gone: "shrinks w w' \<Longrightarrow> node_at w q = None \<Longrightarrow> node_at w' q = None"
  by (metis not_None_eq shrinks_node)

lemma calm_gone_file: "calm w \<Longrightarrow> node_at w p \<noteq> Some Dir \<Longrightarrow> node_at (snd (remove_file p w)) p = None"
  by (auto simp: remove_file_def calm_attempt split: option.splits node.splits)

lemma calm_gone_tree:
  "calm w \<Longrightarrow> node_at w p = Some Dir \<Longrightarrow> path_starts_with q p \<Longrightarrow> node_at (snd (remove_dir_all p w)) q = None"
  by (simp add: remove_dir_all_def calm_attempt)

lemma snd_shrinks:
  "shrinks w (snd (remove_file p w))" "shrinks w (snd (remove_dir p w))" "shrinks w (snd (remove_dir_all p w))"
  "shrinks w (snd (act_only act w))"
  using remove_file_shrinks [of p w] remove_dir_shrinks [of p w] remove_dir_all_shrinks [of p w]
    attempt_same_tree [of act w] same_tree_shrinks
  by (metis act_only_def prod.collapse)+

lemma fixup_dir_apart:
  assumes "is_absolute run"
  shows "\<not> path_eq (join run WTMPDB_DROPIN_DIR) (join run FIXUP_DIR)" "\<not> path_eq (fixup_wants run) (join run FIXUP_DIR)"
    "\<not> path_eq (fixup_dropin run) (join run FIXUP_DIR)" "\<not> path_eq (fixup_link run) (join run FIXUP_DIR)"
    "\<not> path_eq (fixup_unit run) (join run FIXUP_DIR)"
proof -
  have k: "key_of (join run FIXUP_DIR) = key_of run @ [Normal FIXUP_DIR]"
    "key_of (join run WTMPDB_DROPIN_DIR) = key_of run @ [Normal ''systemd'', Normal ''system'', Normal ''wtmpdb-update-boot.service.d'']"
    "key_of (join run RUNTIME_UNIT_DIR) = key_of run @ [Normal ''systemd'', Normal ''system'']"
    using assms by (simp_all add: components_join is_absolute_def FIXUP_DIR_def WTMPDB_DROPIN_DIR_def RUNTIME_UNIT_DIR_def component_of_def)
  have a: "is_absolute (join run RUNTIME_UNIT_DIR)" "is_absolute (join run WTMPDB_DROPIN_DIR)" "is_absolute (fixup_wants run)"
    using assms by (simp_all add: is_absolute_joinI fixup_wants_def)
  have n: "name_ok FIXUP_UNIT" "name_ok (FIXUP_WANTED_BY @ ''.wants'')" "name_ok WTMPDB_DROPIN_NAME"
    by (simp_all add: name_ok_def FIXUP_UNIT_def FIXUP_WANTED_BY_def WTMPDB_DROPIN_NAME_def component_of_def)
  show "\<not> path_eq (join run WTMPDB_DROPIN_DIR) (join run FIXUP_DIR)" "\<not> path_eq (fixup_wants run) (join run FIXUP_DIR)"
    "\<not> path_eq (fixup_dropin run) (join run FIXUP_DIR)" "\<not> path_eq (fixup_link run) (join run FIXUP_DIR)"
    "\<not> path_eq (fixup_unit run) (join run FIXUP_DIR)"
    using k key_join_name [OF a(1) n(1)] key_join_name [OF a(1) n(2)] key_join_name [OF a(2) n(3)] key_join_name [OF a(3) n(1)]
    by (simp_all add: path_eq_def fixup_wants_def fixup_dropin_def fixup_link_def fixup_unit_def)
qed

lemma remove_other:
  "\<not> path_eq p q \<Longrightarrow> node_at (snd (remove_file p w)) q = node_at w q"
  "\<not> path_eq p q \<Longrightarrow> node_at (snd (remove_dir p w)) q = node_at w q"
  by (auto simp: remove_file_def remove_dir_def attempt_def split: option.splits node.splits)

text \<open>C36: on a host that refuses nothing the one-shot leaves no piece of itself: its drop-in, its unit, the
  link that pulls it in, and the directory of its binary copy with all that is in it are gone.\<close>

theorem boot_run_removes_itself:
  assumes "calm w" "is_absolute run" "node_at w (join run FIXUP_DIR) = Some Dir"
    and "node_at w (fixup_dropin run) \<noteq> Some Dir" "node_at w (fixup_link run) \<noteq> Some Dir" "node_at w (fixup_unit run) \<noteq> Some Dir"
    and "q \<in> {fixup_dropin run, fixup_link run, fixup_unit run} \<or> path_starts_with q (join run FIXUP_DIR)"
  shows "node_at (boot_run run root restore_noexec clock w) q = None"
proof -
  define w1 where "w1 = snd (reconcile_wtmp (join root WTMP_PATH) (fst (now_timeval clock)) (snd (now_timeval clock)) w)"
  define w2 where "w2 = snd (remove_file (fixup_dropin run) w1)"
  define w3 where "w3 = snd (remove_dir (join run WTMPDB_DROPIN_DIR) w2)"
  define w4 where "w4 = snd (remove_file (fixup_link run) w3)"
  define w5 where "w5 = snd (remove_dir (fixup_wants run) w4)"
  define w6 where "w6 = snd (remove_file (fixup_unit run) w5)"
  define w7 where "w7 = snd (remove_dir_all (join run FIXUP_DIR) w6)"
  let ?w8 = "boot_run run root restore_noexec clock w"
  have w8: "?w8 = (if restore_noexec then snd (act_only (OpSetNoexec run True) w7) else w7)"
    by (simp add: boot_run_def let_go_def w1_def w2_def w3_def w4_def w5_def w6_def w7_def)
  have d1: "node_at w1 p = Some Dir \<longleftrightarrow> node_at w p = Some Dir" for p
    using reconcile_wtmp_dir by (metis w1_def prod.collapse)
  have c1: "calm w1" using reconcile_wtmp_touches calm_touches [OF assms(1)] by (metis w1_def prod.collapse)
  note steps = w2_def w3_def w4_def w5_def w6_def w7_def
  have s: "shrinks w1 w2" "shrinks w2 w3" "shrinks w3 w4" "shrinks w4 w5" "shrinks w5 w6" "shrinks w6 w7" "shrinks w7 ?w8"
    unfolding w8 steps by (simp_all add: snd_shrinks)
  have c: "calm w3" "calm w5" "calm w6" using s c1 shrinks_calm by blast+
  have kept: "shrinks w1 v \<Longrightarrow> node_at w p \<noteq> Some Dir \<Longrightarrow> node_at v p \<noteq> Some Dir" for v p
    using d1 shrinks_node by blast
  have s3: "shrinks w1 w3" and s5: "shrinks w1 w5" using s shrinks_trans by blast+
  have "node_at w2 (fixup_dropin run) = None" unfolding w2_def by (rule calm_gone_file [OF c1]) (use d1 assms(4) in simp)
  then have g1: "node_at ?w8 (fixup_dropin run) = None" using s shrinks_gone by blast
  have "node_at w4 (fixup_link run) = None" unfolding w4_def by (rule calm_gone_file [OF c(1) kept [OF s3 assms(5)]])
  then have g2: "node_at ?w8 (fixup_link run) = None" using s shrinks_gone by blast
  have "node_at w6 (fixup_unit run) = None" unfolding w6_def by (rule calm_gone_file [OF c(2) kept [OF s5 assms(6)]])
  then have g3: "node_at ?w8 (fixup_unit run) = None" using s shrinks_gone by blast
  have "node_at w6 (join run FIXUP_DIR) = Some Dir"
    using d1 assms(3) unfolding w2_def w3_def w4_def w5_def w6_def by (simp add: remove_other fixup_dir_apart [OF assms(2)])
  then have "path_starts_with q (join run FIXUP_DIR) \<Longrightarrow> node_at w7 q = None"
    unfolding w7_def using calm_gone_tree [OF c(3)] by blast
  with g1 g2 g3 assms(7) show ?thesis using shrinks_gone [OF s(7)] by blast
qed

definition installed_world :: world where
  "installed_world = snd (boot_install 7 ''/run'' ''bin'' True sample_world)"

theorem boot_run_removes_itself_witness:
  "node_at installed_world ''/run/overlay-runtime-boot/control'' = Some (File ''bin'')
   \<and> node_at (boot_run ''/run'' ''/'' True None installed_world) ''/run/overlay-runtime-boot/control'' = None"
proof
  show "node_at installed_world ''/run/overlay-runtime-boot/control'' = Some (File ''bin'')" by code_simp
  show "node_at (boot_run ''/run'' ''/'' True None installed_world) ''/run/overlay-runtime-boot/control'' = None"
  proof (rule boot_run_removes_itself)
    have "w_fault installed_world l = None" for l by code_simp
    then show "calm installed_world" by (simp add: calm_def)
    show "is_absolute ''/run''" by (rule sample_world_ok(3))
    show "node_at installed_world (join ''/run'' FIXUP_DIR) = Some Dir" by code_simp
    show "node_at installed_world (fixup_dropin ''/run'') \<noteq> Some Dir" by code_simp
    show "node_at installed_world (fixup_link ''/run'') \<noteq> Some Dir" by code_simp
    show "node_at installed_world (fixup_unit ''/run'') \<noteq> Some Dir" by code_simp
    have "path_starts_with ''/run/overlay-runtime-boot/control'' (join ''/run'' FIXUP_DIR)" by code_simp
    then show "''/run/overlay-runtime-boot/control'' \<in> {fixup_dropin ''/run'', fixup_link ''/run'', fixup_unit ''/run''}
        \<or> path_starts_with ''/run/overlay-runtime-boot/control'' (join ''/run'' FIXUP_DIR)" by (rule disjI2)
  qed
qed

end
