(* ===== verification/Run_Records.thy ===== *)
theory Run_Records
  imports Boot_Records
begin

text \<open>
  The decoy's records in \<^verbatim>\<open>/run\<close> that its own start writes to disk,
  \<^verbatim>\<open>nails-teardown/src/whole_root/run_records.rs\<close>: the copy taken at entry, its file format, and the
  way back that puts the copy in place.  The \<^verbatim>\<open>BTreeMap\<close> of the source is an association list sorted by
  path, in the order \<^verbatim>\<open>Path\<close> has (component by component).  The special files of the source (sockets,
  FIFOs, devices) are the sockets of the file tree.
\<close>

section \<open>Definitions\<close>

definition RECORD_DIRS :: "path list" where "RECORD_DIRS = [''resolvconf'']"
definition RECORD_MAX_DEPTH :: nat where "RECORD_MAX_DEPTH = 4"
definition RECORD_MAX_BYTES :: int where "RECORD_MAX_BYTES = 2 ^ 20"

datatype record_kind = KDir | KFile bytes | KLink path

text \<open>The order of paths: components compare as \<^verbatim>\<open>Component\<close> derives it.\<close>

fun comp_rank :: "component \<Rightarrow> nat" where
  "comp_rank RootDir = 0" | "comp_rank CurDir = 1" | "comp_rank ParentDir = 2" | "comp_rank (Normal n) = 3"

fun comp_name :: "component \<Rightarrow> bytes" where
  "comp_name (Normal n) = n" | "comp_name _ = []"

instantiation component :: linorder
begin

definition less_component :: "component \<Rightarrow> component \<Rightarrow> bool" where
  "less_component c d \<longleftrightarrow> comp_rank c < comp_rank d \<or> comp_rank c = comp_rank d \<and> comp_name c < comp_name d"

definition less_eq_component :: "component \<Rightarrow> component \<Rightarrow> bool" where
  "less_eq_component c d \<longleftrightarrow> c = d \<or> c < (d :: component)"

instance
proof
  fix x y z :: component
  show "x < y \<longleftrightarrow> x \<le> y \<and> \<not> y \<le> x"
    by (auto simp: less_component_def less_eq_component_def)
  show "x \<le> x" by (simp add: less_eq_component_def)
  show "x \<le> y \<Longrightarrow> y \<le> z \<Longrightarrow> x \<le> z"
    by (auto simp: less_component_def less_eq_component_def)
  show "x \<le> y \<Longrightarrow> y \<le> x \<Longrightarrow> x = y"
    by (auto simp: less_component_def less_eq_component_def)
  show "x \<le> y \<or> y \<le> x"
    by (cases x; cases y) (auto simp: less_component_def less_eq_component_def)
qed

end

type_synonym records = "(path \<times> record_kind) list"

text \<open>\<^verbatim>\<open>BTreeMap::insert\<close> and \<^verbatim>\<open>get\<close>: a key that is there already stays as it is spelt.\<close>

fun records_insert :: "path \<Rightarrow> record_kind \<Rightarrow> records \<Rightarrow> records" where
  "records_insert p k [] = [(p, k)]"
| "records_insert p k ((q, l) # rs) =
     (if path_eq p q then (q, k) # rs
      else if components p < components q then (p, k) # (q, l) # rs
      else (q, l) # records_insert p k rs)"

definition records_get :: "records \<Rightarrow> path \<Rightarrow> record_kind option" where
  "records_get rs p = map_option snd (find (\<lambda>(q, _). path_eq q p) rs)"

subsection \<open>The format\<close>

text \<open>A length is capped at the greatest \<^verbatim>\<open>u32\<close>.\<close>

definition u32_len :: "bytes \<Rightarrow> nat" where
  "u32_len b = (if int (length b) < 2 ^ 32 then length b else nat (2 ^ 32 - 1))"

definition encode_part :: "bytes \<Rightarrow> bytes" where
  "encode_part b = le4_bytes (u32_len b) @ b"

definition kind_tag :: "record_kind \<Rightarrow> char \<times> bytes" where
  "kind_tag k = (case k of KDir \<Rightarrow> (CHR ''d'', []) | KFile c \<Rightarrow> (CHR ''f'', c) | KLink t \<Rightarrow> (CHR ''l'', t))"

definition encode :: "records \<Rightarrow> bytes" where
  "encode rs = concat (map (\<lambda>(p, k). fst (kind_tag k) # encode_part p @ encode_part (snd (kind_tag k))) rs)"

definition take_part :: "bytes \<Rightarrow> (bytes \<times> bytes) option" where
  "take_part b =
     (if length b < 4 then None
      else let n = le4 b 0; rest = drop 4 b
           in if n \<le> length rest then Some (take n rest, drop n rest) else None)"

definition is_normal :: "component \<Rightarrow> bool" where
  "is_normal c = (case c of Normal _ \<Rightarrow> True | _ \<Rightarrow> False)"

definition is_record_path :: "path \<Rightarrow> bool" where
  "is_record_path p =
     (case components p of
        Normal first # cs \<Rightarrow> (\<exists>dir\<in>set RECORD_DIRS. dir = first) \<and> (\<forall>c\<in>set cs. is_normal c)
      | _ \<Rightarrow> False)"

definition decode_kind :: "char \<Rightarrow> bytes \<Rightarrow> record_kind option" where
  "decode_kind tag data =
     (if tag = CHR ''d'' then Some KDir
      else if tag = CHR ''f'' then Some (KFile data)
      else if tag = CHR ''l'' then Some (KLink data)
      else None)"

lemma take_part_shorter: "take_part b = Some (p, rest) \<Longrightarrow> length rest < length b"
  by (auto simp: take_part_def Let_def split: if_splits)

function decode_loop :: "records \<Rightarrow> bytes \<Rightarrow> records option" where
  "decode_loop rs [] = Some rs"
| "decode_loop rs (tag # rest) =
     (case take_part rest of
        None \<Rightarrow> None
      | Some (p, rest1) \<Rightarrow>
          (case take_part rest1 of
             None \<Rightarrow> None
           | Some (data, rest2) \<Rightarrow>
               if \<not> is_record_path p then None
               else (case decode_kind tag data of
                       None \<Rightarrow> None
                     | Some k \<Rightarrow> decode_loop (records_insert p k rs) rest2)))"
  by pat_completeness auto
termination
  by (relation "measure (length \<circ> snd)") (auto dest!: take_part_shorter)

definition decode :: "bytes \<Rightarrow> records option" where
  "decode b = decode_loop [] b"

subsection \<open>The copy\<close>

function collect :: "path \<Rightarrow> path \<Rightarrow> nat \<Rightarrow> records \<times> nat \<Rightarrow> world \<Rightarrow> (io_error + records \<times> nat) \<times> world"
  and collect_each :: "path \<Rightarrow> path \<Rightarrow> nat \<Rightarrow> bytes list \<Rightarrow> records \<times> nat \<Rightarrow> world \<Rightarrow> (io_error + records \<times> nat) \<times> world" where
  "collect run rel depth acc w =
     (case lstat (join run rel) w of
        (Inl e, w1) \<Rightarrow> (if e = NotFound then Inr acc else Inl e, w1)
      | (Inr Dir, w1) \<Rightarrow>
          (let acc1 = (records_insert rel KDir (fst acc), snd acc) in
           if depth < RECORD_MAX_DEPTH
           then (case read_dir (join run rel) w1 of
                   (Inl e, w2) \<Rightarrow> (Inl e, w2)
                 | (Inr names, w2) \<Rightarrow> collect_each run rel (depth + 1) names acc1 w2)
           else (Inr acc1, w1))
      | (Inr (File _), w1) \<Rightarrow>
          (case read_file (join run rel) w1 of
             (Inl e, w2) \<Rightarrow> (Inl e, w2)
           | (Inr content, w2) \<Rightarrow>
               let total = snd acc + length content in
               if int total > RECORD_MAX_BYTES then (Inl (OtherError ''the records are too large to copy''), w2)
               else (Inr (records_insert rel (KFile content) (fst acc), total), w2))
      | (Inr (Link _), w1) \<Rightarrow>
          (case read_link (join run rel) w1 of
             (Inl e, w2) \<Rightarrow> (Inl e, w2)
           | (Inr t, w2) \<Rightarrow> (Inr (records_insert rel (KLink t) (fst acc), snd acc), w2))
      | (Inr Socket, w1) \<Rightarrow> (Inr acc, w1))"
| "collect_each run rel depth [] acc w = (Inr acc, w)"
| "collect_each run rel depth (name # names) acc w =
     (case collect run (join rel name) depth acc w of
        (Inl e, w1) \<Rightarrow> (Inl e, w1)
      | (Inr acc1, w1) \<Rightarrow> collect_each run rel depth names acc1 w1)"
  by pat_completeness auto
termination
  by (relation "measures
        [\<lambda>x. case x of Inl (_, _, depth, _, _) \<Rightarrow> 5 - depth | Inr (_, _, depth, _, _, _) \<Rightarrow> 5 - depth,
         \<lambda>x. case x of Inl _ \<Rightarrow> 0 | Inr (_, _, _, names, _, _) \<Rightarrow> Suc (length names)]")
    (auto simp: RECORD_MAX_DEPTH_def)

fun save_loop :: "path \<Rightarrow> path list \<Rightarrow> records \<times> nat \<Rightarrow> world \<Rightarrow> (io_error + records \<times> nat) \<times> world" where
  "save_loop run [] acc w = (Inr acc, w)"
| "save_loop run (dir # dirs) acc w =
     (case collect run dir 0 acc w of
        (Inl e, w1) \<Rightarrow> (Inl e, w1)
      | (Inr acc1, w1) \<Rightarrow> save_loop run dirs acc1 w1)"

definition save_records :: "path \<Rightarrow> path \<Rightarrow> world \<Rightarrow> io_error option \<times> world" where
  "save_records run to w =
     (case save_loop run RECORD_DIRS ([], 0) w of
        (Inl e, w1) \<Rightarrow> (Some e, w1)
      | (Inr acc, w1) \<Rightarrow> write_atomic to (encode (fst acc)) w1)"

subsection \<open>The way back\<close>

function reconcile :: "path \<Rightarrow> path \<Rightarrow> nat \<Rightarrow> records \<Rightarrow> world \<Rightarrow> world"
  and reconcile_each :: "path \<Rightarrow> path \<Rightarrow> nat \<Rightarrow> records \<Rightarrow> bytes list \<Rightarrow> world \<Rightarrow> world" where
  "reconcile run rel depth rs w =
     (case lstat (join run rel) w of
        (Inl _, w1) \<Rightarrow> w1
      | (Inr n, w1) \<Rightarrow>
          if n = Socket then w1
          else
            (case (records_get rs rel, n) of
               (Some KDir, Dir) \<Rightarrow>
                 if depth < RECORD_MAX_DEPTH
                 then (case read_dir (join run rel) w1 of
                         (Inl _, w2) \<Rightarrow> w2
                       | (Inr names, w2) \<Rightarrow> reconcile_each run rel (depth + 1) rs names w2)
                 else w1
             | (Some (KFile content), File _) \<Rightarrow>
                 (case read_file (join run rel) w1 of
                    (r, w2) \<Rightarrow> if r = Inr content then w2 else snd (rewrite_file False (join run rel) content w2))
             | (Some (KLink t), Link _) \<Rightarrow>
                 (case read_link (join run rel) w1 of
                    (Inr t', w2) \<Rightarrow> if path_eq t' t then w2 else snd (remove_file (join run rel) w2)
                  | (Inl _, w2) \<Rightarrow> snd (remove_file (join run rel) w2))
             | (_, Dir) \<Rightarrow> snd (remove_dir_all (join run rel) w1)
             | (_, _) \<Rightarrow> snd (remove_file (join run rel) w1)))"
| "reconcile_each run rel depth rs [] w = w"
| "reconcile_each run rel depth rs (name # names) w =
     reconcile_each run rel depth rs names (reconcile run (join rel name) depth rs w)"
  by pat_completeness auto
termination
  by (relation "measures
        [\<lambda>x. case x of Inl (_, _, depth, _, _) \<Rightarrow> 5 - depth | Inr (_, _, depth, _, _, _) \<Rightarrow> 5 - depth,
         \<lambda>x. case x of Inl _ \<Rightarrow> 0 | Inr (_, _, _, _, names, _) \<Rightarrow> Suc (length names)]")
    (auto simp: RECORD_MAX_DEPTH_def)

function clear_records :: "path \<Rightarrow> path \<Rightarrow> nat \<Rightarrow> world \<Rightarrow> world"
  and clear_each :: "path \<Rightarrow> path \<Rightarrow> nat \<Rightarrow> bytes list \<Rightarrow> world \<Rightarrow> world" where
  "clear_records run rel depth w =
     (case lstat (join run rel) w of
        (Inl _, w1) \<Rightarrow> w1
      | (Inr n, w1) \<Rightarrow>
          if n = Dir
          then (if depth < RECORD_MAX_DEPTH
                then (case read_dir (join run rel) w1 of
                        (Inl _, w2) \<Rightarrow> w2
                      | (Inr names, w2) \<Rightarrow> clear_each run rel (depth + 1) names w2)
                else w1)
          else if n = Socket then w1
          else snd (remove_file (join run rel) w1))"
| "clear_each run rel depth [] w = w"
| "clear_each run rel depth (name # names) w =
     clear_each run rel depth names (clear_records run (join rel name) depth w)"
  by pat_completeness auto
termination
  by (relation "measures
        [\<lambda>x. case x of Inl (_, _, depth, _) \<Rightarrow> 5 - depth | Inr (_, _, depth, _, _) \<Rightarrow> 5 - depth,
         \<lambda>x. case x of Inl _ \<Rightarrow> 0 | Inr (_, _, _, names, _) \<Rightarrow> Suc (length names)]")
    (auto simp: RECORD_MAX_DEPTH_def)

declare collect.simps [simp del] reconcile.simps [simp del] clear_records.simps [simp del]

definition create_one :: "path \<Rightarrow> record_kind \<Rightarrow> world \<Rightarrow> io_error option \<times> world" where
  "create_one p kind w =
     (case kind of KDir \<Rightarrow> create_dir p w | KFile content \<Rightarrow> create_new p content w | KLink t \<Rightarrow> symlink t p w)"

fun create_missing :: "path \<Rightarrow> records \<Rightarrow> world \<Rightarrow> world" where
  "create_missing run [] w = w"
| "create_missing run ((rel, kind) # rs) w =
     (case lstat (join run rel) w of
        (Inr _, w1) \<Rightarrow> create_missing run rs w1
      | (Inl _, w1) \<Rightarrow> create_missing run rs (snd (create_one (join run rel) kind w1)))"

definition restore_records :: "path \<Rightarrow> bytes option \<Rightarrow> world \<Rightarrow> world" where
  "restore_records run saved w =
     (case Option.bind saved decode of
        None \<Rightarrow> foldl (\<lambda>w dir. clear_records run dir 0 w) w RECORD_DIRS
      | Some rs \<Rightarrow> create_missing run rs (foldl (\<lambda>w dir. reconcile run dir 0 rs w) w RECORD_DIRS))"

section \<open>Lemmas\<close>

subsection \<open>The format\<close>

lemma u32_len_less: "u32_len b < 4294967296"
  by (auto simp: u32_len_def)

lemma take_part_encode: "int (length b) < 2 ^ 32 \<Longrightarrow> take_part (encode_part b @ rest) = Some (b, rest)"
proof -
  assume "int (length b) < 2 ^ 32"
  then have n: "u32_len b = length b" by (simp add: u32_len_def)
  have "le4 (le4_bytes (length b) @ b @ rest) 0 = length b"
    using le4_le4_bytes [of "length b" "b @ rest"] u32_len_less [of b] n by simp
  then show ?thesis by (simp add: take_part_def encode_part_def n Let_def)
qed

lemma decode_kind_tag: "decode_kind (fst (kind_tag k)) (snd (kind_tag k)) = Some k"
  by (cases k) (simp_all add: decode_kind_def kind_tag_def)

lemma records_insert_last:
  "(\<And>q l. (q, l) \<in> set rs \<Longrightarrow> components q < components p) \<Longrightarrow> records_insert p k rs = rs @ [(p, k)]"
proof (induction rs)
  case (Cons r rs)
  obtain q l where r: "r = (q, l)" by fastforce
  with Cons.prems have "components q < components p" by auto
  with Cons r show ?case by (auto simp: path_eq_def dest: less_asym)
qed simp

text \<open>Records as the map holds them: one entry a path, in the order of paths.\<close>

definition records_ok :: "records \<Rightarrow> bool" where
  "records_ok rs \<longleftrightarrow> sorted_wrt (<) (map (components \<circ> fst) rs)"

lemma records_insert_keys: "components ` fst ` set (records_insert p k rs) = insert (components p) (components ` fst ` set rs)"
  by (induction p k rs rule: records_insert.induct) (auto simp: path_eq_def)

lemma records_insert_ok: "records_ok rs \<Longrightarrow> records_ok (records_insert p k rs)"
proof (induction p k rs rule: records_insert.induct)
  case (2 p k q l rs)
  have keys: "\<And>r. r \<in> set (records_insert p k rs) \<Longrightarrow> components (fst r) = components p \<or> (\<exists>s\<in>set rs. components (fst r) = components (fst s))"
    using records_insert_keys [of p k rs] by blast
  consider "path_eq p q" | "\<not> path_eq p q" "components p < components q" | "\<not> path_eq p q" "components q < components p"
    unfolding path_eq_def using neq_iff by blast
  then show ?case
  proof cases
    case 1
    with 2 show ?thesis by (simp add: records_ok_def path_eq_def)
  next
    case 2
    with \<open>records_ok ((q, l) # rs)\<close> show ?thesis by (auto simp: records_ok_def)
  next
    case 3
    then have "\<not> components p < components q" by (simp add: less_not_sym)
    with 2(1) 2(2) 3 have "records_ok (records_insert p k rs)" by (simp add: records_ok_def)
    moreover have "components q < components (fst r)" if "r \<in> set (records_insert p k rs)" for r
      using keys [OF that] 3(2) 2(2) by (auto simp: records_ok_def)
    ultimately show ?thesis using 3(1) \<open>\<not> components p < components q\<close> by (simp add: records_ok_def)
  qed
qed (simp add: records_ok_def)

lemma decode_loop_ok: "decode_loop rs b = Some rs' \<Longrightarrow> records_ok rs \<Longrightarrow> records_ok rs'"
  by (induction rs b rule: decode_loop.induct) (auto simp: records_insert_ok split: option.splits prod.splits if_splits)

lemma records_insert_paths:
  "is_record_path p \<Longrightarrow> list_all (is_record_path \<circ> fst) rs \<Longrightarrow> list_all (is_record_path \<circ> fst) (records_insert p k rs)"
  by (induction p k rs rule: records_insert.induct) auto

lemma decode_loop_paths:
  "decode_loop rs b = Some rs' \<Longrightarrow> list_all (is_record_path \<circ> fst) rs \<Longrightarrow> list_all (is_record_path \<circ> fst) rs'"
  by (induction rs b rule: decode_loop.induct)
    (auto simp: records_insert_paths split: option.splits prod.splits if_splits)

lemma decode_okD: "decode b = Some rs \<Longrightarrow> records_ok rs \<and> (\<forall>(p, _)\<in>set rs. is_record_path p)"
  using decode_loop_ok [of "[]" b rs] decode_loop_paths [of "[]" b rs] by (auto simp: decode_def records_ok_def list_all_iff)

lemma decode_loop_encode:
  assumes "records_ok (rs @ ts)"
    and "\<forall>(p, k)\<in>set ts. is_record_path p \<and> int (length p) < 2 ^ 32 \<and> int (length (snd (kind_tag k))) < 2 ^ 32"
  shows "decode_loop rs (encode ts) = Some (rs @ ts)"
  using assms
proof (induction ts arbitrary: rs)
  case Nil
  then show ?case by (simp add: encode_def)
next
  case (Cons t ts)
  obtain p k where t: "t = (p, k)" by fastforce
  have e: "encode (t # ts) = fst (kind_tag k) # encode_part p @ encode_part (snd (kind_tag k)) @ encode ts"
    by (simp add: encode_def t)
  have ins: "records_insert p k rs = rs @ [(p, k)]"
    by (rule records_insert_last) (use Cons.prems(1) t in \<open>auto simp: records_ok_def sorted_wrt_append\<close>)
  have "decode_loop (rs @ [(p, k)]) (encode ts) = Some ((rs @ [(p, k)]) @ ts)"
    by (rule Cons.IH) (use Cons.prems t in auto)
  then show ?case
    unfolding e using Cons.prems(2) t by (simp add: take_part_encode decode_kind_tag ins)
qed

subsection \<open>The way back on a host that refuses nothing\<close>

fun kind_fits :: "record_kind \<Rightarrow> node \<Rightarrow> bool" where
  "kind_fits KDir n \<longleftrightarrow> n = Dir"
| "kind_fits (KFile c) n \<longleftrightarrow> n = File c"
| "kind_fits (KLink t) n \<longleftrightarrow> (case n of Link u \<Rightarrow> path_eq u t | _ \<Rightarrow> False)"

lemma calm_same: "calm w \<Longrightarrow> same_tree w w' \<Longrightarrow> calm w'"
  using same_treeD by blast

lemma calm_removed:
  assumes "calm w" "node_at w p = Some n" "n \<noteq> Dir"
  shows "map_of (w_fs (snd (remove_file p w))) = (map_of (w_fs w))(key_of p := None)"
    and "touches {key_of p} w (snd (remove_file p w))"
proof -
  obtain r w' where r: "remove_file p w = (r, w')" by fastforce
  from calm_remove_file [OF assms(1) r assms(2,3)]
  show "map_of (w_fs (snd (remove_file p w))) = (map_of (w_fs w))(key_of p := None)"
    by (simp add: r drop_key_def delete_conv')
  show "touches {key_of p} w (snd (remove_file p w))" using remove_file_touches [OF r] r by simp
qed

lemma reconcile_calm_cases:
  assumes "calm w" "K = key_of (join run rel)"
  obtains
    (same) "same_tree w (reconcile run rel depth rs w)"
      "map_of (w_fs w) K \<in> {None, Some Socket} \<or> (\<exists>k n. map_of (w_fs w) K = Some n \<and> records_get rs rel = Some k
         \<and> kind_fits k n \<and> (n = Dir \<longrightarrow> \<not> depth < RECORD_MAX_DEPTH))"
  | (deep) w2 where "map_of (w_fs w) K = Some Dir" "records_get rs rel = Some KDir" "depth < RECORD_MAX_DEPTH" "same_tree w w2"
      "reconcile run rel depth rs w = reconcile_each run rel (depth + 1) rs (children_of (w_fs w) K) w2"
  | (content) c d where "records_get rs rel = Some (KFile c)" "map_of (w_fs w) K = Some (File d)"
      "map_of (w_fs (reconcile run rel depth rs w)) = (map_of (w_fs w))(K := Some (File c))" "touches {K} w (reconcile run rel depth rs w)"
  | (gone) n where "map_of (w_fs w) K = Some n" "n \<noteq> Dir"
      "map_of (w_fs (reconcile run rel depth rs w)) = (map_of (w_fs w))(K := None)" "touches {K} w (reconcile run rel depth rs w)"
  | (tree) "map_of (w_fs w) K = Some Dir"
      "\<And>k. map_of (w_fs (reconcile run rel depth rs w)) k = (if prefix K k then None else map_of (w_fs w) k)"
      "touches {k. prefix K k} w (reconcile run rel depth rs w)"
proof -
  let ?p = "join run rel" and ?v = "reconcile run rel depth rs w"
  obtain x w1 where x: "lstat ?p w = (x, w1)" by fastforce
  note xv = calm_lstat [OF assms(1) x]
  have s1: "same_tree w w1" using same_tree_reads(1) [OF x] .
  then have c1: "calm w1" and f1: "w_fs w1 = w_fs w" using same_treeD assms(1) by blast+
  have n1: "node_at w1 q = node_at w q" for q by (simp add: node_at_def f1)
  have t1: "touches M w w1" for M using s1 touches_mono by (auto simp: same_tree_def)
  note unfold = reconcile.simps [of run rel depth rs w] x xv
  have K: "node_at w ?p = map_of (w_fs w) K" by (simp add: node_at_def assms(2))
  show thesis
  proof (cases "map_of (w_fs w) K")
    case None
    then have "?v = w1" using unfold K by simp
    with s1 None same show thesis by simp
  next
    case (Some n)
    have nx: "x = Inr n" using xv K Some by simp
    have rm: "?v = snd (remove_file ?p w1) \<Longrightarrow> n \<noteq> Dir \<Longrightarrow> thesis"
      using gone [OF Some] calm_removed [OF c1, of ?p n] touches_trans [OF t1] n1 K Some f1 assms(2) by simp
    show thesis
    proof (cases n)
      case n: Socket
      then have "?v = w1" using unfold(1,2) nx by simp
      with s1 Some n same show thesis by simp
    next
      case n: Dir
      have tr: "?v = snd (remove_dir_all ?p w1) \<Longrightarrow> thesis"
      proof -
        assume v: "?v = snd (remove_dir_all ?p w1)"
        obtain r w2 where r: "remove_dir_all ?p w1 = (r, w2)" by fastforce
        from calm_remove_dir_all [OF c1 r] n1 K Some n have w2: "w2 = drop_tree ?p (w1\<lparr>w_log := OpRemoveDirAll ?p # w_log w1\<rparr>)" by simp
        have "map_of (w_fs ?v) k = (if prefix K k then None else map_of (w_fs w) k)" for k
          by (simp add: v r w2 drop_tree_def map_of_filter_fst assms(2) f1)
        moreover have "touches {k. prefix K k} w ?v"
          using touches_trans [OF t1 remove_dir_all_touches [OF r, folded assms(2)]] v r by simp
        ultimately show thesis using tree Some n by simp
      qed
      show thesis
      proof (cases "records_get rs rel = Some KDir")
        case True
        obtain y w2 where y: "read_dir ?p w1 = (y, w2)" by fastforce
        have yd: "y = Inr (children_of (w_fs w) K)" using calm_read_dir [OF c1 y] n1 K Some n f1 assms(2) by simp
        have s2: "same_tree w w2" using same_tree_trans [OF s1 same_tree_reads(2) [OF y]] .
        show thesis
        proof (cases "depth < RECORD_MAX_DEPTH")
          case d: True
          have "?v = reconcile_each run rel (depth + 1) rs (children_of (w_fs w) K) w2"
            using unfold(1,2) nx n True y yd d by simp
          then show thesis using deep Some n True d s2 by blast
        next
          case d: False
          have "?v = w1" using unfold(1,2) nx n True d by simp
          then show thesis using same Some n True d s1 by simp
        qed
      next
        case False
        then have "?v = snd (remove_dir_all ?p w1)"
          using unfold(1,2) nx n by (cases "records_get rs rel") (simp_all split: record_kind.splits)
        then show thesis by (rule tr)
      qed
    next
      case n: (File d)
      show thesis
      proof (cases "\<exists>c. records_get rs rel = Some (KFile c)")
        case True
        then obtain c where c: "records_get rs rel = Some (KFile c)" ..
        obtain y w2 where y: "read_file ?p w1 = (y, w2)" by fastforce
        have y2: "y = Inr d" "same_tree w1 w2"
          using calm_read_file [OF c1 _ y] n1 K Some n same_tree_reads(3) [OF y] by auto
        have s2: "same_tree w w2" using same_tree_trans [OF s1 y2(2)] .
        have v: "?v = (if d = c then w2 else snd (rewrite_file False ?p c w2))"
          using unfold(1,2) nx n c y y2 by simp
        show thesis
        proof (cases "d = c")
          case True
          with v s2 same Some n c show thesis by simp
        next
          case False
          have f2: "w_fs w2 = w_fs w" "calm w2" using s2 same_treeD assms(1) by blast+
          obtain r w3 where r: "rewrite_file False ?p c w2 = (r, w3)" by fastforce
          have "w3 = put ?p (File c) (w2\<lparr>w_log := OpRewrite ?p c # w_log w2\<rparr>)"
            using r f2 Some n assms(2) by (simp add: rewrite_file_def calm_attempt node_at_def)
          then have "map_of (w_fs ?v) = (map_of (w_fs w))(K := Some (File c))"
            using v False r f2 by (simp add: put_def update_conv' assms(2))
          moreover have "touches {K} w w2" using s2 touches_mono by (auto simp: same_tree_def)
          then have "touches {K} w ?v"
            using rewrite_file_touches [OF r, folded assms(2)] v False r touches_trans by simp
          ultimately show thesis using content c Some n by blast
        qed
      next
        case False
        then have "?v = snd (remove_file ?p w1)"
          using unfold(1,2) nx n by (cases "records_get rs rel") (auto split: record_kind.splits)
        then show thesis using rm n by simp
      qed
    next
      case n: (Link u)
      show thesis
      proof (cases "\<exists>t. records_get rs rel = Some (KLink t)")
        case True
        then obtain t where c: "records_get rs rel = Some (KLink t)" ..
        obtain y w2 where y: "read_link ?p w1 = (y, w2)" by fastforce
        have y2: "y = Inr u" using y c1 n1 K Some n by (auto simp: read_link_def calm_attempt)
        have s2: "same_tree w w2" "calm w2"
          using read_link_touches [OF y, of "{}"] same_tree_trans [OF s1] calm_same [OF assms(1)] by (auto simp: same_tree_def)
        have v: "?v = (if path_eq u t then w2 else snd (remove_file ?p w2))"
          using unfold(1,2) nx n c y y2 by simp
        have f2: "w_fs w2 = w_fs w" "touches {K} w w2" using s2 touches_mono by (auto simp: same_tree_def)
        show thesis
        proof (cases "path_eq u t")
          case True
          with v s2 same Some n c show thesis by simp
        next
          case False
          with v have "?v = snd (remove_file ?p w2)" by simp
          moreover have "node_at w2 ?p = Some n" using Some f2 assms(2) by (simp add: node_at_def)
          ultimately show thesis
            using gone [OF Some] calm_removed [OF s2(2), of ?p n] touches_trans [OF f2(2)] n f2(1) assms(2) by simp
        qed
      next
        case False
        then have "?v = snd (remove_file ?p w1)"
          using unfold(1,2) nx n by (cases "records_get rs rel") (auto split: record_kind.splits)
        then show thesis using rm n by simp
      qed
    qed
  qed
qed

text \<open>What fits the records at one path below the root, and the ways down through directories.\<close>

definition fits_at :: "records \<Rightarrow> tree \<Rightarrow> key \<Rightarrow> bytes list \<Rightarrow> bool" where
  "fits_at rs fs root ns \<longleftrightarrow>
     (case map_of fs (root @ map Normal ns) of
        None \<Rightarrow> True
      | Some n \<Rightarrow> n = Socket \<or> (\<exists>k. records_get rs (rel_of ns) = Some k \<and> kind_fits k n))"

definition dirs_down :: "tree \<Rightarrow> key \<Rightarrow> bytes list \<Rightarrow> bool" where
  "dirs_down fs k ms \<longleftrightarrow> (\<forall>i<length ms. map_of fs (k @ map Normal (take i ms)) = Some Dir)"

lemma dirs_down_Cons:
  "dirs_down fs k (m # ms) \<longleftrightarrow> map_of fs k = Some Dir \<and> dirs_down fs (k @ [Normal m]) ms"
  by (auto simp: dirs_down_def All_less_Suc2)

text \<open>No file under another file, and nothing whose directory is missing.\<close>

definition tree_closed :: "tree \<Rightarrow> bool" where
  "tree_closed fs \<longleftrightarrow> (\<forall>k c v. map_of fs (k @ [c]) = Some v \<longrightarrow> k \<noteq> [] \<longrightarrow> map_of fs k = Some Dir)"

text \<open>A change that adds nothing: a node goes, stays, or is a file with other content.\<close>

definition thins :: "world \<Rightarrow> world \<Rightarrow> bool" where
  "thins w w' \<longleftrightarrow> (\<forall>k v. map_of (w_fs w') k = Some v \<longrightarrow>
      map_of (w_fs w) k = Some v \<or> (\<exists>c d. v = File c \<and> map_of (w_fs w) k = Some (File d)))
    \<and> (tree_closed (w_fs w) \<longrightarrow> tree_closed (w_fs w')) \<and> (tree_ok (w_fs w) \<longrightarrow> tree_ok (w_fs w')) \<and> (calm w \<longrightarrow> calm w')"

lemma thins_refl [simp]: "thins w w"
  by (simp add: thins_def)

lemma thins_trans [trans]: "thins w w1 \<Longrightarrow> thins w1 w2 \<Longrightarrow> thins w w2"
  by (fastforce simp: thins_def)

lemma same_tree_thins: "same_tree w w' \<Longrightarrow> thins w w'"
  by (simp add: thins_def same_treeD)

lemma tree_ok_dom: "tree_ok fs \<longleftrightarrow> (\<forall>k\<in>dom (map_of fs). \<forall>n. Normal n \<in> set k \<longrightarrow> name_ok n)"
  by (auto simp: tree_ok_def dom_map_of_conv_image_fst)

lemma thinsI:
  assumes "touches M w w'"
    and "\<And>k v. map_of (w_fs w') k = Some v \<Longrightarrow>
      map_of (w_fs w) k = Some v \<or> (\<exists>c d. v = File c \<and> map_of (w_fs w) k = Some (File d))"
    and "tree_closed (w_fs w) \<Longrightarrow> tree_closed (w_fs w')"
  shows "thins w w'"
proof -
  have "dom (map_of (w_fs w')) \<subseteq> dom (map_of (w_fs w))" using assms(2) by blast
  then have "tree_ok (w_fs w) \<Longrightarrow> tree_ok (w_fs w')" unfolding tree_ok_dom by blast
  with assms calm_touches show ?thesis by (simp add: thins_def)
qed

lemma tree_closedD: "tree_closed fs \<Longrightarrow> map_of fs k \<noteq> Some Dir \<Longrightarrow> k \<noteq> [] \<Longrightarrow> map_of fs (k @ [c]) = None"
  by (cases "map_of fs (k @ [c])") (auto simp: tree_closed_def)

lemma tree_closed_upd:
  "tree_closed fs \<Longrightarrow> map_of fs k \<noteq> Some Dir \<Longrightarrow> k \<noteq> [] \<Longrightarrow> map_of fs' = (map_of fs)(k := v) \<Longrightarrow>
     v = None \<or> map_of fs k \<noteq> None \<Longrightarrow> tree_closed fs'"
  using tree_closedD [of fs k] by (fastforce simp: tree_closed_def split: if_splits)

lemma thins_content:
  assumes "touches M w w'" "map_of (w_fs w') = (map_of (w_fs w))(K := Some (File c))" "map_of (w_fs w) K = Some (File d)" "K \<noteq> []"
  shows "thins w w'"
proof (rule thinsI [OF assms(1)])
  show "tree_closed (w_fs w) \<Longrightarrow> tree_closed (w_fs w')" by (rule tree_closed_upd [OF _ _ assms(4,2)]) (use assms(3) in simp_all)
qed (use assms(2,3) in \<open>auto split: if_splits\<close>)

lemma thins_gone:
  assumes "touches M w w'" "map_of (w_fs w') = (map_of (w_fs w))(K := None)" "map_of (w_fs w) K \<noteq> Some Dir" "K \<noteq> []"
  shows "thins w w'"
proof (rule thinsI [OF assms(1)])
  show "tree_closed (w_fs w) \<Longrightarrow> tree_closed (w_fs w')" by (rule tree_closed_upd [OF _ assms(3,4,2)]) simp_all
qed (use assms(2) in \<open>simp split: if_splits\<close>)

lemma thins_tree:
  assumes "touches M w w'" "\<And>k. map_of (w_fs w') k = (if prefix K k then None else map_of (w_fs w) k)"
  shows "thins w w'"
  by (rule thinsI [OF assms(1)]) (use assms(2) in \<open>auto simp: tree_closed_def split: if_splits dest: prefix_prefix\<close>)

lemma thinsD: "thins w w' \<Longrightarrow> map_of (w_fs w') k = Some Dir \<Longrightarrow> map_of (w_fs w) k = Some Dir"
  "thins w w' \<Longrightarrow> map_of (w_fs w) k = None \<Longrightarrow> map_of (w_fs w') k = None"
proof -
  assume t: "thins w w'"
  then have v: "map_of (w_fs w') k = Some v \<Longrightarrow>
      map_of (w_fs w) k = Some v \<or> (\<exists>c d. v = File c \<and> map_of (w_fs w) k = Some (File d))" for v
    by (simp add: thins_def)
  show "map_of (w_fs w') k = Some Dir \<Longrightarrow> map_of (w_fs w) k = Some Dir" using v [of Dir] by auto
  show "map_of (w_fs w) k = None \<Longrightarrow> map_of (w_fs w') k = None" using v by (cases "map_of (w_fs w') k") auto
qed

abbreviation sub_keys :: "key \<Rightarrow> bytes list \<Rightarrow> key set" where
  "sub_keys root ns \<equiv> {k. prefix (root @ map Normal ns) k}"

definition settled :: "records \<Rightarrow> world \<Rightarrow> key \<Rightarrow> nat \<Rightarrow> bytes list \<Rightarrow> bool" where
  "settled rs w root depth ns \<longleftrightarrow> (\<forall>ms. length ms + depth \<le> RECORD_MAX_DEPTH \<longrightarrow>
      dirs_down (w_fs w) (root @ map Normal ns) ms \<longrightarrow> fits_at rs (w_fs w) root (ns @ ms))"

lemma settledI:
  assumes "fits_at rs (w_fs w) root ns"
    and "\<And>m ms. length ms + depth < RECORD_MAX_DEPTH \<Longrightarrow> map_of (w_fs w) (root @ map Normal ns) = Some Dir \<Longrightarrow>
      dirs_down (w_fs w) (root @ map Normal (ns @ [m])) ms \<Longrightarrow> fits_at rs (w_fs w) root (ns @ m # ms)"
  shows "settled rs w root depth ns"
  unfolding settled_def
proof (intro allI impI)
  fix ms assume "length ms + depth \<le> RECORD_MAX_DEPTH" "dirs_down (w_fs w) (root @ map Normal ns) ms"
  then show "fits_at rs (w_fs w) root (ns @ ms)"
    using assms by (cases ms) (auto simp: dirs_down_Cons)
qed

lemma settled_frame:
  assumes "settled rs w root depth ns" "\<And>k. prefix (root @ map Normal ns) k \<Longrightarrow> map_of (w_fs w') k = map_of (w_fs w) k"
  shows "settled rs w' root depth ns"
proof -
  have "map_of (w_fs w') (root @ map Normal (ns @ ms)) = map_of (w_fs w) (root @ map Normal (ns @ ms))" for ms
    by (rule assms(2)) simp
  from this this [of "take i ms" for i ms] assms(1) show ?thesis
    by (simp add: settled_def fits_at_def dirs_down_def)
qed

text \<open>What one call of the reconcile step does at a depth, whatever it is called on.\<close>

definition reconciles :: "path \<Rightarrow> records \<Rightarrow> nat \<Rightarrow> bool" where
  "reconciles run rs depth \<longleftrightarrow> (\<forall>w ns. calm w \<longrightarrow> tree_ok (w_fs w) \<longrightarrow> (\<forall>n\<in>set ns. name_ok n) \<longrightarrow>
     touches (sub_keys (key_of run) ns) w (reconcile run (rel_of ns) depth rs w)
     \<and> thins w (reconcile run (rel_of ns) depth rs w)
     \<and> settled rs (reconcile run (rel_of ns) depth rs w) (key_of run) depth ns)"

lemma sub_keys_apart: "n \<noteq> m \<Longrightarrow> prefix (root @ map Normal (ns @ [n])) k \<Longrightarrow> \<not> prefix (root @ map Normal (ns @ [m])) k"
  by (auto simp: prefix_def)

lemma reconcile_each_settles:
  assumes "reconciles run rs depth" "calm w" "tree_ok (w_fs w)" "\<forall>n\<in>set (ns @ names). name_ok n"
  shows "touches (\<Union>n\<in>set names. sub_keys (key_of run) (ns @ [n])) w (reconcile_each run (rel_of ns) depth rs names w)
     \<and> thins w (reconcile_each run (rel_of ns) depth rs names w)
     \<and> (\<forall>n\<in>set names. settled rs (reconcile_each run (rel_of ns) depth rs names w) (key_of run) depth (ns @ [n]))"
  using assms(2-4)
proof (induction names arbitrary: w)
  case (Cons name names)
  let ?w1 = "reconcile run (rel_of (ns @ [name])) depth rs w"
  let ?w2 = "reconcile_each run (rel_of ns) depth rs names ?w1"
  have j: "join (rel_of ns) name = rel_of (ns @ [name])" using rel_of_snoc Cons.prems(3) by simp
  have nn: "\<forall>n\<in>set (ns @ [name]). name_ok n" using Cons.prems(3) by simp
  have one: "touches (sub_keys (key_of run) (ns @ [name])) w ?w1" "thins w ?w1" "settled rs ?w1 (key_of run) depth (ns @ [name])"
    using assms(1) Cons.prems(1,2) nn unfolding reconciles_def by blast+
  then have "calm ?w1" "tree_ok (w_fs ?w1)" using Cons.prems by (auto simp: thins_def)
  with Cons.IH [of ?w1] Cons.prems(3)
  have rest: "touches (\<Union>n\<in>set names. sub_keys (key_of run) (ns @ [n])) ?w1 ?w2" "thins ?w1 ?w2"
    "\<forall>n\<in>set names. settled rs ?w2 (key_of run) depth (ns @ [n])" by auto
  have "settled rs ?w2 (key_of run) depth (ns @ [name])"
  proof (cases "name \<in> set names")
    case False
    show ?thesis
    proof (rule settled_frame [OF one(3)])
      fix k assume "prefix (key_of run @ map Normal (ns @ [name])) k"
      then have "k \<notin> (\<Union>n\<in>set names. sub_keys (key_of run) (ns @ [n]))"
        using False sub_keys_apart [of name _ "key_of run" ns k] by fastforce
      then show "map_of (w_fs ?w2) k = map_of (w_fs ?w1) k" using rest(1) by (simp add: touches_def)
    qed
  qed (use rest in blast)
  moreover have "touches (\<Union>n\<in>set (name # names). sub_keys (key_of run) (ns @ [n])) w ?w2"
    by (rule touches_trans [OF touches_mono [OF one(1)] touches_mono [OF rest(1)]]) auto
  ultimately show ?case using thins_trans [OF one(2) rest(2)] rest(3) by (simp add: j)
qed simp

lemma reconcile_step:
  assumes "is_absolute run" "depth < RECORD_MAX_DEPTH \<Longrightarrow> reconciles run rs (depth + 1)"
  shows "reconciles run rs depth"
  unfolding reconciles_def
proof (intro allI impI)
  fix w ns assume w: "calm w" "tree_ok (w_fs w)" "\<forall>n\<in>set ns. name_ok n"
  let ?K = "key_of run @ map Normal ns" and ?v = "reconcile run (rel_of ns) depth rs w"
  have K: "?K = key_of (join run (rel_of ns))" "?K \<noteq> []"
    using key_join_rel [OF assms(1) w(3)] components_absolute [OF assms(1)] by auto
  from w(1) K(1)
  show "touches (sub_keys (key_of run) ns) w ?v \<and> thins w ?v \<and> settled rs ?v (key_of run) depth ns"
  proof (cases rule: reconcile_calm_cases [where depth = depth and rs = rs])
    case same
    have f: "w_fs ?v = w_fs w" using same(1) same_treeD by blast
    have "touches (sub_keys (key_of run) ns) w ?v" using same(1) touches_mono by (auto simp: same_tree_def)
    moreover have "settled rs ?v (key_of run) depth ns"
      by (rule settledI) (use same(2) in \<open>auto simp: f fits_at_def\<close>)
    ultimately show ?thesis using same_tree_thins same(1) by blast
  next
    case (deep w2)
    let ?names = "children_of (w_fs w) ?K"
    have w2: "calm w2" "tree_ok (w_fs w2)" "w_fs w2 = w_fs w" using deep(4) same_treeD w by auto
    have nm: "\<forall>n\<in>set (ns @ ?names). name_ok n" using w(3) children_of_ok [OF w(2)] by auto
    from reconcile_each_settles [OF assms(2) [OF deep(3)] w2(1,2) nm]
    have each: "touches (\<Union>n\<in>set ?names. sub_keys (key_of run) (ns @ [n])) w2 ?v" "thins w2 ?v"
      "\<forall>n\<in>set ?names. settled rs ?v (key_of run) (depth + 1) (ns @ [n])"
      by (simp_all add: deep(5))
    have th: "thins w ?v" using same_tree_thins [OF deep(4)] each(2) thins_trans by blast
    have "touches (sub_keys (key_of run) ns) w w2" using deep(4) touches_mono by (auto simp: same_tree_def)
    moreover have "touches (sub_keys (key_of run) ns) w2 ?v" by (rule touches_mono [OF each(1)]) (auto simp: prefix_def)
    ultimately have "touches (sub_keys (key_of run) ns) w ?v" by (rule touches_trans)
    moreover have "settled rs ?v (key_of run) depth ns"
    proof (rule settledI)
      have "?K \<notin> (\<Union>n\<in>set ?names. sub_keys (key_of run) (ns @ [n]))" by (auto simp: prefix_def)
      then have "map_of (w_fs ?v) ?K = Some Dir" using each(1) deep(1) w2(3) by (simp add: touches_def)
      then show "fits_at rs (w_fs ?v) (key_of run) ns" using deep(2) by (simp add: fits_at_def)
    next
      fix m ms assume a: "length ms + depth < RECORD_MAX_DEPTH" "dirs_down (w_fs ?v) (key_of run @ map Normal (ns @ [m])) ms"
      show "fits_at rs (w_fs ?v) (key_of run) (ns @ m # ms)"
      proof (cases "m \<in> set ?names")
        case True
        with each(3) a show ?thesis by (auto simp: settled_def)
      next
        case False
        then have "map_of (w_fs w) (?K @ [Normal m]) = None" using children_of_mem by (metis not_None_eq)
        then have none: "map_of (w_fs ?v) (?K @ [Normal m]) = None" using thinsD(2) [OF th] by blast
        with a(2) show ?thesis by (cases ms) (auto simp: fits_at_def dirs_down_Cons)
      qed
    qed
    ultimately show ?thesis using th by blast
  next
    case (content c d)
    have "settled rs ?v (key_of run) depth ns"
      by (rule settledI) (use content in \<open>auto simp: fits_at_def\<close>)
    with content thins_content [OF content(4,3,2) K(2)] touches_mono [OF content(4)] show ?thesis by simp
  next
    case (gone n)
    have "settled rs ?v (key_of run) depth ns" by (rule settledI) (use gone in \<open>auto simp: fits_at_def\<close>)
    with gone thins_gone [OF gone(4,3) _ K(2)] touches_mono [OF gone(4)] show ?thesis by simp
  next
    case tree
    have "settled rs ?v (key_of run) depth ns" by (rule settledI) (use tree(2) in \<open>auto simp: fits_at_def\<close>)
    with tree thins_tree [OF tree(3,2)] show ?thesis by simp
  qed
qed

lemma reconcile_settles: "is_absolute run \<Longrightarrow> reconciles run rs depth"
proof (induction "RECORD_MAX_DEPTH - depth" arbitrary: depth)
  case 0
  then show ?case using reconcile_step by simp
next
  case (Suc d)
  then have "reconciles run rs (depth + 1)" by simp
  then show ?case using reconcile_step Suc.prems by simp
qed

subsection \<open>What is missing\<close>

definition made_node :: "record_kind \<Rightarrow> node" where
  "made_node k = (case k of KDir \<Rightarrow> Dir | KFile c \<Rightarrow> File c | KLink t \<Rightarrow> Link t)"

lemma made_node_fits [simp]: "kind_fits k (made_node k)"
  by (cases k) (simp_all add: made_node_def)

lemma create_one_calm:
  assumes "calm w" "node_at w p = None"
  shows "parent_is_dir w p \<and> map_of (w_fs (snd (create_one p k w))) = (map_of (w_fs w))(key_of p := Some (made_node k))
       \<or> \<not> parent_is_dir w p \<and> w_fs (snd (create_one p k w)) = w_fs w"
    and "touches {key_of p} w (snd (create_one p k w))"
proof -
  have par: "parent_is_dir (w\<lparr>w_log := l\<rparr>) p = parent_is_dir w p" for l by (simp add: parent_is_dir_def)
  show "parent_is_dir w p \<and> map_of (w_fs (snd (create_one p k w))) = (map_of (w_fs w))(key_of p := Some (made_node k))
       \<or> \<not> parent_is_dir w p \<and> w_fs (snd (create_one p k w)) = w_fs w"
    using assms par
    by (cases k) (auto simp: create_one_def create_dir_def create_new_def symlink_def calm_attempt put_def update_conv' made_node_def)
  show "touches {key_of p} w (snd (create_one p k w))"
    using create_dir_touches create_new_touches symlink_touches
    by (cases k) (simp_all add: create_one_def, (metis prod.collapse)+)
qed

text \<open>A change that only adds what the records hold.\<close>

definition fills :: "path \<Rightarrow> records \<Rightarrow> world \<Rightarrow> world \<Rightarrow> bool" where
  "fills run rs w w' \<longleftrightarrow> calm w' \<and> (\<forall>key. map_of (w_fs w') key = map_of (w_fs w) key
      \<or> map_of (w_fs w) key = None \<and> (\<exists>rel k n. (rel, k) \<in> set rs \<and> key = key_of (join run rel)
          \<and> map_of (w_fs w') key = Some n \<and> kind_fits k n))"

lemma fills_trans: "fills run rs w w1 \<Longrightarrow> fills run rs w1 w2 \<Longrightarrow> fills run rs w w2"
  unfolding fills_def by metis

lemma fills_mono: "fills run rs w w' \<Longrightarrow> set rs \<subseteq> set rs' \<Longrightarrow> fills run rs' w w'"
  unfolding fills_def by blast

lemma fills_keep: "fills run rs w w' \<Longrightarrow> map_of (w_fs w) key = Some n \<Longrightarrow> map_of (w_fs w') key = Some n"
  unfolding fills_def by (metis option.distinct(1))

text \<open>One record: afterwards it is there, unless its directory is missing.\<close>

lemma create_missing_step:
  assumes "calm w"
  obtains w1 where "create_missing run ((rel, k) # rs) w = create_missing run rs w1" "fills run [(rel, k)] w w1"
    "node_at w1 (join run rel) \<noteq> None \<or> \<not> parent_is_dir w (join run rel)"
proof -
  obtain x v where x: "lstat (join run rel) w = (x, v)" by fastforce
  note xv = calm_lstat [OF assms x]
  have sv: "same_tree w v" using same_tree_reads(1) [OF x] .
  then have v: "calm v" "w_fs v = w_fs w" using same_treeD assms by blast+
  show thesis
  proof (cases "node_at w (join run rel)")
    case (Some n)
    with xv x have "create_missing run ((rel, k) # rs) w = create_missing run rs v" by simp
    moreover have "fills run [(rel, k)] w v" using v by (simp add: fills_def)
    moreover have "node_at v (join run rel) \<noteq> None" using Some v by (simp add: node_at_def)
    ultimately show thesis using that by blast
  next
    case None
    let ?u = "snd (create_one (join run rel) k v)"
    have n: "node_at v (join run rel) = None" using None v by (simp add: node_at_def)
    have e: "create_missing run ((rel, k) # rs) w = create_missing run rs ?u" using None xv x by (simp)
    have p: "parent_is_dir v (join run rel) = parent_is_dir w (join run rel)" by (simp add: parent_is_dir_def v)
    note o = create_one_calm(1) [OF v(1) n, of k]
    have cu: "calm ?u" using calm_touches [OF v(1) create_one_calm(2) [OF v(1) n]] .
    have "fills run [(rel, k)] w ?u"
      using o cu n v(2) made_node_fits [of k] by (auto simp: fills_def node_at_def split: if_splits)
    moreover have "node_at ?u (join run rel) \<noteq> None \<or> \<not> parent_is_dir w (join run rel)"
      using o p by (auto simp: node_at_def)
    ultimately show thesis using that e by blast
  qed
qed

lemma create_missing_fills: "calm w \<Longrightarrow> fills run rs w (create_missing run rs w)"
proof (induction rs arbitrary: w)
  case Nil
  then show ?case by (simp add: fills_def)
next
  case (Cons r rs)
  obtain rel k where r: "r = (rel, k)" by fastforce
  obtain w1 where w1: "create_missing run (r # rs) w = create_missing run rs w1" "fills run [r] w w1"
    using create_missing_step [OF Cons.prems] r by metis
  have "fills run (r # rs) w w1" by (rule fills_mono [OF w1(2)]) simp
  moreover have "fills run (r # rs) w1 (create_missing run rs w1)"
    by (rule fills_mono [OF Cons.IH]) (use w1(2) in \<open>auto simp: fills_def\<close>)
  ultimately show ?case unfolding w1(1) by (rule fills_trans)
qed

subsection \<open>Paths of records\<close>

lemma record_path_names:
  assumes "is_record_path p"
  obtains d ns where "d \<in> set RECORD_DIRS" "components p = map Normal (d # ns)" "\<not> is_absolute p"
proof -
  obtain first cs where c: "components p = Normal first # cs" "first \<in> set RECORD_DIRS" "\<forall>c\<in>set cs. is_normal c"
    using assms by (auto simp: is_record_path_def split: list.splits component.splits)
  have "\<exists>ns. cs = map Normal ns"
    using c(3) by (induction cs) (auto simp: is_normal_def split: component.splits intro: exI [of _ "_ # _"])
  then obtain ns where "cs = map Normal ns" ..
  moreover have "\<not> is_absolute p" using c(1) components_absolute by force
  ultimately show thesis using that c by simp
qed

lemma record_path_key:
  assumes "is_absolute run" "is_record_path p"
  shows "key_of (join run p) = key_of run @ components p"
proof -
  obtain d ns where p: "components p = map Normal (d # ns)" "\<not> is_absolute p" by (rule record_path_names [OF assms(2)])
  then have "components p = filter_map component_of (split_on slash p)"
    by (auto simp: components_def split: if_splits)
  then show ?thesis using components_join [OF assms(1) p(2)] by simp
qed

lemma components_rel_of: "ns \<noteq> [] \<Longrightarrow> \<forall>n\<in>set ns. name_ok n \<Longrightarrow> components (rel_of ns) = map Normal ns"
proof -
  assume ns: "ns \<noteq> []" "\<forall>n\<in>set ns. name_ok n"
  then have "split_on slash (rel_of ns) = ns" by (intro split_on_join) (auto simp: name_ok_def)
  moreover have "hd ns \<noteq> ''.''" using ns by (cases ns) (auto simp: name_ok_def component_of_def)
  ultimately show ?thesis
    using rel_of_components [OF ns(2)] rel_of_not_absolute [OF ns(2)] by (simp add: components_def)
qed

lemma records_get_in: "records_ok rs \<Longrightarrow> (p, k) \<in> set rs \<Longrightarrow> path_eq p q \<Longrightarrow> records_get rs q = Some k"
proof (induction rs)
  case (Cons r rs)
  obtain p' k' where r: "r = (p', k')" by fastforce
  show ?case
  proof (cases "(p, k) = r")
    case False
    with Cons.prems r have "components p' < components p" "(p, k) \<in> set rs" by (auto simp: records_ok_def)
    then have "\<not> path_eq p' q" using Cons.prems(3) by (auto simp: path_eq_def)
    then show ?thesis using Cons r \<open>(p, k) \<in> set rs\<close> by (simp add: records_get_def records_ok_def)
  qed (use Cons.prems r in \<open>simp add: records_get_def\<close>)
qed simp

lemma closed_dirs_down:
  "tree_closed fs \<Longrightarrow> k \<noteq> [] \<Longrightarrow> map_of fs (k @ map Normal ms) = Some v \<Longrightarrow> dirs_down fs k ms"
proof (induction ms arbitrary: v rule: rev_induct)
  case (snoc m ms)
  have "map_of fs ((k @ map Normal ms) @ [Normal m]) = Some v" using snoc.prems(3) by simp
  then have "map_of fs (k @ map Normal ms) = Some Dir" using snoc.prems(1,2) unfolding tree_closed_def by blast
  moreover from snoc.IH [OF snoc.prems(1,2) this] have "dirs_down fs k ms" .
  ultimately show ?case by (auto simp: dirs_down_def less_Suc_eq)
qed (simp add: dirs_down_def)

section \<open>Properties\<close>

text \<open>C37: the copy of the records is read back from the file it is written to, whatever bytes its paths,
  contents and link targets hold, as long as none is of 4 GiB or more.\<close>

theorem records_roundtrip:
  assumes "records_ok rs"
    and "\<forall>(p, k)\<in>set rs. is_record_path p \<and> int (length p) < 2 ^ 32 \<and> int (length (snd (kind_tag k))) < 2 ^ 32"
  shows "decode (encode rs) = Some rs"
  using decode_loop_encode [of "[]" rs] assms by (simp add: decode_def)

definition sample_records :: records where
  "sample_records = [(''resolvconf'', KDir), (''resolvconf/a'', KFile [newline]), (''resolvconf/l'', KLink ''x'')]"

lemma sample_records_paths:
  "\<forall>(p, k)\<in>set sample_records. is_record_path p \<and> int (length p) < 2 ^ 32 \<and> int (length (snd (kind_tag k))) < 2 ^ 32"
proof -
  have "is_record_path ''resolvconf''" "is_record_path ''resolvconf/a''" "is_record_path ''resolvconf/l''" by code_simp+
  then show ?thesis by (simp add: sample_records_def kind_tag_def)
qed

theorem records_roundtrip_witness: "decode (encode sample_records) = Some sample_records"
proof (rule records_roundtrip)
  show "records_ok sample_records" by code_simp
qed (rule sample_records_paths)

text \<open>C25: after the way back nothing of the hidden session is left among the records.  On a host that
  refuses nothing, whatever there is below a record directory, as deep as the copy reaches, is a special
  file or an entry of the copy with the kind, content or target it has there.\<close>

theorem restore_leaves_only_records:
  assumes "calm w" "tree_ok (w_fs w)" "tree_closed (w_fs w)" "is_absolute run" "decode saved = Some rs"
    and "length ms \<le> RECORD_MAX_DEPTH" "\<forall>m\<in>set ms. name_ok m"
    and "node_at (restore_records run (Some saved) w) (join run (rel_of (''resolvconf'' # ms))) = Some n"
  shows "n = Socket \<or> (\<exists>k. records_get rs (rel_of (''resolvconf'' # ms)) = Some k \<and> kind_fits k n)"
proof -
  let ?ns = "''resolvconf'' # ms" and ?w1 = "reconcile run ''resolvconf'' 0 rs w"
  let ?K = "key_of run @ map Normal ?ns"
  have rc: "\<forall>n\<in>set [''resolvconf'']. name_ok n" by (simp add: name_ok_def component_of_def)
  have nm: "\<forall>n\<in>set ?ns. name_ok n" using rc assms(7) by simp
  have r1: "thins w ?w1" "settled rs ?w1 (key_of run) 0 [''resolvconf'']"
    using reconcile_settles [OF assms(4), of rs 0] assms(1,2) rc unfolding reconciles_def
    by (metis join_with.simps(2))+
  have c1: "calm ?w1" "tree_closed (w_fs ?w1)" using r1(1) assms(1,3) by (auto simp: thins_def)
  have e: "restore_records run (Some saved) w = create_missing run rs ?w1"
    by (simp add: restore_records_def assms(5) RECORD_DIRS_def)
  have f: "fills run rs ?w1 (create_missing run rs ?w1)" by (rule create_missing_fills [OF c1(1)])
  have K: "key_of (join run (rel_of ?ns)) = ?K" by (rule key_join_rel [OF assms(4) nm])
  have n: "map_of (w_fs (create_missing run rs ?w1)) ?K = Some n" using assms(8) e K by (simp add: node_at_def)
  from f consider "map_of (w_fs ?w1) ?K = Some n"
    | rel k where "(rel, k) \<in> set rs" "?K = key_of (join run rel)" "kind_fits k n"
    unfolding fills_def using n by (metis option.inject)
  then show ?thesis
  proof cases
    case 1
    have "dirs_down (w_fs ?w1) (key_of run @ map Normal [''resolvconf'']) ms"
      by (rule closed_dirs_down [OF c1(2)]) (use 1 in auto)
    with r1(2) assms(6) have "fits_at rs (w_fs ?w1) (key_of run) ?ns" by (auto simp: settled_def)
    with 1 show ?thesis by (simp add: fits_at_def)
  next
    case 2
    have "is_record_path rel" "records_ok rs" using decode_okD [OF assms(5)] 2(1) by auto
    then have "components rel = map Normal ?ns" using record_path_key [OF assms(4)] 2(2) by simp
    then have "path_eq rel (rel_of ?ns)" using components_rel_of [OF _ nm] by (simp add: path_eq_def)
    then show ?thesis using records_get_in [OF \<open>records_ok rs\<close> 2(1)] 2(3) by blast
  qed
qed

definition hidden_run :: world where
  "hidden_run = sample_world\<lparr>w_fs := [(key_of ''/'', Dir), (key_of ''/run'', Dir), (key_of ''/run/resolvconf'', Dir),
     (key_of ''/run/resolvconf/a'', File ''hidden''), (key_of ''/run/resolvconf/vpn'', File ''hidden'')]\<rparr>"

definition sample_saved :: bytes where
  "sample_saved = encode sample_records"

lemma sample_decode: "decode sample_saved = Some sample_records"
proof -
  have "records_ok ([] @ sample_records)" by code_simp
  from decode_loop_encode [OF this sample_records_paths] show ?thesis by (simp add: decode_def sample_saved_def)
qed

lemma restore_sample:
  "restore_records ''/run'' (Some sample_saved) w
     = create_missing ''/run'' sample_records (reconcile ''/run'' ''resolvconf'' 0 sample_records w)"
  by (simp add: restore_records_def sample_decode RECORD_DIRS_def)

lemma hidden_run_ok: "calm hidden_run" "tree_ok (w_fs hidden_run)" "tree_closed (w_fs hidden_run)"
proof -
  show "calm hidden_run" using sample_world_ok(1) by (simp add: hidden_run_def calm_def)
  have keys: "key_of ''/'' = [RootDir]" "key_of ''/run'' = [RootDir, Normal ''run'']"
    "key_of ''/run/resolvconf'' = [RootDir, Normal ''run'', Normal ''resolvconf'']"
    "key_of ''/run/resolvconf/a'' = [RootDir, Normal ''run'', Normal ''resolvconf'', Normal ''a'']"
    "key_of ''/run/resolvconf/vpn'' = [RootDir, Normal ''run'', Normal ''resolvconf'', Normal ''vpn'']"
    by code_simp+
  show "tree_ok (w_fs hidden_run)" by (simp add: tree_ok_def hidden_run_def keys name_ok_def component_of_def)
  show "tree_closed (w_fs hidden_run)"
    unfolding tree_closed_def
  proof (intro allI impI)
    fix k c v assume a: "map_of (w_fs hidden_run) (k @ [c]) = Some v" "k \<noteq> []"
    then consider "k = [RootDir]" | "k = [RootDir, Normal ''run'']" | "k = [RootDir, Normal ''run'', Normal ''resolvconf'']"
      by (auto simp: hidden_run_def keys append_eq_Cons_conv split: if_splits)
    then show "map_of (w_fs hidden_run) k = Some Dir" by cases (simp_all add: hidden_run_def keys)
  qed
qed

theorem restore_leaves_only_records_witness:
  "node_at (restore_records ''/run'' (Some sample_saved) hidden_run) (join ''/run'' (rel_of [''resolvconf'', ''a''])) = Some (File [newline])
   \<and> (\<exists>k. records_get sample_records (rel_of [''resolvconf'', ''a'']) = Some k \<and> kind_fits k (File [newline]))"
proof
  show n: "node_at (restore_records ''/run'' (Some sample_saved) hidden_run) (join ''/run'' (rel_of [''resolvconf'', ''a''])) = Some (File [newline])"
    unfolding restore_sample by code_simp
  have "length [''a''] \<le> RECORD_MAX_DEPTH" "\<forall>m\<in>set [''a'']. name_ok m"
    by (simp_all add: RECORD_MAX_DEPTH_def name_ok_def component_of_def)
  from restore_leaves_only_records [OF hidden_run_ok sample_world_ok(3) sample_decode this n]
  show "\<exists>k. records_get sample_records (rel_of [''resolvconf'', ''a'']) = Some k \<and> kind_fits k (File [newline])" by simp
qed

subsection \<open>The records come back\<close>

text \<open>A copy as the entry takes it: with every entry the directory it is in, no deeper than it reaches.\<close>

definition records_rooted :: "records \<Rightarrow> bool" where
  "records_rooted rs \<longleftrightarrow> (\<forall>(p, _)\<in>set rs. length (components p) \<le> Suc RECORD_MAX_DEPTH
     \<and> (length (components p) = 1 \<or> (\<exists>(q, k)\<in>set rs. components q = butlast (components p) \<and> k = KDir)))"

lemma butlast_less: "cs \<noteq> [] \<Longrightarrow> butlast cs < (cs :: component list)"
  using lexord_append_rightI [of "[last cs]" "butlast cs"] by (simp add: list_less_def)

lemma create_missing_all:
  assumes "calm w" "records_ok (ps @ rs)" "\<And>p k. (p, k) \<in> set (ps @ rs) \<Longrightarrow> is_record_path p" "is_absolute run"
    and "records_rooted (ps @ rs)" "map_of (w_fs w) (key_of run) = Some Dir"
    and "\<And>p k. (p, k) \<in> set ps \<Longrightarrow> node_at w (join run p) \<noteq> None"
    and "\<And>p n. (p, KDir) \<in> set (ps @ rs) \<Longrightarrow> node_at w (join run p) = Some n \<Longrightarrow> n = Dir"
    and "(p, k) \<in> set (ps @ rs)"
  shows "node_at (create_missing run rs w) (join run p) \<noteq> None"
  using assms
proof (induction rs arbitrary: ps w)
  case (Cons r rs)
  obtain rel kind where r: "r = (rel, kind)" by fastforce
  note path = Cons.prems(3)
  have rp: "is_record_path rel" using path [of rel kind] r by simp
  have key: "\<And>q l. (q, l) \<in> set (ps @ r # rs) \<Longrightarrow> key_of (join run q) = key_of run @ components q"
    using record_path_key [OF assms(4)] path by blast
  have ke: "key_of (join run rel) = key_of run @ components rel" using key [of rel kind] r by simp
  have ne: "components rel \<noteq> []" by (rule record_path_names [OF rp]) simp
  have par: "parent_is_dir w (join run rel)"
  proof (cases "length (components rel) = 1")
    case True
    then have "butlast (key_of (join run rel)) = key_of run" using ke ne by (auto simp: butlast_append length_Suc_conv)
    then show ?thesis using Cons.prems(6) by (simp add: parent_is_dir_def)
  next
    case False
    then obtain q where q: "(q, KDir) \<in> set (ps @ r # rs)" "components q = butlast (components rel)"
      using Cons.prems(5) r by (fastforce simp: records_rooted_def)
    have "components q < components rel" using butlast_less [OF ne] q(2) by simp
    then have "(q, KDir) \<in> set ps"
      using q(1) Cons.prems(2) r by (auto simp: records_ok_def sorted_wrt_append dest: less_asym)
    then have "node_at w (join run q) \<noteq> None" "(q, KDir) \<in> set (ps @ r # rs)" using Cons.prems(7) by auto
    then have "node_at w (join run q) = Some Dir" using Cons.prems(8) by blast
    moreover have "key_of (join run q) = butlast (key_of (join run rel))"
      using key [OF q(1)] ke q(2) ne by (simp add: butlast_append)
    ultimately show ?thesis by (simp add: parent_is_dir_def node_at_def)
  qed
  obtain w1 where w1: "create_missing run ((rel, kind) # rs) w = create_missing run rs w1" "fills run [(rel, kind)] w w1"
    "node_at w1 (join run rel) \<noteq> None"
    using create_missing_step [OF Cons.prems(1)] par by metis
  have kept: "node_at w q = Some n \<Longrightarrow> node_at w1 q = Some n" for q n
    using fills_keep [OF w1(2)] by (simp add: node_at_def)
  have "node_at (create_missing run rs w1) (join run p) \<noteq> None"
  proof (rule Cons.IH [of w1 "ps @ [r]"])
    show "calm w1" using w1(2) by (simp add: fills_def)
    show "map_of (w_fs w1) (key_of run) = Some Dir" by (rule fills_keep [OF w1(2) Cons.prems(6)])
    show "node_at w1 (join run q) \<noteq> None" if "(q, l) \<in> set (ps @ [r])" for q l
      using that Cons.prems(7) [of q l] w1(3) r kept by auto
    show "n = Dir" if "(q, KDir) \<in> set ((ps @ [r]) @ rs)" "node_at w1 (join run q) = Some n" for q n
    proof (cases "node_at w (join run q)")
      case None
      have n': "key_of (join run q) = key_of (join run rel) \<and> kind_fits kind n"
        using w1(2) [unfolded fills_def, THEN conjunct2, THEN spec, of "key_of (join run q)"] that(2) None
        by (auto simp: node_at_def)
      have "components q = components rel" using n' key [of q KDir] that(1) ke r by simp
      then have "records_get (ps @ r # rs) rel = Some KDir" "records_get (ps @ r # rs) rel = Some kind"
        using records_get_in [OF Cons.prems(2), of q KDir rel] records_get_in [OF Cons.prems(2), of rel kind rel] that(1) r
        by (simp_all add: path_eq_def)
      with n' show ?thesis by simp
    next
      case (Some m)
      with kept that Cons.prems(8) [of q m] show ?thesis by auto
    qed
  qed (use Cons.prems in auto)
  then show ?case using w1(1) r by simp
qed auto

text \<open>C26: the decoy's records come back.  On a host that refuses nothing, whose \<^verbatim>\<open>/run\<close> is a directory
  and holds no special file in the place of a record, every entry of the copy is there after the way back,
  with the kind, content or target the copy has.\<close>

theorem restore_brings_records_back:
  assumes "calm w" "tree_ok (w_fs w)" "tree_closed (w_fs w)" "is_absolute run" "decode saved = Some rs" "records_rooted rs"
    and "node_at w run = Some Dir" "\<forall>(p, _)\<in>set rs. node_at w (join run p) \<noteq> Some Socket" "(p, k) \<in> set rs"
    and "\<forall>(p, _)\<in>set rs. \<forall>n. Normal n \<in> set (components p) \<longrightarrow> name_ok n"
  shows "\<exists>n. node_at (restore_records run (Some saved) w) (join run p) = Some n \<and> kind_fits k n"
proof -
  let ?w1 = "reconcile run ''resolvconf'' 0 rs w"
  have rc: "\<forall>n\<in>set [''resolvconf'']. name_ok n" by (simp add: name_ok_def component_of_def)
  have r1: "touches (sub_keys (key_of run) [''resolvconf'']) w ?w1" "thins w ?w1" "settled rs ?w1 (key_of run) 0 [''resolvconf'']"
    using reconcile_settles [OF assms(4), of rs 0] assms(1,2) rc unfolding reconciles_def
    by (metis join_with.simps(2))+
  have c1: "calm ?w1" "tree_closed (w_fs ?w1)" using r1(2) assms(1,3) by (auto simp: thins_def)
  have ok: "records_ok rs" "\<And>p k. (p, k) \<in> set rs \<Longrightarrow> is_record_path p" using decode_okD [OF assms(5)] by auto
  have e: "restore_records run (Some saved) w = create_missing run rs ?w1"
    by (simp add: restore_records_def assms(5) RECORD_DIRS_def)
  have run: "map_of (w_fs ?w1) (key_of run) = Some Dir"
    using r1(1) assms(7) by (auto simp: touches_def node_at_def prefix_def)
  have fits: "kind_fits l n" if q: "(q, l) \<in> set rs" and n: "map_of (w_fs v) (key_of (join run q)) = Some n"
    and v: "fills run rs ?w1 v" for q l n v
  proof -
    obtain d ns where ns: "d \<in> set RECORD_DIRS" "components q = map Normal (d # ns)" by (rule record_path_names [OF ok(2) [OF q]])
    then have d: "d = ''resolvconf''" by (simp add: RECORD_DIRS_def)
    have nm: "\<forall>n\<in>set (d # ns). name_ok n" using assms(10) q ns(2) by fastforce
    have K: "key_of (join run q) = key_of run @ map Normal (d # ns)" using record_path_key [OF assms(4) ok(2) [OF q]] ns by simp
    have pe: "path_eq q (rel_of (d # ns))" using components_rel_of [OF _ nm] ns(2) by (simp add: path_eq_def)
    from v n consider "map_of (w_fs ?w1) (key_of (join run q)) = Some n"
      | rel k' where "(rel, k') \<in> set rs" "key_of (join run q) = key_of (join run rel)" "kind_fits k' n"
      unfolding fills_def by (metis option.inject)
    then show ?thesis
    proof cases
      case 1
      have "dirs_down (w_fs ?w1) (key_of run @ map Normal [''resolvconf'']) ns"
        by (rule closed_dirs_down [OF c1(2)]) (use 1 K d in auto)
      moreover have "length ns \<le> RECORD_MAX_DEPTH" using assms(6) q ns(2) by (fastforce simp: records_rooted_def)
      ultimately have "fits_at rs (w_fs ?w1) (key_of run) (d # ns)" using r1(3) d by (auto simp: settled_def)
      moreover have "n \<noteq> Socket"
      proof
        assume "n = Socket"
        with 1 r1(2) have "map_of (w_fs w) (key_of (join run q)) = Some Socket" by (auto simp: thins_def)
        with assms(8) q show False by (fastforce simp: node_at_def)
      qed
      ultimately show ?thesis using 1 K records_get_in [OF ok(1) q pe] by (auto simp: fits_at_def)
    next
      case 2
      then have "path_eq rel (rel_of (d # ns))"
        using record_path_key [OF assms(4) ok(2)] q pe by (simp add: path_eq_def)
      then show ?thesis using records_get_in [OF ok(1) 2(1)] records_get_in [OF ok(1) q pe] 2(3) by simp
    qed
  qed
  have refl: "fills run rs ?w1 ?w1" using c1(1) by (simp add: fills_def)
  have "node_at (create_missing run rs ?w1) (join run p) \<noteq> None"
    by (rule create_missing_all [where ps = "[]", OF c1(1)])
      (use ok assms(4,6,9) run fits [OF _ _ refl, of _ KDir] in \<open>auto simp: node_at_def\<close>)
  then obtain n where "node_at (create_missing run rs ?w1) (join run p) = Some n" by auto
  with fits [OF assms(9) _ create_missing_fills [OF c1(1)]] e show ?thesis by (auto simp: node_at_def)
qed

theorem restore_brings_records_back_witness:
  "\<exists>n. node_at (restore_records ''/run'' (Some sample_saved) hidden_run) (join ''/run'' ''resolvconf/l'') = Some n \<and> kind_fits (KLink ''x'') n"
proof (rule restore_brings_records_back [OF hidden_run_ok sample_world_ok(3) sample_decode])
  have c: "components ''resolvconf'' = [Normal ''resolvconf'']" "components ''resolvconf/a'' = [Normal ''resolvconf'', Normal ''a'']"
    "components ''resolvconf/l'' = [Normal ''resolvconf'', Normal ''l'']" by code_simp+
  show "records_rooted sample_records"
    by (simp add: records_rooted_def sample_records_def c RECORD_MAX_DEPTH_def)
  show "node_at hidden_run ''/run'' = Some Dir" by code_simp
  have "node_at hidden_run (join ''/run'' ''resolvconf'') \<noteq> Some Socket" "node_at hidden_run (join ''/run'' ''resolvconf/a'') \<noteq> Some Socket"
    "node_at hidden_run (join ''/run'' ''resolvconf/l'') \<noteq> Some Socket" by code_simp+
  then show "\<forall>(p, _)\<in>set sample_records. node_at hidden_run (join ''/run'' p) \<noteq> Some Socket"
    by (simp add: sample_records_def)
  show "(''resolvconf/l'', KLink ''x'') \<in> set sample_records" by (simp add: sample_records_def)
  show "\<forall>(p, _)\<in>set sample_records. \<forall>n. Normal n \<in> set (components p) \<longrightarrow> name_ok n"
    by (simp add: sample_records_def c name_ok_def component_of_def)
qed

end
