(* ===== verification/Disk_Guard.thy ===== *)
theory Disk_Guard
  imports Runtime_Units
begin

text \<open>
  The disks the hidden session does not use, read-only for the session:
  \<^verbatim>\<open>nails-teardown/src/whole_root/disk_guard.rs\<close>.  What the kernel shows below \<^verbatim>\<open>/sys\<close> and which paths
  name a block device is a record of answers, \<open>sysfs\<close>; an attribute file may change as the session goes
  on, so its text depends on the log of what was done.  The record of the devices set read-only is a
  file of the world, appended to; the ioctl is an operation of the log.
\<close>

section \<open>Definitions\<close>

subsection \<open>Device numbers\<close>

definition RULE_DIR :: path where "RULE_DIR = ''udev/rules.d''"
definition RULE_NAME :: bytes where "RULE_NAME = ''60-overlay-runtime.rules''"
definition GUARD_ARG :: bytes where "GUARD_ARG = ''guard-device''"
definition RECORD_NAME :: bytes where "RECORD_NAME = ''read-only-devices''"

datatype dev_num = DevNum (major: "32 word") (minor: "32 word")

definition parse_u32 :: "bytes \<Rightarrow> 32 word option" where
  "parse_u32 s =
     (case parse_u64 s of None \<Rightarrow> None | Some n \<Rightarrow> if int n < 2 ^ 32 then Some (of_nat n) else None)"

definition parse_dev_num :: "bytes \<Rightarrow> dev_num option" where
  "parse_dev_num text =
     (case split_once (CHR '':'') (trim text) of
        None \<Rightarrow> None
      | Some (a, b) \<Rightarrow>
          (case parse_u32 a of
             None \<Rightarrow> None
           | Some x \<Rightarrow> (case parse_u32 b of None \<Rightarrow> None | Some y \<Rightarrow> Some (DevNum x y))))"

definition dev_text :: "dev_num \<Rightarrow> bytes" where
  "dev_text d = show_nat (unat (major d)) @ '':'' @ show_nat (unat (minor d))"

subsection \<open>The rule\<close>

definition quote :: bytes where "quote = [CHR 0x22]"

definition rule_text :: "path \<Rightarrow> bytes" where
  "rule_text binary =
     ''ACTION=='' @ quote @ ''add|change'' @ quote @ '', SUBSYSTEM=='' @ quote @ ''block'' @ quote
     @ '', ENV{DEVTYPE}=='' @ quote @ ''disk|partition'' @ quote
     @ '', RUN+='' @ quote @ utf8_lossy binary @ '' '' @ GUARD_ARG @ '' $devnode'' @ quote @ [newline]"

definition install_rule :: "path \<Rightarrow> path \<Rightarrow> world \<Rightarrow> (io_error + path) \<times> world" where
  "install_rule run binary w =
     (let dir = join run RULE_DIR; path = join dir RULE_NAME in
      case create_dir_all dir w of
        (Some e, w1) \<Rightarrow> (Inl e, w1)
      | (None, w1) \<Rightarrow>
          (case write_atomic path (rule_text binary) w1 of
             (Some e, w2) \<Rightarrow> (Inl e, w2)
           | (None, w2) \<Rightarrow> (Inr path, w2)))"

definition remove_rule :: "path \<Rightarrow> world \<Rightarrow> world" where
  "remove_rule run w = snd (remove_dir (join run RULE_DIR) (snd (remove_file (join (join run RULE_DIR) RULE_NAME) w)))"

subsection \<open>Sysfs\<close>

record sysfs =
  sys_root :: path
  block_device :: "path \<Rightarrow> dev_num option"
  sys_real :: "path \<Rightarrow> path option"
  sys_text :: "op list \<Rightarrow> path \<Rightarrow> bytes option"
  sys_exists :: "path \<Rightarrow> bool"
  sys_names :: "path \<Rightarrow> bytes list"

definition mount_device :: "sysfs \<Rightarrow> mount_entry \<Rightarrow> dev_num option" where
  "mount_device sys m =
     (case (if path_starts_with (m_source m) ''/dev/'' then block_device sys (m_source m) else None) of
        Some d \<Rightarrow> Some d
      | None \<Rightarrow>
          (case parse_dev_num (m_dev m) of
             Some d \<Rightarrow> if major d \<noteq> 0 then Some d else None
           | None \<Rightarrow> None))"

definition sys_dir :: "sysfs \<Rightarrow> dev_num \<Rightarrow> path option" where
  "sys_dir sys dev = sys_real sys (join (join (sys_root sys) ''dev/block'') (dev_text dev))"

definition dev_in :: "sysfs \<Rightarrow> op list \<Rightarrow> path \<Rightarrow> dev_num option" where
  "dev_in sys l dir = Option.bind (sys_text sys l (join dir ''dev'')) parse_dev_num"

definition path_parent :: "path \<Rightarrow> key option" where
  "path_parent p = (if length (components p) \<le> 1 then None else Some (butlast (components p)))"

text \<open>A canonical path is its components, so the parent is written out from them.\<close>

fun show_key :: "key \<Rightarrow> path" where
  "show_key [] = []"
| "show_key [RootDir] = ''/''"
| "show_key (RootDir # cs) = concat (map (\<lambda>c. case c of Normal n \<Rightarrow> slash # n | _ \<Rightarrow> []) cs)"
| "show_key (_ # cs) = []"

definition dev_parent :: "sysfs \<Rightarrow> op list \<Rightarrow> dev_num \<Rightarrow> dev_num option" where
  "dev_parent sys l dev =
     (case sys_dir sys dev of
        None \<Rightarrow> None
      | Some dir \<Rightarrow>
          if \<not> sys_exists sys (join dir ''partition'') then None
          else (case path_parent dir of None \<Rightarrow> None | Some k \<Rightarrow> dev_in sys l (show_key k)))"

definition dev_slaves :: "sysfs \<Rightarrow> op list \<Rightarrow> dev_num \<Rightarrow> dev_num list" where
  "dev_slaves sys l dev =
     (case sys_dir sys dev of
        None \<Rightarrow> []
      | Some dir \<Rightarrow> filter_map (\<lambda>n. dev_in sys l (join (join dir ''slaves'') n)) (sys_names sys (join dir ''slaves'')))"

definition is_hardware :: "sysfs \<Rightarrow> op list \<Rightarrow> dev_num \<Rightarrow> bool" where
  "is_hardware sys l dev =
     (let disk = (case dev_parent sys l dev of None \<Rightarrow> dev | Some d \<Rightarrow> d) in
      is_some_and (sys_dir sys disk) (\<lambda>d. sys_exists sys (join d ''device'')))"

definition is_read_only :: "sysfs \<Rightarrow> op list \<Rightarrow> dev_num \<Rightarrow> bool" where
  "is_read_only sys l dev =
     is_some_and (Option.bind (sys_dir sys dev) (\<lambda>d. sys_text sys l (join d ''ro''))) (\<lambda>ro. trim ro = ''1'')"

definition all_devices :: "sysfs \<Rightarrow> op list \<Rightarrow> (dev_num \<times> bytes) list" where
  "all_devices sys l =
     (let class = join (sys_root sys) ''class/block'' in
      filter_map (\<lambda>n. map_option (\<lambda>d. (d, utf8_lossy n)) (dev_in sys l (join class n))) (sys_names sys class))"

subsection \<open>What the session keeps writable\<close>

text \<open>The walk pops the newest seed.\<close>

definition rests_on :: "sysfs \<Rightarrow> op list \<Rightarrow> dev_num \<Rightarrow> dev_num list" where
  "rests_on sys l dev = rev (dev_slaves sys l dev) @ (case dev_parent sys l dev of None \<Rightarrow> [] | Some d \<Rightarrow> [d])"

lemma finite_dev_num: "finite (UNIV :: dev_num set)"
proof -
  have "UNIV = (\<lambda>(a, b). DevNum a b) ` UNIV"
    by (auto intro: rev_image_eqI [where x = "(major d, minor d)" for d])
  then show ?thesis by (metis finite finite_imageI)
qed

function protect_loop :: "sysfs \<Rightarrow> op list \<Rightarrow> dev_num list \<Rightarrow> dev_num list \<Rightarrow> dev_num list" where
  "protect_loop sys l seen [] = seen"
| "protect_loop sys l seen (dev # seeds) =
     (if dev \<in> set seen then protect_loop sys l seen seeds
      else protect_loop sys l (dev # seen) (rests_on sys l dev @ seeds))"
  by pat_completeness auto
termination
proof (relation "measures [\<lambda>(sys, l, seen, seeds). card (UNIV - set seen), \<lambda>(sys, l, seen, seeds). length seeds]")
  fix sys l seen seeds and dev :: dev_num
  assume "dev \<notin> set seen"
  then have "card (UNIV - set (dev # seen)) < card (UNIV - set seen)"
    using finite_dev_num by (intro psubset_card_mono) (auto intro: finite_subset)
  then show "((sys, l, dev # seen, rests_on sys l dev @ seeds), (sys, l, seen, dev # seeds))
      \<in> measures [\<lambda>(sys, l, seen, seeds). card (UNIV - set seen), \<lambda>(sys, l, seen, seeds). length seeds]"
    by simp
qed auto

definition protect_seeds :: "plan \<Rightarrow> mount_entry list \<Rightarrow> sysfs \<Rightarrow> dev_num list" where
  "protect_seeds p mounts sys =
     (let policy = map pm_target (filter (\<lambda>m. pm_kind m \<noteq> KindHiddenVolume) (p_policy_mounts p)) in
      filter_map (mount_device sys)
        (filter (\<lambda>m. path_starts_with (mount_point m) (p_hidden_root p) \<or> (\<exists>t\<in>set policy. path_eq t (mount_point m))) mounts)
      @ (case block_device sys (dr_source (p_decoy_root p)) of None \<Rightarrow> [] | Some d \<Rightarrow> [d])
      @ filter_map (\<lambda>name. block_device sys (join ''/dev/mapper'' name)) (p_backend p))"

definition protected :: "plan \<Rightarrow> mount_entry list \<Rightarrow> sysfs \<Rightarrow> op list \<Rightarrow> dev_num list" where
  "protected p mounts sys l = protect_loop sys l [] (rev (protect_seeds p mounts sys))"

subsection \<open>Guarding\<close>

datatype guarded = GSkipped | GProtected | GAlreadyReadOnly | GSetReadOnly

definition set_read_only :: "path \<Rightarrow> bool \<Rightarrow> world \<Rightarrow> io_error option \<times> world" where
  "set_read_only node ro w = act_only (OpSetReadOnly node ro) w"

definition guard_line :: "dev_num \<Rightarrow> path \<Rightarrow> bytes" where
  "guard_line dev node = dev_text dev @ '' '' @ utf8_lossy node @ [newline]"

definition record_device :: "path \<Rightarrow> dev_num \<Rightarrow> path \<Rightarrow> world \<Rightarrow> io_error option \<times> world" where
  "record_device dir dev node w = append_file (join dir RECORD_NAME) (guard_line dev node) w"

definition guard :: "path \<Rightarrow> plan \<Rightarrow> mount_entry list \<Rightarrow> sysfs \<Rightarrow> path \<Rightarrow> world \<Rightarrow> (io_error + guarded) \<times> world" where
  "guard node p mounts sys dir w =
     (case block_device sys node of
        None \<Rightarrow> (Inr GSkipped, w)
      | Some dev \<Rightarrow>
          if \<not> is_hardware sys (w_log w) dev then (Inr GSkipped, w)
          else if dev \<in> set (protected p mounts sys (w_log w)) then (Inr GProtected, w)
          else if is_read_only sys (w_log w) dev then (Inr GAlreadyReadOnly, w)
          else (case record_device dir dev node w of
                  (Some e, w1) \<Rightarrow> (Inl e, w1)
                | (None, w1) \<Rightarrow>
                    (case set_read_only node True w1 of
                       (Some e, w2) \<Rightarrow> (Inl e, w2)
                     | (None, w2) \<Rightarrow> (Inr GSetReadOnly, w2))))"

definition node_of :: "sysfs \<Rightarrow> op list \<Rightarrow> bytes \<Rightarrow> path" where
  "node_of sys l name =
     (case Option.bind (sys_text sys l (join (join (join (sys_root sys) ''class/block'') name) ''uevent''))
             (\<lambda>text. find_map (\<lambda>ln. map_option (join ''/dev'') (strip_prefix ''DEVNAME='' ln)) (lines_of text)) of
        Some n \<Rightarrow> n
      | None \<Rightarrow> join ''/dev'' name)"

fun sweep_loop ::
    "plan \<Rightarrow> mount_entry list \<Rightarrow> sysfs \<Rightarrow> path \<Rightarrow> (dev_num \<times> bytes) list \<Rightarrow> dev_num list \<Rightarrow> world \<Rightarrow> dev_num list \<times> world" where
  "sweep_loop p mounts sys dir [] made w = (made, w)"
| "sweep_loop p mounts sys dir ((dev, name) # devs) made w =
     (let node = node_of sys (w_log w) name in
      if block_device sys node \<noteq> Some dev then sweep_loop p mounts sys dir devs made w
      else (case guard node p mounts sys dir w of
              (Inr GSetReadOnly, w1) \<Rightarrow> sweep_loop p mounts sys dir devs (made @ [dev]) w1
            | (_, w1) \<Rightarrow> sweep_loop p mounts sys dir devs made w1))"

definition sweep :: "plan \<Rightarrow> mount_entry list \<Rightarrow> sysfs \<Rightarrow> path \<Rightarrow> world \<Rightarrow> dev_num list \<times> world" where
  "sweep p mounts sys dir w = sweep_loop p mounts sys dir (all_devices sys (w_log w)) [] w"

text \<open>The record: the first line of each device.\<close>

fun record_lines :: "dev_num list \<Rightarrow> bytes list \<Rightarrow> (dev_num \<times> path) list" where
  "record_lines seen [] = []"
| "record_lines seen (ln # lns) =
     (case split_once (CHR '' '') ln of
        None \<Rightarrow> record_lines seen lns
      | Some (d, node) \<Rightarrow>
          (case parse_dev_num d of
             None \<Rightarrow> record_lines seen lns
           | Some dev \<Rightarrow>
               if dev \<in> set seen then record_lines seen lns else (dev, node) # record_lines (dev # seen) lns))"

definition recorded :: "path \<Rightarrow> world \<Rightarrow> (dev_num \<times> path) list \<times> world" where
  "recorded dir w =
     (case read_file (join dir RECORD_NAME) w of
        (Inl _, w1) \<Rightarrow> ([], w1)
      | (Inr b, w1) \<Rightarrow> (if utf8_valid b then record_lines [] (lines_of b) else [], w1))"

fun release_loop :: "sysfs \<Rightarrow> (dev_num \<times> path) list \<Rightarrow> nat \<Rightarrow> world \<Rightarrow> nat \<times> world" where
  "release_loop sys [] n w = (n, w)"
| "release_loop sys ((dev, node) # ds) n w =
     (case find (\<lambda>p. block_device sys p = Some dev) [node, join ''/dev/block'' (dev_text dev)] of
        None \<Rightarrow> release_loop sys ds n w
      | Some p \<Rightarrow>
          (case set_read_only p False w of
             (None, w1) \<Rightarrow> release_loop sys ds (Suc n) w1
           | (Some _, w1) \<Rightarrow> release_loop sys ds n w1))"

definition release :: "sysfs \<Rightarrow> path \<Rightarrow> world \<Rightarrow> nat \<times> world" where
  "release sys dir w = (case recorded dir w of (ds, w1) \<Rightarrow> release_loop sys ds 0 w1)"

section \<open>Lemmas\<close>

subsection \<open>What the session stands on\<close>

definition stands_rel :: "sysfs \<Rightarrow> op list \<Rightarrow> (dev_num \<times> dev_num) set" where
  "stands_rel sys l = {(a, b). b \<in> set (rests_on sys l a)}"

lemma protect_loop_sound:
  "set (protect_loop sys l seen seeds) \<subseteq> set seen \<union> (stands_rel sys l)\<^sup>* `` set seeds"
proof (induction sys l seen seeds rule: protect_loop.induct)
  case (2 sys l seen dev seeds)
  have "(stands_rel sys l)\<^sup>* `` set (rests_on sys l dev @ seeds) \<subseteq> (stands_rel sys l)\<^sup>* `` set (dev # seeds)"
    by (auto simp: stands_rel_def intro: converse_rtrancl_into_rtrancl)
  with 2 show ?case by auto
qed simp

lemma protect_loop_closed:
  assumes "\<forall>a\<in>set seen. set (rests_on sys l a) \<subseteq> set seen \<union> set seeds"
  shows "set seen \<union> set seeds \<subseteq> set (protect_loop sys l seen seeds)
    \<and> (\<forall>a\<in>set (protect_loop sys l seen seeds). set (rests_on sys l a) \<subseteq> set (protect_loop sys l seen seeds))"
  using assms
proof (induction sys l seen seeds rule: protect_loop.induct)
  case (2 sys l seen dev seeds)
  show ?case
  proof (cases "dev \<in> set seen")
    case True
    then have "\<forall>a\<in>set seen. set (rests_on sys l a) \<subseteq> set seen \<union> set seeds" using 2(3) by auto
    from 2(1) [OF True this] True show ?thesis by auto
  next
    case False
    have "\<forall>a\<in>set (dev # seen). set (rests_on sys l a) \<subseteq> set (dev # seen) \<union> set (rests_on sys l dev @ seeds)"
      using 2(3) by auto
    from 2(2) [OF False this] False show ?thesis by simp
  qed
qed simp

lemma protected_closure:
  "set (protected p mounts sys l) = (stands_rel sys l)\<^sup>* `` set (protect_seeds p mounts sys)"
proof
  show "set (protected p mounts sys l) \<subseteq> (stands_rel sys l)\<^sup>* `` set (protect_seeds p mounts sys)"
    using protect_loop_sound [of sys l "[]" "rev (protect_seeds p mounts sys)"] by (simp add: protected_def)
  note c = protect_loop_closed [of "[]" sys l "rev (protect_seeds p mounts sys)", folded protected_def, simplified]
  show "(stands_rel sys l)\<^sup>* `` set (protect_seeds p mounts sys) \<subseteq> set (protected p mounts sys l)"
  proof
    fix x assume "x \<in> (stands_rel sys l)\<^sup>* `` set (protect_seeds p mounts sys)"
    then obtain s where s: "s \<in> set (protect_seeds p mounts sys)" "(s, x) \<in> (stands_rel sys l)\<^sup>*" by blast
    from s(2) show "x \<in> set (protected p mounts sys l)"
      by (induction rule: rtrancl_induct) (use c s(1) in \<open>auto simp: stands_rel_def\<close>)
  qed
qed

subsection \<open>The record\<close>

lemma lines_acc_append:
  "a = [] \<or> last a = newline \<Longrightarrow> a = [] \<longrightarrow> cur = [] \<Longrightarrow> lines_acc cur (a @ b) = lines_acc cur a @ lines_acc [] b"
  by (induction a arbitrary: cur) (auto split: if_splits)

lemma lines_of_append: "a = [] \<or> last a = newline \<Longrightarrow> lines_of (a @ b) = lines_of a @ lines_of b"
  unfolding lines_of_def by (rule lines_acc_append) auto

lemma digit_ws: "is_digit c \<Longrightarrow> ws_len (c # s) = 0"
  by (rule ws_len_graphic) (auto simp: is_digit_def)

lemma dev_text_chars: "c \<in> set (dev_text d) \<Longrightarrow> is_digit c \<or> c = CHR '':''"
  by (auto simp: dev_text_def dest: show_nat_digits)

lemma dev_text_plain: "c \<in> set (dev_text d) \<Longrightarrow> 32 < byte c \<and> byte c < 128"
  by (drule dev_text_chars) (auto simp: is_digit_def)

lemma trim_dev_text [simp]: "trim (dev_text d) = dev_text d"
proof -
  have e: "ends_in_field (dev_text d)"
    unfolding ends_in_field_def
  proof (intro allI impI)
    fix u assume u: "u \<noteq> []" "suffix u (dev_text d)"
    then obtain c r where "u = c # r" by (cases u) auto
    moreover have "c \<in> set (dev_text d)" using u \<open>u = c # r\<close> by (auto simp: suffix_def)
    ultimately show "ws_len u \<noteq> length u" using dev_text_plain [of c d] by (simp add: ws_len_graphic)
  qed
  have "ws_len (dev_text d) = 0"
  proof (cases "dev_text d")
    case (Cons c cs)
    then show ?thesis using dev_text_plain [of c d] by (simp add: ws_len_graphic)
  qed (simp add: dev_text_def)
  then show ?thesis using trim_end_id [OF e] by (simp add: trim_def trim_start_id)
qed

lemma parse_u32_show [simp]: "parse_u32 (show_nat (unat x)) = Some (x :: 32 word)"
proof -
  have "unat x < 2 ^ 32" using unsigned_less [of x] by simp
  moreover obtain c cs where cs: "show_nat (unat x) = c # cs" "is_digit c"
    using show_nat_hd_digit [of "unat x"] by (cases "show_nat (unat x)") auto
  moreover have "c \<noteq> CHR ''+''" using cs(2) by (auto simp: is_digit_def)
  ultimately have "(case show_nat (unat x) of c # cs \<Rightarrow> if c = CHR ''+'' then cs else show_nat (unat x) | [] \<Rightarrow> []) = show_nat (unat x)"
    by simp
  then have "parse_u64 (show_nat (unat x)) = Some (unat x)"
    using \<open>unat x < 2 ^ 32\<close> by (simp add: parse_u64_def del: of_nat_unat)
  with \<open>unat x < 2 ^ 32\<close> show ?thesis by (simp add: parse_u32_def del: of_nat_unat) simp
qed

lemma parse_dev_text [simp]: "parse_dev_num (dev_text d) = Some d"
proof -
  have "CHR '':'' \<notin> set (show_nat n)" for n using show_nat_digits [of "CHR '':''" n] by (auto simp: is_digit_def)
  then have "split_once (CHR '':'') (dev_text d) = Some (show_nat (unat (major d)), show_nat (unat (minor d)))"
    by (simp add: split_once_Some_iff dev_text_def)
  then show ?thesis by (simp add: parse_dev_num_def)
qed

text \<open>The device a line of the record names, and the devices a record lists.\<close>

definition line_dev :: "bytes \<Rightarrow> dev_num option" where
  "line_dev ln = Option.bind (split_once (CHR '' '') ln) (\<lambda>(d, _). parse_dev_num d)"

lemma record_lines_devs:
  "(\<exists>node. (d, node) \<in> set (record_lines seen lns)) \<longleftrightarrow> d \<notin> set seen \<and> (\<exists>ln\<in>set lns. line_dev ln = Some d)"
proof (induction lns arbitrary: seen)
  case (Cons ln lns)
  show ?case
  proof (cases "line_dev ln")
    case None
    then have "record_lines seen (ln # lns) = record_lines seen lns"
      by (auto simp: line_dev_def split: option.splits)
    with Cons None show ?thesis by simp
  next
    case (Some e)
    then obtain a b where "split_once (CHR '' '') ln = Some (a, b)" "parse_dev_num a = Some e"
      by (auto simp: line_dev_def bind_eq_Some_conv)
    then have "record_lines seen (ln # lns) =
        (if e \<in> set seen then record_lines seen lns else (e, b) # record_lines (e # seen) lns)" by simp
    with Cons [of seen] Cons [of "e # seen"] Some show ?thesis by auto
  qed
qed simp

definition record_text :: "path \<Rightarrow> world \<Rightarrow> bytes" where
  "record_text dir w = (case node_at w (join dir RECORD_NAME) of Some (File b) \<Rightarrow> b | _ \<Rightarrow> [])"

definition record_ok :: "path \<Rightarrow> world \<Rightarrow> bool" where
  "record_ok dir w \<longleftrightarrow> utf8_valid (record_text dir w) \<and> (record_text dir w = [] \<or> last (record_text dir w) = newline)"

definition listed :: "path \<Rightarrow> world \<Rightarrow> dev_num \<Rightarrow> bool" where
  "listed dir w d \<longleftrightarrow> (\<exists>node. (d, node) \<in> set (record_lines [] (lines_of (record_text dir w))))"

lemma listed_iff: "listed dir w d \<longleftrightarrow> (\<exists>ln\<in>set (lines_of (record_text dir w)). line_dev ln = Some d)"
  by (simp add: listed_def record_lines_devs)

lemma guard_line_dev: "\<exists>ln\<in>set (lines_of (guard_line dev node)). line_dev ln = Some dev"
proof -
  let ?s = "utf8_lossy node @ [newline]"
  obtain a b where ab: "?s = a @ newline # b" "newline \<notin> set a" using split_list_first [of newline ?s] by auto
  have n: "newline \<notin> set (dev_text dev)" "CHR '' '' \<notin> set (dev_text dev)"
    using dev_text_plain by (auto simp: newline_def) fastforce+
  have "lines_of (guard_line dev node) = strip_cr (dev_text dev @ CHR '' '' # a) # lines_of b"
    using lines_acc_append_newline [of "dev_text dev @ CHR '' '' # a" "[]" b] n ab
    by (simp add: guard_line_def lines_of_def newline_def)
  moreover obtain a' where "strip_cr (dev_text dev @ CHR '' '' # a) = dev_text dev @ CHR '' '' # a'"
  proof (cases a rule: rev_cases)
    case (snoc ys y)
    have "butlast (dev_text dev @ CHR '' '' # ys @ [y]) = dev_text dev @ CHR '' '' # ys"
      using butlast_snoc [of "dev_text dev @ CHR '' '' # ys" y] by simp
    with snoc that [of ys] that [of a] show ?thesis by (cases "y = CHR 0x0D") (auto simp: strip_cr_def)
  qed (use that in \<open>auto simp: strip_cr_def\<close>)
  moreover have "line_dev (dev_text dev @ CHR '' '' # a') = Some dev"
    using n by (simp add: line_dev_def split_once_Some_iff [THEN iffD2] )
  ultimately show ?thesis by simp
qed

lemma guard_line_ok: "utf8_valid (guard_line dev node)" "last (guard_line dev node) = newline" "guard_line dev node \<noteq> []"
proof -
  have "utf8_valid (dev_text dev)"
    using dev_text_plain by (intro ascii_utf8_valid) (auto simp: is_ascii_def)
  moreover have "utf8_valid '' ''" "utf8_valid [newline]" by (auto intro!: ascii_utf8_valid simp: is_ascii_def newline_def)
  ultimately show "utf8_valid (guard_line dev node)"
    unfolding guard_line_def by (intro utf8_valid_append utf8_lossy_is_valid)
qed (simp_all add: guard_line_def)

subsection \<open>One device\<close>

text \<open>A host on which a write that fails has written nothing.\<close>

definition whole_writes :: "world \<Rightarrow> bool" where
  "whole_writes w \<longleftrightarrow> (\<forall>l. w_short w l = None)"

lemma whole_writes_touches: "whole_writes w \<Longrightarrow> touches K w w' \<Longrightarrow> whole_writes w'"
  by (simp add: whole_writes_def touches_def)

lemma append_file_text:
  assumes "append_file p b w = (r, w')" "whole_writes w"
  shows "(case node_at w' p of Some (File c) \<Rightarrow> c | _ \<Rightarrow> []) =
    (case node_at w p of Some (File c) \<Rightarrow> c | _ \<Rightarrow> []) @ (if r = None then b else [])"
  using assms
  by (auto simp: append_file_def attempt_def begun_def whole_writes_def split: option.splits node.splits if_splits)

lemma record_device_text:
  assumes "record_device dir dev node w = (r, w')" "whole_writes w"
  shows "record_text dir w' = record_text dir w @ (if r = None then guard_line dev node else [])"
  using append_file_text [OF assms(1) [unfolded record_device_def] assms(2)] by (simp add: record_text_def)

lemma record_text_same: "w_fs w' = w_fs w \<Longrightarrow> record_text dir w' = record_text dir w"
  by (simp add: record_text_def node_at_def)

lemma set_read_only_step:
  "set_read_only node ro w = (r, w') \<Longrightarrow> w_fs w' = w_fs w \<and> w_log w' = OpSetReadOnly node ro # w_log w \<and> touches {} w w'"
  using act_only_touches [of "OpSetReadOnly node ro" w r w' "{}"] by (auto simp: set_read_only_def act_only_def attempt_def)

text \<open>What one call of the guard does to the record and to the device.\<close>

lemma guard_cases:
  assumes "guard node p mounts sys dir w = (r, w')" "whole_writes w"
  shows "(w' = w \<and> r \<noteq> Inr GSetReadOnly)
    \<or> (\<exists>dev. block_device sys node = Some dev \<and> is_hardware sys (w_log w) dev
        \<and> dev \<notin> set (protected p mounts sys (w_log w)) \<and> \<not> is_read_only sys (w_log w) dev \<and> touches {key_of (join dir RECORD_NAME)} w w'
        \<and> (let line = OpAppend (join dir RECORD_NAME) (guard_line dev node); ro = OpSetReadOnly node True in
            (record_text dir w' = record_text dir w \<and> w_log w' = line # w_log w \<and> r \<noteq> Inr GSetReadOnly)
            \<or> (record_text dir w' = record_text dir w @ guard_line dev node \<and> w_log w' = ro # line # w_log w)))"
proof (cases "block_device sys node")
  case None
  then show ?thesis using assms by (auto simp: guard_def)
next
  case (Some dev)
  show ?thesis
  proof (cases "is_hardware sys (w_log w) dev \<and> dev \<notin> set (protected p mounts sys (w_log w)) \<and> \<not> is_read_only sys (w_log w) dev")
    case False
    then show ?thesis using assms Some by (auto simp: guard_def split: if_splits)
  next
    case True
    obtain e w1 where a: "record_device dir dev node w = (e, w1)" by fastforce
    have t: "touches {key_of (join dir RECORD_NAME)} w w1" using a by (simp add: record_device_def append_file_touches)
    have l: "w_log w1 = OpAppend (join dir RECORD_NAME) (guard_line dev node) # w_log w"
      using a by (auto simp: record_device_def append_file_def attempt_def begun_def put_def split: option.splits node.splits if_splits)
    note x = record_device_text [OF a assms(2)]
    show ?thesis
    proof (cases e)
      case (Some err)
      then show ?thesis using True assms a x t l \<open>block_device sys node = Some dev\<close> by (auto simp: guard_def)
    next
      case None
      obtain e' w2 where s: "set_read_only node True w1 = (e', w2)" by fastforce
      then have g: "w' = w2" using True assms a None \<open>block_device sys node = Some dev\<close>
        by (auto simp: guard_def split: option.splits)
      note s' = set_read_only_step [OF s]
      then have "touches {key_of (join dir RECORD_NAME)} w w2"
        using touches_trans [OF t] touches_mono [of "{}" w1 w2] by blast
      then show ?thesis using True g s' x None l record_text_same [of w2 w1 dir] \<open>block_device sys node = Some dev\<close> by auto
    qed
  qed
qed

lemma record_grows:
  assumes "record_ok dir w" "record_text dir w' = record_text dir w @ guard_line dev node"
  shows "record_ok dir w'" "listed dir w' dev" "listed dir w d \<Longrightarrow> listed dir w' d"
proof -
  show "record_ok dir w'" using assms guard_line_ok [of dev node] by (auto simp: record_ok_def intro: utf8_valid_append)
  have "lines_of (record_text dir w') = lines_of (record_text dir w) @ lines_of (guard_line dev node)"
    using assms by (simp add: record_ok_def lines_of_append)
  then show "listed dir w' dev" "listed dir w d \<Longrightarrow> listed dir w' d"
    using guard_line_dev [of dev node] by (auto simp: listed_iff)
qed

text \<open>A device the guard may set: hardware the session does not stand on.\<close>

definition free_device :: "plan \<Rightarrow> mount_entry list \<Rightarrow> sysfs \<Rightarrow> op list \<Rightarrow> dev_num \<Rightarrow> bool" where
  "free_device p mounts sys l dev \<longleftrightarrow>
     is_hardware sys l dev \<and> \<not> is_read_only sys l dev
     \<and> dev \<notin> (stands_rel sys l)\<^sup>* `` set (protect_seeds p mounts sys)"

text \<open>What holds of the world while devices are guarded: every device set read-only since a log
  \<open>l0\<close> was free at that time and is listed by the record.\<close>

definition guarded_since :: "plan \<Rightarrow> mount_entry list \<Rightarrow> sysfs \<Rightarrow> path \<Rightarrow> op list \<Rightarrow> world \<Rightarrow> bool" where
  "guarded_since p mounts sys dir l0 w \<longleftrightarrow> record_ok dir w \<and> whole_writes w
     \<and> (\<exists>ops. w_log w = ops @ l0
         \<and> (\<forall>node ro. OpSetReadOnly node ro \<in> set ops \<longrightarrow> ro
              \<and> (\<exists>dev l. block_device sys node = Some dev \<and> free_device p mounts sys l dev \<and> listed dir w dev)))"

lemma guard_keeps:
  assumes g: "guard node p mounts sys dir w = (r, w')" and i: "guarded_since p mounts sys dir l0 w"
  shows "guarded_since p mounts sys dir l0 w' \<and> (\<forall>d. listed dir w d \<longrightarrow> listed dir w' d)
    \<and> (r = Inr GSetReadOnly \<longrightarrow> (\<exists>dev. block_device sys node = Some dev \<and> listed dir w' dev))"
proof -
  obtain ops where ok: "record_ok dir w" "whole_writes w" and ops: "w_log w = ops @ l0"
    and h: "\<And>n ro. OpSetReadOnly n ro \<in> set ops \<Longrightarrow> ro
        \<and> (\<exists>dev l. block_device sys n = Some dev \<and> free_device p mounts sys l dev \<and> listed dir w dev)"
    using i unfolding guarded_since_def by metis
  from guard_cases [OF g ok(2)] show ?thesis
  proof
    assume "w' = w \<and> r \<noteq> Inr GSetReadOnly"
    then show ?thesis using i by simp
  next
    let ?line = "\<lambda>dev. OpAppend (join dir RECORD_NAME) (guard_line dev node)" and ?ro = "OpSetReadOnly node True"
    assume "\<exists>dev. block_device sys node = Some dev \<and> is_hardware sys (w_log w) dev
        \<and> dev \<notin> set (protected p mounts sys (w_log w)) \<and> \<not> is_read_only sys (w_log w) dev \<and> touches {key_of (join dir RECORD_NAME)} w w'
        \<and> (let line = ?line dev; ro = ?ro in
            (record_text dir w' = record_text dir w \<and> w_log w' = line # w_log w \<and> r \<noteq> Inr GSetReadOnly)
            \<or> (record_text dir w' = record_text dir w @ guard_line dev node \<and> w_log w' = ro # line # w_log w))"
    then obtain dev where d: "block_device sys node = Some dev" "free_device p mounts sys (w_log w) dev" "whole_writes w'"
      and c: "(record_text dir w' = record_text dir w \<and> w_log w' = ?line dev # w_log w \<and> r \<noteq> Inr GSetReadOnly)
          \<or> (record_text dir w' = record_text dir w @ guard_line dev node \<and> w_log w' = ?ro # ?line dev # w_log w)"
      using ok(2) whole_writes_touches by (auto simp: free_device_def protected_closure Let_def)
    from c show ?thesis
    proof
      assume a: "record_text dir w' = record_text dir w \<and> w_log w' = ?line dev # w_log w \<and> r \<noteq> Inr GSetReadOnly"
      then have "record_ok dir w'" "\<And>e. listed dir w' e = listed dir w e" using ok(1) by (simp_all add: record_ok_def listed_def)
      moreover have "w_log w' = (?line dev # ops) @ l0" using a ops by simp
      ultimately show ?thesis unfolding guarded_since_def using a d(3) h by fastforce
    next
      assume a: "record_text dir w' = record_text dir w @ guard_line dev node \<and> w_log w' = ?ro # ?line dev # w_log w"
      note n = record_grows [OF ok(1), of w' dev node]
      have "w_log w' = (?ro # ?line dev # ops) @ l0" using a ops by simp
      moreover have "ro \<and> (\<exists>dev l. block_device sys n = Some dev \<and> free_device p mounts sys l dev \<and> listed dir w' dev)"
        if "OpSetReadOnly n ro \<in> set (?ro # ?line dev # ops)" for n ro
        using that h [of n ro] d(1,2) n a by auto
      ultimately have "guarded_since p mounts sys dir l0 w'" unfolding guarded_since_def using a n(1) d(3) by blast
      then show ?thesis using a n d(1) by auto
    qed
  qed
qed

lemma sweep_loop_keeps:
  assumes "sweep_loop p mounts sys dir devs made w = (made', w')" "guarded_since p mounts sys dir l0 w"
    "\<forall>d\<in>set made. listed dir w d"
  shows "guarded_since p mounts sys dir l0 w' \<and> (\<forall>d\<in>set made'. listed dir w' d)"
  using assms
proof (induction devs arbitrary: made w)
  case (Cons dn devs)
  obtain dev name where dn: "dn = (dev, name)" by fastforce
  let ?node = "node_of sys (w_log w) name"
  show ?case
  proof (cases "block_device sys ?node = Some dev")
    case False
    then show ?thesis using Cons dn by (simp add: Let_def)
  next
    case True
    obtain r w1 where g: "guard ?node p mounts sys dir w = (r, w1)" by fastforce
    note k = guard_keeps [OF g Cons.prems(2)]
    show ?thesis
    proof (cases "r = Inr GSetReadOnly")
      case set: True
      then have "sweep_loop p mounts sys dir devs (made @ [dev]) w1 = (made', w')"
        using Cons.prems(1) dn True g by (simp add: Let_def)
      then show ?thesis using Cons.IH k Cons.prems(3) set True by auto
    next
      case other: False
      then have "sweep_loop p mounts sys dir devs made w1 = (made', w')"
        using Cons.prems(1) dn True g by (auto simp: Let_def split: sum.splits guarded.splits)
      then show ?thesis using Cons.IH k Cons.prems(3) by auto
    qed
  qed
qed simp

lemma guard_fault: "guard node p mounts sys dir w = (r, w') \<Longrightarrow> w_fault w' = w_fault w"
  by (auto simp: guard_def set_read_only_def record_device_def touches_def split: option.splits if_splits prod.splits
      dest!: append_file_touches act_only_touches [where K = "{}"])

lemma sweep_loop_fault: "w_fault (snd (sweep_loop p mounts sys dir devs made w)) = w_fault w"
proof (induction devs arbitrary: made w)
  case (Cons dn devs)
  then show ?case
    by (cases dn) (auto simp: Let_def guard_fault split: prod.splits sum.splits guarded.splits)
qed simp

subsection \<open>Release\<close>

lemma release_loop_frees:
  assumes "release_loop sys ds n w = (m, w')" "calm w"
  shows "calm w' \<and> (\<exists>ops. w_log w' = ops @ w_log w \<and> (\<forall>dev node. (dev, node) \<in> set ds
      \<longrightarrow> block_device sys (join ''/dev/block'' (dev_text dev)) = Some dev
      \<longrightarrow> (\<exists>q. block_device sys q = Some dev \<and> OpSetReadOnly q False \<in> set ops)))"
  using assms
proof (induction ds arbitrary: n w)
  case (Cons d ds)
  obtain dev node where d: "d = (dev, node)" by fastforce
  let ?f = "find (\<lambda>p. block_device sys p = Some dev) [node, join ''/dev/block'' (dev_text dev)]"
  show ?case
  proof (cases ?f)
    case None
    then have "release_loop sys ds n w = (m, w')" using Cons.prems(1) d by (simp split: if_splits)
    from Cons.IH [OF this Cons.prems(2)] None show ?thesis by (auto simp: d split: if_splits)
  next
    case (Some q)
    then have q: "block_device sys q = Some dev" by (auto split: if_splits)
    let ?w1 = "w\<lparr>w_log := OpSetReadOnly q False # w_log w\<rparr>"
    have s: "set_read_only q False w = (None, ?w1)"
      using Cons.prems(2) by (simp add: set_read_only_def act_only_def calm_attempt)
    have "release_loop sys (d # ds) n w = release_loop sys ds (Suc n) ?w1"
      using Some by (simp only: d release_loop.simps s option.case prod.case)
    then have r: "release_loop sys ds (Suc n) ?w1 = (m, w')" using Cons.prems(1) by simp
    have c: "calm ?w1" using Cons.prems(2) by (simp add: calm_def)
    from Cons.IH [OF r c] obtain ops where o: "calm w'" "w_log w' = ops @ OpSetReadOnly q False # w_log w"
      and h: "\<forall>dev node. (dev, node) \<in> set ds \<longrightarrow> block_device sys (join ''/dev/block'' (dev_text dev)) = Some dev
        \<longrightarrow> (\<exists>q. block_device sys q = Some dev \<and> OpSetReadOnly q False \<in> set ops)" by auto
    have "w_log w' = (ops @ [OpSetReadOnly q False]) @ w_log w" using o(2) by simp
    moreover have "\<exists>x. block_device sys x = Some e \<and> OpSetReadOnly x False \<in> set (ops @ [OpSetReadOnly q False])"
      if "(e, nd) \<in> set (d # ds)" "block_device sys (join ''/dev/block'' (dev_text e)) = Some e" for e nd
      using that h q d by auto
    ultimately show ?thesis using o(1) by blast
  qed
qed simp

lemma recorded_calm:
  assumes "calm w" "record_ok dir w" "recorded dir w = (ds, w')" "listed dir w dev"
  shows "\<exists>node. (dev, node) \<in> set ds" "calm w'" "\<exists>ops. w_log w' = ops @ w_log w"
proof -
  have l: "record_text dir w \<noteq> []" using assms(4) by (auto simp: listed_def)
  then obtain b where b: "node_at w (join dir RECORD_NAME) = Some (File b)" "record_text dir w = b"
    by (auto simp: record_text_def split: option.splits node.splits)
  then show "\<exists>node. (dev, node) \<in> set ds" "calm w'" "\<exists>ops. w_log w' = ops @ w_log w"
    using assms by (auto simp: recorded_def read_file_def calm_attempt record_ok_def listed_def) (simp add: calm_def)
qed

section \<open>Properties\<close>


definition sample_plan :: plan where
  "sample_plan =
     \<lparr>p_version = 2, p_hidden_root = ''/mnt'', p_hidden_dev = Some ''8:17'', p_accepted_decoy_storage = None,
      p_upper = ''/mnt/root/upper'', p_work = ''/mnt/root/work'', p_owner = None,
      p_decoy_root = \<lparr>dr_source = ''/dev/sda'', dr_fstype = ''ext4'', dr_data = None\<rparr>,
      p_decoy = \<lparr>rs_init = ''/sbin/init'', rs_system = None\<rparr>, p_hidden = \<lparr>rs_init = ''/sbin/init'', rs_system = None\<rparr>,
      p_policy_mounts = [], p_masks = [''swap.swap''], p_boot_masks = [], p_session_units = [], p_backend = [],
      p_tools = \<lparr>tool_systemctl = None, tool_dmsetup = None\<rparr>, p_armed = None, p_entered_at = None,
      p_run_noexec = False, p_carried = [], p_decoy_mounts = [], p_read_only_disks = True, p_failed_at_entry = [],
      p_kernel_settings = []\<rparr>"

text \<open>Two disks: \<^verbatim>\<open>sda\<close> holds the decoy root, \<^verbatim>\<open>sdc\<close> is a drive the session does not use.\<close>

definition sample_sysfs :: sysfs where
  "sample_sysfs =
     \<lparr>sys_root = ''/sys'',
      block_device = (\<lambda>p. if p = ''/dev/sda'' \<or> p = ''/dev/block/8:0'' then Some (DevNum 8 0)
         else if p = ''/dev/sdc'' \<or> p = ''/dev/block/8:32'' then Some (DevNum 8 32)
         else if p = ''/dev/sdd'' then Some (DevNum 8 48) else None),
      sys_real = Some,
      sys_text = (\<lambda>_ p. if p = ''/sys/class/block/sda/dev'' then Some ''8:0'' else if p = ''/sys/class/block/sdc/dev'' then Some ''8:32'' else None),
      sys_exists = (\<lambda>p. ends_with ''/device'' p),
      sys_names = (\<lambda>p. if p = ''/sys/class/block'' then [''sda'', ''sdc''] else [])\<rparr>"

definition guard_world :: "(op list \<Rightarrow> io_error option) \<Rightarrow> (op list \<Rightarrow> nat option) \<Rightarrow> world" where
  "guard_world fault short =
     \<lparr>w_fs = [(key_of ''/run'', Dir), (key_of ''/run/x'', Dir)], w_log = [], w_fault = fault, w_dev = (\<lambda>_. 0), w_torn = (\<lambda>_ _. False),
      w_short = short, w_points = (\<lambda>_. []), w_mode = (\<lambda>_. 0), w_reply = (\<lambda>_. [])\<rparr>"

text \<open>C17: a sweep only ever sets devices read-only that are hardware, writable and not part of what the
  session stands on, and each of them is listed by the record the way back reads, whichever operations
  the host refused, as long as a refused write has written nothing.\<close>

theorem sweep_spares_and_records:
  assumes "sweep p mounts sys dir w = (made, w')" "record_ok dir w" "whole_writes w"
  shows "\<exists>ops. w_log w' = ops @ w_log w
    \<and> (\<forall>node ro. OpSetReadOnly node ro \<in> set ops \<longrightarrow> ro
         \<and> (\<exists>dev l. block_device sys node = Some dev \<and> free_device p mounts sys l dev \<and> listed dir w' dev))
    \<and> (\<forall>dev\<in>set made. listed dir w' dev)"
proof -
  have "guarded_since p mounts sys dir (w_log w) w" using assms by (simp add: guarded_since_def)
  from sweep_loop_keeps [OF assms(1) [unfolded sweep_def] this] show ?thesis
    unfolding guarded_since_def by auto
qed

definition sample_swept :: "dev_num list \<times> world" where
  "sample_swept = sweep sample_plan [] sample_sysfs ''/run/x'' (guard_world (\<lambda>_. None) (\<lambda>_. None))"

lemma sample_swept_made: "fst sample_swept = [DevNum 8 32]"
  by code_simp

lemma guard_world_ok: "record_ok ''/run/x'' (guard_world (\<lambda>_. None) (\<lambda>_. None))" "whole_writes (guard_world fault (\<lambda>_. None))"
proof -
  have "record_text ''/run/x'' (guard_world (\<lambda>_. None) (\<lambda>_. None)) = []" by code_simp
  then show "record_ok ''/run/x'' (guard_world (\<lambda>_. None) (\<lambda>_. None))" by (simp add: record_ok_def)
qed (simp add: whole_writes_def guard_world_def)

theorem sweep_spares_and_records_witness:
  "fst sample_swept = [DevNum 8 32] \<and> listed ''/run/x'' (snd sample_swept) (DevNum 8 32)"
proof -
  have "sweep sample_plan [] sample_sysfs ''/run/x'' (guard_world (\<lambda>_. None) (\<lambda>_. None)) = (fst sample_swept, snd sample_swept)"
    by (simp add: sample_swept_def)
  from sweep_spares_and_records [OF this guard_world_ok] sample_swept_made show ?thesis by auto
qed



text \<open>The first append stops after four bytes; then the guard is asked for another drive.\<close>

definition torn_world :: world where
  "torn_world = snd (guard ''/dev/sdc'' sample_plan [] sample_sysfs ''/run/x''
     (guard_world (\<lambda>l. case l of [OpAppend _ _] \<Rightarrow> Some (OtherError ''no space'') | _ \<Rightarrow> None) (\<lambda>_. Some 4)))"

text \<open>A record torn by a failed append loses the next device.  The guard then sets a device read-only that the
  record does not list, so the way back leaves it read-only.\<close>

theorem torn_record_loses_device:
  "fst (guard ''/dev/sdd'' sample_plan [] sample_sysfs ''/run/x'' torn_world) = Inr GSetReadOnly
   \<and> block_device sample_sysfs ''/dev/sdd'' = Some (DevNum 8 48)
   \<and> fst (recorded ''/run/x'' (snd (guard ''/dev/sdd'' sample_plan [] sample_sysfs ''/run/x'' torn_world))) = []"
proof (intro conjI)
  show "fst (guard ''/dev/sdd'' sample_plan [] sample_sysfs ''/run/x'' torn_world) = Inr GSetReadOnly" by code_simp
  show "block_device sample_sysfs ''/dev/sdd'' = Some (DevNum 8 48)" by code_simp
  show "fst (recorded ''/run/x'' (snd (guard ''/dev/sdd'' sample_plan [] sample_sysfs ''/run/x'' torn_world))) = []" by code_simp
qed

end
