(* ===== verification/Network.thy ===== *)
theory Network
  imports Run_Records Disk_Guard
begin

text \<open>
  The decoy's network identity, recorded at entry and put back on the way back:
  \<^verbatim>\<open>nails-teardown/src/whole_root/network.rs\<close>.  What the kernel lists below \<^verbatim>\<open>/sys/class/net\<close> is a record of
  answers, \<open>net_view\<close>; the hostname and the runtime directories are files of the world, the calls of
  \<^verbatim>\<open>ip\<close> operations of its log.  The \<^verbatim>\<open>serde\<close> format of the record is a parameter.
\<close>

section \<open>Definitions\<close>

definition NET_RECORD_NAME :: bytes where "NET_RECORD_NAME = ''net-identity''"
definition PROC_HOSTNAME :: path where "PROC_HOSTNAME = ''/proc/sys/kernel/hostname''"
definition SYS_CLASS_NET :: path where "SYS_CLASS_NET = ''/sys/class/net''"
definition RUN_DIRS :: "path list" where "RUN_DIRS = [''NetworkManager/devices'', ''systemd/resolve/netif'']"
definition RUN_MAX_DEPTH :: nat where "RUN_MAX_DEPTH = 4"
definition RUN_MAX_BYTES :: int where "RUN_MAX_BYTES = 2 ^ 20"

record net_link =
  ln_index :: "32 word"
  ln_name :: bytes
  ln_virtual :: bool
  ln_mac :: "bytes option"

record run_entry =
  re_path :: path
  re_kind :: record_kind

record network_record =
  nr_links :: "net_link list"
  nr_hostname :: bytes
  nr_etc_hostname_present :: bool
  nr_run :: "run_entry list"

record restore_plan =
  rp_delete :: "bytes list"
  rp_set_mac :: "(bytes \<times> bytes) list"
  rp_hostname :: "bytes option"

subsection \<open>Reading\<close>

record net_view =
  nv_names :: "path \<Rightarrow> bytes list option"
  nv_text :: "path \<Rightarrow> bytes option"
  nv_exists :: "path \<Rightarrow> bool"

definition read_trimmed :: "net_view \<Rightarrow> path \<Rightarrow> bytes option" where
  "read_trimmed nv p = map_option trim_end (nv_text nv p)"

definition read_net_link :: "net_view \<Rightarrow> path \<Rightarrow> bytes \<Rightarrow> net_link option" where
  "read_net_link nv class name =
     (let dir = join class name in
      case Option.bind (read_trimmed nv (join dir ''ifindex'')) parse_u32 of
        None \<Rightarrow> None
      | Some index \<Rightarrow>
          Some \<lparr>ln_index = index, ln_name = utf8_lossy name, ln_virtual = (\<not> nv_exists nv (join dir ''device'')),
                ln_mac = (case read_trimmed nv (join dir ''address'') of
                            None \<Rightarrow> None | Some mac \<Rightarrow> if mac = [] then None else Some mac)\<rparr>)"

definition observe_links :: "net_view \<Rightarrow> path \<Rightarrow> net_link list" where
  "observe_links nv class =
     (case nv_names nv class of
        None \<Rightarrow> []
      | Some names \<Rightarrow> sort_key ln_name (filter_map (read_net_link nv class) names))"

definition ascii_ws :: "char \<Rightarrow> bool" where
  "ascii_ws c \<longleftrightarrow> c \<in> {CHR '' '', CHR 0x09, CHR 0x0A, CHR 0x0C, CHR 0x0D}"

definition read_hostname :: "path \<Rightarrow> world \<Rightarrow> bytes \<times> world" where
  "read_hostname p w =
     (case read_file p w of
        (Inl _, w1) \<Rightarrow> ([], w1)
      | (Inr b, w1) \<Rightarrow> (rev (dropWhile ascii_ws (rev b)), w1))"

subsection \<open>The plan of the way back\<close>

definition restore_plan_of :: "network_record \<Rightarrow> net_link list \<Rightarrow> bytes \<Rightarrow> restore_plan" where
  "restore_plan_of r current current_hostname =
     \<lparr>rp_delete = map ln_name (filter (\<lambda>k. ln_virtual k \<and> \<not> (\<exists>l\<in>set (nr_links r). ln_name l = ln_name k)) current),
      rp_set_mac =
        filter_map (\<lambda>l. case ln_mac l of
            None \<Rightarrow> None
          | Some mac \<Rightarrow>
              (case find (\<lambda>k. ln_name k = ln_name l) current of
                 None \<Rightarrow> None
               | Some k \<Rightarrow> if ln_mac k \<noteq> Some mac then Some (ln_name l, mac) else None)) (nr_links r),
      rp_hostname =
        (if \<not> nr_etc_hostname_present r \<and> nr_hostname r \<noteq> [] \<and> current_hostname \<noteq> nr_hostname r
         then Some (nr_hostname r) else None)\<rparr>"

text \<open>The calls of \<^verbatim>\<open>ip\<close>, which is found only when there is work.\<close>

definition apply_links :: "path option \<Rightarrow> restore_plan \<Rightarrow> world \<Rightarrow> world" where
  "apply_links ip pl w =
     (if rp_delete pl = [] \<and> rp_set_mac pl = [] then w
      else (case ip of
              None \<Rightarrow> w
            | Some tool \<Rightarrow>
                foldl (\<lambda>w args. snd (act_only (OpTool (tool # args)) w)) w
                  (map (\<lambda>name. [''link'', ''delete'', ''dev'', name]) (rp_delete pl)
                   @ map (\<lambda>(name, mac). [''link'', ''set'', ''dev'', name, ''address'', mac]) (rp_set_mac pl))))"

definition write_hostname :: "path \<Rightarrow> bytes \<Rightarrow> world \<Rightarrow> io_error option \<times> world" where
  "write_hostname p h w = rewrite_file False p h w"

subsection \<open>The runtime directories\<close>

function collect_run :: "path \<Rightarrow> path \<Rightarrow> nat \<Rightarrow> run_entry list \<times> nat \<Rightarrow> world \<Rightarrow> (io_error + run_entry list \<times> nat) \<times> world"
  and collect_run_each :: "path \<Rightarrow> path \<Rightarrow> nat \<Rightarrow> bytes list \<Rightarrow> run_entry list \<times> nat \<Rightarrow> world \<Rightarrow> (io_error + run_entry list \<times> nat) \<times> world" where
  "collect_run run rel depth acc w =
     (case lstat (join run rel) w of
        (Inl e, w1) \<Rightarrow> (if e = NotFound then Inr acc else Inl e, w1)
      | (Inr Dir, w1) \<Rightarrow>
          (let acc1 = (fst acc @ [\<lparr>re_path = rel, re_kind = KDir\<rparr>], snd acc) in
           if depth < RUN_MAX_DEPTH
           then (case read_dir (join run rel) w1 of
                   (Inl e, w2) \<Rightarrow> (Inl e, w2)
                 | (Inr names, w2) \<Rightarrow> collect_run_each run rel (depth + 1) names acc1 w2)
           else (Inr acc1, w1))
      | (Inr (File _), w1) \<Rightarrow>
          (case read_file (join run rel) w1 of
             (Inl e, w2) \<Rightarrow> (Inl e, w2)
           | (Inr content, w2) \<Rightarrow>
               let total = snd acc + length content in
               if int total > RUN_MAX_BYTES then (Inl (OtherError ''the runtime state is too large to copy''), w2)
               else (Inr (fst acc @ [\<lparr>re_path = rel, re_kind = KFile content\<rparr>], total), w2))
      | (Inr (Link _), w1) \<Rightarrow>
          (case read_link (join run rel) w1 of
             (Inl e, w2) \<Rightarrow> (Inl e, w2)
           | (Inr t, w2) \<Rightarrow> (Inr (fst acc @ [\<lparr>re_path = rel, re_kind = KLink t\<rparr>], snd acc), w2))
      | (Inr Socket, w1) \<Rightarrow> (Inr acc, w1))"
| "collect_run_each run rel depth [] acc w = (Inr acc, w)"
| "collect_run_each run rel depth (name # names) acc w =
     (case collect_run run (join rel name) depth acc w of
        (Inl e, w1) \<Rightarrow> (Inl e, w1)
      | (Inr acc1, w1) \<Rightarrow> collect_run_each run rel depth names acc1 w1)"
  by pat_completeness auto
termination
  by (relation "measures
        [\<lambda>x. case x of Inl (_, _, depth, _, _) \<Rightarrow> 5 - depth | Inr (_, _, depth, _, _, _) \<Rightarrow> 5 - depth,
         \<lambda>x. case x of Inl _ \<Rightarrow> 0 | Inr (_, _, _, names, _, _) \<Rightarrow> Suc (length names)]")
    (auto simp: RUN_MAX_DEPTH_def)

fun snapshot_run_loop :: "path \<Rightarrow> path list \<Rightarrow> run_entry list \<times> nat \<Rightarrow> world \<Rightarrow> run_entry list \<times> world" where
  "snapshot_run_loop run [] acc w = (fst acc, w)"
| "snapshot_run_loop run (dir # dirs) acc w =
     (case collect_run run dir 0 acc w of
        (Inl _, w1) \<Rightarrow> ([], w1)
      | (Inr acc1, w1) \<Rightarrow> snapshot_run_loop run dirs acc1 w1)"

definition snapshot_run :: "path \<Rightarrow> world \<Rightarrow> run_entry list \<times> world" where
  "snapshot_run run w = snapshot_run_loop run RUN_DIRS ([], 0) w"

definition capture :: "net_view \<Rightarrow> path \<Rightarrow> path \<Rightarrow> path \<Rightarrow> path \<Rightarrow> world \<Rightarrow> network_record \<times> world" where
  "capture nv class proc_hostname etc_hostname run w =
     (case read_hostname proc_hostname w of
        (h, w1) \<Rightarrow>
     (case lstat etc_hostname w1 of
        (e, w2) \<Rightarrow>
     (case snapshot_run run w2 of
        (es, w3) \<Rightarrow>
          (\<lparr>nr_links = observe_links nv class, nr_hostname = h, nr_etc_hostname_present = (\<not> isl e), nr_run = es\<rparr>, w3))))"

definition create_parent :: "path \<Rightarrow> world \<Rightarrow> io_error option \<times> world" where
  "create_parent p w = (case path_parent p of None \<Rightarrow> (None, w) | Some k \<Rightarrow> create_dir_all (show_key k) w)"

definition restore_entry :: "path \<Rightarrow> run_entry \<Rightarrow> world \<Rightarrow> world" where
  "restore_entry run e w =
     (let p = join run (re_path e) in
      case re_kind e of
        KDir \<Rightarrow> snd (create_dir_all p w)
      | KFile content \<Rightarrow> (case create_parent p w of (Some _, w1) \<Rightarrow> w1 | (None, w1) \<Rightarrow> snd (rewrite_file True p content w1))
      | KLink t \<Rightarrow> (case create_parent p w of (Some _, w1) \<Rightarrow> w1 | (None, w1) \<Rightarrow> snd (symlink t p w1)))"

definition restore_run :: "path \<Rightarrow> network_record \<Rightarrow> world \<Rightarrow> world" where
  "restore_run run r w =
     foldl (\<lambda>w e. restore_entry run e w) (foldl (\<lambda>w dir. snd (remove_dir_all (join run dir) w)) w RUN_DIRS) (nr_run r)"

definition is_run_path :: "path \<Rightarrow> bool" where
  "is_run_path p \<longleftrightarrow> (\<forall>c\<in>set (components p). is_normal c) \<and> (\<exists>dir\<in>set RUN_DIRS. path_starts_with p dir)"

definition decode_network :: "(bytes \<Rightarrow> network_record option) \<Rightarrow> bytes \<Rightarrow> network_record option" where
  "decode_network read_record b =
     (case read_record b of
        None \<Rightarrow> None
      | Some r \<Rightarrow> if \<forall>e\<in>set (nr_run r). is_run_path (re_path e) then Some r else None)"

definition network_restore ::
    "path \<Rightarrow> net_view \<Rightarrow> path \<Rightarrow> path \<Rightarrow> path option \<Rightarrow> (bytes \<Rightarrow> network_record option) \<Rightarrow> bytes option \<Rightarrow> world \<Rightarrow> world" where
  "network_restore run nv class proc_hostname ip read_record saved w =
     (case Option.bind saved (decode_network read_record) of
        None \<Rightarrow> w
      | Some r \<Rightarrow>
          (case read_hostname proc_hostname w of
             (h, w1) \<Rightarrow>
               (let pl = restore_plan_of r (observe_links nv class) h;
                    w2 = apply_links ip pl w1;
                    w3 = (case rp_hostname pl of None \<Rightarrow> w2 | Some n \<Rightarrow> snd (write_hostname proc_hostname n w2))
                in restore_run run r w3)))"

section \<open>Lemmas\<close>

subsection \<open>What the calls of ip do\<close>

text \<open>The links after the calls of a plan, as \<^verbatim>\<open>ip link delete\<close> and \<^verbatim>\<open>ip link set address\<close> document them.\<close>

definition ip_delete :: "net_link list \<Rightarrow> bytes \<Rightarrow> net_link list" where
  "ip_delete ks name = filter (\<lambda>k. ln_name k \<noteq> name) ks"

definition ip_set_mac :: "net_link list \<Rightarrow> bytes \<times> bytes \<Rightarrow> net_link list" where
  "ip_set_mac ks nm = map (\<lambda>k. if ln_name k = fst nm then k\<lparr>ln_mac := Some (snd nm)\<rparr> else k) ks"

definition after_plan :: "restore_plan \<Rightarrow> net_link list \<Rightarrow> net_link list" where
  "after_plan pl ks = foldl ip_set_mac (foldl ip_delete ks (rp_delete pl)) (rp_set_mac pl)"

definition mac_in :: "(bytes \<times> bytes) list \<Rightarrow> net_link \<Rightarrow> net_link" where
  "mac_in ms k = (case find (\<lambda>nm. fst nm = ln_name k) (rev ms) of None \<Rightarrow> k | Some nm \<Rightarrow> k\<lparr>ln_mac := Some (snd nm)\<rparr>)"

lemma foldl_ip_delete: "foldl ip_delete ks ns = filter (\<lambda>k. ln_name k \<notin> set ns) ks"
  by (induction ns arbitrary: ks) (auto simp: ip_delete_def)

lemma mac_in_name [simp]: "ln_name (mac_in ms k) = ln_name k" "ln_virtual (mac_in ms k) = ln_virtual k"
  by (simp_all add: mac_in_def split: option.split)

lemma find_append: "find P (xs @ ys) = (case find P xs of None \<Rightarrow> find P ys | Some x \<Rightarrow> Some x)"
  by (induction xs) auto

lemma foldl_ip_set_mac: "foldl ip_set_mac ks ms = map (mac_in ms) ks"
proof (induction ms rule: rev_induct)
  case (snoc m ms)
  have "mac_in (ms @ [m]) k = (if ln_name (mac_in ms k) = fst m then (mac_in ms k)\<lparr>ln_mac := Some (snd m)\<rparr> else mac_in ms k)" for k
    by (auto simp: mac_in_def split: option.splits)
  with snoc show ?case by (simp add: ip_set_mac_def)
qed (simp add: mac_in_def)

lemma after_plan_eq:
  "after_plan pl ks = map (mac_in (rp_set_mac pl)) (filter (\<lambda>k. ln_name k \<notin> set (rp_delete pl)) ks)"
  by (simp add: after_plan_def foldl_ip_delete foldl_ip_set_mac)

lemma find_distinct: "distinct (map f xs) \<Longrightarrow> x \<in> set xs \<Longrightarrow> find (\<lambda>y. f y = f x) xs = Some x"
  by (induction xs) auto

lemma set_mac_names:
  assumes "(n, m) \<in> set (rp_set_mac (restore_plan_of r cur h))"
  shows "\<exists>l\<in>set (nr_links r). ln_name l = n \<and> ln_mac l = Some m"
  using assms by (auto simp: restore_plan_of_def set_filter_map split: option.splits if_splits)

text \<open>The recorded address wins for a link that was there at entry.\<close>

lemma mac_in_recorded:
  assumes "distinct (map ln_name (nr_links r))" "distinct (map ln_name cur)" "l \<in> set (nr_links r)" "k \<in> set cur"
    "ln_name k = ln_name l" "ln_mac l = Some m"
  shows "ln_mac (mac_in (rp_set_mac (restore_plan_of r cur h)) k) = Some m"
proof -
  let ?ms = "rp_set_mac (restore_plan_of r cur h)"
  have f: "find (\<lambda>k. ln_name k = ln_name l) cur = Some k" using find_distinct [OF assms(2,4)] assms(5) by simp
  show ?thesis
  proof (cases "find (\<lambda>nm. fst nm = ln_name k) (rev ?ms)")
    case None
    then have "(ln_name l, m) \<notin> set ?ms" using assms(5) by (auto simp: find_None_iff)
    then have "ln_mac k = Some m"
      using assms(3,6) f by (auto simp: restore_plan_of_def set_filter_map split: option.splits if_splits)
    with None show ?thesis by (simp add: mac_in_def)
  next
    case (Some nm)
    then have "nm \<in> set ?ms" "fst nm = ln_name k" using find_SomeD [OF Some] by auto
    then obtain l' where "l' \<in> set (nr_links r)" "ln_name l' = ln_name k" "ln_mac l' = Some (snd nm)"
      using set_mac_names [of "fst nm" "snd nm" r cur h] by (metis prod.collapse)
    then have "l' = l" using assms(1,3,5) by (simp add: distinct_map inj_on_def)
    with Some assms(6) \<open>ln_mac l' = Some (snd nm)\<close> show ?thesis by (simp add: mac_in_def)
  qed
qed

lemma no_set_mac:
  assumes "\<And>l k m. l \<in> set (nr_links r) \<Longrightarrow> ln_mac l = Some m \<Longrightarrow> find (\<lambda>k. ln_name k = ln_name l) ks = Some k \<Longrightarrow> ln_mac k = Some m"
  shows "rp_set_mac (restore_plan_of r ks h) = []"
proof -
  have "(case ln_mac l of None \<Rightarrow> None
      | Some mac \<Rightarrow> (case find (\<lambda>k. ln_name k = ln_name l) ks of
           None \<Rightarrow> None
         | Some k \<Rightarrow> if ln_mac k \<noteq> Some mac then Some (ln_name l, mac) else None)) = None"
    if "l \<in> set (nr_links r)" for l
  proof (cases "ln_mac l")
    case m: (Some m)
    show ?thesis
    proof (cases "find (\<lambda>k. ln_name k = ln_name l) ks")
      case (Some k)
      from assms [OF that m Some] Some m show ?thesis by simp
    qed (simp add: m)
  qed simp
  then show ?thesis by (simp only: restore_plan_of_def restore_plan.simps filter_map_Nil_iff) blast
qed

subsection \<open>Where the way back writes\<close>

lemma component_name_ok: "Normal n \<in> set (components p) \<Longrightarrow> name_ok n"
proof -
  assume "Normal n \<in> set (components p)"
  then have "Normal n \<in> set (filter_map component_of (split_on slash p))" by (auto simp: components_def split: if_splits)
  then obtain s where s: "s \<in> set (split_on slash p)" "component_of s = Some (Normal n)" by (auto simp: set_filter_map)
  then have "s = n" by (auto simp: component_of_def split: if_splits)
  with s split_on_no_delim [OF s(1)] show ?thesis by (simp add: name_ok_def)
qed

definition plain_path :: "path \<Rightarrow> bool" where
  "plain_path p \<longleftrightarrow> is_absolute p \<and> (\<forall>c\<in>set (components p). is_plain c)"

lemma concat_rel_of: "concat (map (\<lambda>n. slash # n) (n # ns)) = slash # rel_of (n # ns)"
proof (induction ns arbitrary: n)
  case (Cons m ns)
  show ?case using Cons [of m] by (simp only: list.map concat.simps join_with.simps) simp
qed simp

lemma key_show_key:
  assumes "\<forall>n\<in>set ns. name_ok n"
  shows "key_of (show_key (RootDir # map Normal ns)) = RootDir # map Normal ns"
proof (cases ns)
  case (Cons n ms)
  have "concat (map (\<lambda>n. slash # n) (n # ms)) = join ''/'' (rel_of (n # ms))"
    using rel_of_not_absolute [of "n # ms"] assms Cons unfolding concat_rel_of by (simp add: join_def)
  then have "show_key (RootDir # map Normal ns) = join ''/'' (rel_of ns)" by (simp add: Cons comp_def)
  then show ?thesis using key_join_rel [of "''/''" ns] assms by (simp add: is_absolute_def)
qed simp

text \<open>The keys the way back may change: the hostname file, the runtime directories, what is below them and the
  directories on the way to them.\<close>

definition net_area :: "path \<Rightarrow> path \<Rightarrow> key set" where
  "net_area run host = insert (key_of host) (\<Union>d\<in>set RUN_DIRS. unit_area (join run d))"

lemma run_dirs_names:
  assumes "d \<in> set RUN_DIRS"
  obtains ns where "components d = map Normal ns" "\<not> is_absolute d" "ns \<noteq> []"
proof -
  have "components ''NetworkManager/devices'' = map Normal [''NetworkManager'', ''devices'']"
    "components ''systemd/resolve/netif'' = map Normal [''systemd'', ''resolve'', ''netif'']" by code_simp+
  moreover have "\<not> is_absolute d" "d = ''NetworkManager/devices'' \<or> d = ''systemd/resolve/netif''"
    using assms by (auto simp: RUN_DIRS_def is_absolute_def)
  ultimately show thesis using that by blast
qed

lemma key_join_plain:
  assumes "is_absolute run" "\<forall>c\<in>set (components p). is_normal c" "components p \<noteq> []"
  shows "key_of (join run p) = key_of run @ components p"
proof -
  have n: "\<not> is_absolute p" using assms(2) components_absolute [of p] by (auto simp: is_normal_def)
  have "components p = filter_map component_of (split_on slash p)"
    using assms(2) n by (auto simp: components_def is_normal_def split: if_splits)
  then show ?thesis using components_join [OF assms(1) n] by simp
qed

lemma normal_names: "\<forall>c\<in>set cs. is_normal c \<Longrightarrow> \<exists>ns. cs = map Normal ns"
  by (induction cs) (auto simp: is_normal_def split: component.splits intro: exI [of _ "_ # _"])

lemma plain_run_key:
  assumes "plain_path p"
  obtains ns where "key_of p = RootDir # map Normal ns" "\<forall>n\<in>set ns. name_ok n"
proof -
  obtain cs where cs: "key_of p = RootDir # cs" using components_absolute assms by (auto simp: plain_path_def)
  have "RootDir \<notin> set cs" "CurDir \<notin> set cs"
    using cs RootDir_only_first [of "split_on slash p"] CurDir_only_first [of "split_on slash p"] assms
    by (auto simp: components_def plain_path_def)
  then have "\<forall>c\<in>set cs. is_normal c" using assms cs
    by (auto simp: plain_path_def is_plain_def is_normal_def split: component.splits)
  then obtain ns where "cs = map Normal ns" using normal_names by blast
  then show thesis using that cs component_name_ok [of _ p] by auto
qed

lemma run_path_key:
  assumes "plain_path run" "is_run_path p"
  obtains d ns where "d \<in> set RUN_DIRS" "prefix (key_of (join run d)) (key_of (join run p))"
    "key_of (join run p) = RootDir # map Normal ns" "\<forall>n\<in>set ns. name_ok n" "ns \<noteq> []"
proof -
  obtain d where d: "d \<in> set RUN_DIRS" "prefix (components d) (components p)"
    using assms(2) by (auto simp: is_run_path_def path_starts_with_def)
  obtain ds where ds: "components d = map Normal ds" "\<not> is_absolute d" "ds \<noteq> []" by (rule run_dirs_names [OF d(1)])
  have abs: "is_absolute run" using assms(1) by (simp add: plain_path_def)
  have n: "\<forall>c\<in>set (components p). is_normal c" using assms(2) by (simp add: is_run_path_def)
  have p: "components p \<noteq> []" using d(2) ds by auto
  have kp: "key_of (join run p) = key_of run @ components p" by (rule key_join_plain [OF abs n p])
  have kd: "key_of (join run d) = key_of run @ components d"
    using ds by (intro key_join_plain [OF abs]) (auto simp: is_normal_def)
  obtain rs where rs: "key_of run = RootDir # map Normal rs" "\<forall>n\<in>set rs. name_ok n" by (rule plain_run_key [OF assms(1)])
  obtain ps where ps: "components p = map Normal ps" using normal_names [OF n] ..
  have "key_of (join run p) = RootDir # map Normal (rs @ ps)" by (simp add: kp rs ps)
  moreover have "\<forall>n\<in>set (rs @ ps). name_ok n" using rs(2) ps component_name_ok [of _ p] by auto
  moreover have "rs @ ps \<noteq> []" using p ps by auto
  moreover have "prefix (key_of (join run d)) (key_of (join run p))" using d(2) by (simp add: kp kd)
  ultimately show thesis using that d(1) by blast
qed

lemma read_hostname_touches: "read_hostname p w = (h, w') \<Longrightarrow> touches K w w'"
  by (auto simp: read_hostname_def split: prod.splits sum.splits dest: read_file_touches)

lemma foldl_touches:
  assumes "\<And>a w. a \<in> set as \<Longrightarrow> touches K w (f w a)"
  shows "touches K w (foldl f w as)"
  using assms
proof (induction as arbitrary: w)
  case (Cons a as)
  have "touches K w (f w a)" using Cons.prems by simp
  moreover have "touches K (f w a) (foldl f (f w a) as)" using Cons by simp
  ultimately show ?case using touches_trans by simp
qed simp

lemma apply_links_touches: "touches K w (apply_links ip pl w)"
proof -
  have "touches K w (snd (act_only a w))" for a w using act_only_touches [of a w] by (cases "act_only a w") auto
  then have "touches K w (foldl (\<lambda>w args. snd (act_only (OpTool (t # args)) w)) w xs)" for t xs by (simp add: foldl_touches)
  then show ?thesis by (simp add: apply_links_def del: foldl_append split: option.split)
qed

lemma create_parent_touches:
  assumes "create_parent p w = (r, w')" "key_of p = RootDir # map Normal ns" "\<forall>n\<in>set ns. name_ok n"
  shows "touches {k. prefix k (key_of p)} w w'"
proof (cases "path_parent p")
  case (Some k)
  then have k: "k = butlast (key_of p)" "ns \<noteq> []" using assms(2) by (auto simp: path_parent_def split: if_splits)
  then have "k = RootDir # map Normal (butlast ns)" using assms(2) by (simp add: map_butlast)
  then have "key_of (show_key k) = k" using key_show_key [of "butlast ns"] assms(3) by (auto dest: in_set_butlastD)
  then have "{k'. prefix k' (key_of (show_key k))} \<subseteq> {k'. prefix k' (key_of p)}"
    using k by (auto intro: prefix_order.trans simp: prefixeq_butlast)
  then show ?thesis
    using create_dir_all_touches [of "show_key k" w r w'] assms(1) Some touches_mono by (auto simp: create_parent_def)
qed (use assms(1) in \<open>simp add: create_parent_def\<close>)

lemma restore_entry_touches:
  assumes "plain_path run" "is_run_path (re_path e)"
  shows "touches (net_area run host) w (restore_entry run e w)"
proof -
  let ?p = "join run (re_path e)"
  obtain d ns where d: "d \<in> set RUN_DIRS" "prefix (key_of (join run d)) (key_of ?p)"
    and k: "key_of ?p = RootDir # map Normal ns" "\<forall>n\<in>set ns. name_ok n" by (rule run_path_key [OF assms])
  have area: "{k. prefix k (key_of ?p)} \<subseteq> net_area run host"
    using d prefix_same_cases by (fastforce simp: net_area_def)
  have own: "{key_of ?p} \<subseteq> net_area run host" using area by auto
  have c: "touches (net_area run host) w w1" if "create_parent ?p w = (r, w1)" for r w1
    using touches_mono [OF create_parent_touches [OF that k] area] .
  have t: "touches (net_area run host) w1 (snd (create_dir_all ?p w1))"
    "touches (net_area run host) w1 (snd (rewrite_file True ?p b w1))"
    "touches (net_area run host) w1 (snd (symlink tg ?p w1))" for w1 b tg
    using create_dir_all_touches [of ?p w1] rewrite_file_touches [of True ?p b w1] symlink_touches [of tg ?p w1] area own touches_mono
    by (metis prod.collapse)+
  show ?thesis
  proof (cases "re_kind e")
    case KDir
    then show ?thesis using t(1) by (simp add: restore_entry_def)
  next
    case (KFile b)
    then show ?thesis using c t(2) touches_trans by (fastforce simp: restore_entry_def Let_def split: prod.splits option.splits)
  next
    case (KLink tg)
    then show ?thesis using c t(3) touches_trans by (fastforce simp: restore_entry_def Let_def split: prod.splits option.splits)
  qed
qed

lemma restore_run_touches:
  assumes "plain_path run" "\<forall>e\<in>set (nr_run r). is_run_path (re_path e)"
  shows "touches (net_area run host) w (restore_run run r w)"
proof -
  have "touches (net_area run host) v (snd (remove_dir_all (join run d) v))" if "d \<in> set RUN_DIRS" for d v
  proof -
    have "{k. prefix (key_of (join run d)) k} \<subseteq> net_area run host" using that by (auto simp: net_area_def)
    then show ?thesis using remove_dir_all_touches [of "join run d" v] touches_mono by (metis prod.collapse)
  qed
  then have "touches (net_area run host) w (foldl (\<lambda>w dir. snd (remove_dir_all (join run dir) w)) w RUN_DIRS)"
    by (simp add: foldl_touches)
  moreover have "touches (net_area run host) v (foldl (\<lambda>w e. restore_entry run e w) v (nr_run r))" for v
    using assms by (simp add: foldl_touches restore_entry_touches)
  ultimately show ?thesis unfolding restore_run_def using touches_trans by blast
qed

lemma network_restore_touches:
  assumes "plain_path run"
  shows "touches (net_area run host) w (network_restore run nv class host ip reader saved w)"
proof (cases "Option.bind saved (decode_network reader)")
  case (Some r)
  then have ok: "\<forall>e\<in>set (nr_run r). is_run_path (re_path e)"
    by (auto simp: bind_eq_Some_conv decode_network_def split: option.splits if_splits)
  obtain h w1 where h: "read_hostname host w = (h, w1)" by fastforce
  let ?K = "net_area run host" and ?pl = "restore_plan_of r (observe_links nv class) h"
  let ?w2 = "apply_links ip ?pl w1"
  let ?w3 = "case rp_hostname ?pl of None \<Rightarrow> ?w2 | Some n \<Rightarrow> snd (write_hostname host n ?w2)"
  have "touches {key_of host} v (snd (write_hostname host n v))" for n v
    using rewrite_file_touches [of False host n v] by (simp add: write_hostname_def) (metis prod.collapse)
  then have "touches ?K ?w2 ?w3"
    by (auto simp: net_area_def split: option.split intro: touches_mono)
  then have "touches ?K w ?w3"
    using read_hostname_touches [OF h, of ?K] apply_links_touches [of ?K w1 ip ?pl] touches_trans by blast
  then show ?thesis
    using Some h restore_run_touches [OF assms ok, of host ?w3] touches_trans by (auto simp: network_restore_def Let_def)
qed (simp add: network_restore_def)

section \<open>Properties\<close>


definition sample_net_link :: "bytes \<Rightarrow> bool \<Rightarrow> bytes \<Rightarrow> net_link" where
  "sample_net_link n v m = \<lparr>ln_index = 1, ln_name = n, ln_virtual = v, ln_mac = Some m\<rparr>"

definition sample_net :: network_record where
  "sample_net = \<lparr>nr_links = [sample_net_link ''eth0'' False ''aa''], nr_hostname = ''decoy'', nr_etc_hostname_present = False, nr_run = []\<rparr>"


text \<open>The way back of the network writes nowhere else.  Whatever bytes stand for the record, putting the
  network identity back changes no file but the hostname, the two runtime directories with what is below
  them, and the directories on the way to these.\<close>

theorem network_restore_confined:
  assumes "plain_path run" "key_of q \<noteq> key_of host"
    and "\<forall>d\<in>set RUN_DIRS. \<not> path_starts_with q (join run d) \<and> \<not> path_starts_with (join run d) q"
  shows "node_at (network_restore run nv class host ip reader saved w) q = node_at w q"
  using touches_node [OF network_restore_touches [OF assms(1)], of q host] assms(2,3)
  by (auto simp: net_area_def path_starts_with_def)

definition hostile_net :: network_record where
  "hostile_net = sample_net\<lparr>nr_run := [\<lparr>re_path = ''NetworkManager/devices/2'', re_kind = KFile ''x''\<rparr>]\<rparr>"

definition net_world :: "(op list \<Rightarrow> io_error option) \<Rightarrow> world" where
  "net_world fault =
     \<lparr>w_fs = [(key_of ''/etc'', Dir), (key_of ''/etc/passwd'', File ''p''), (key_of ''/run'', Dir), (key_of ''/run/NetworkManager'', Dir),
              (key_of ''/run/NetworkManager/devices'', Dir), (key_of ''/run/NetworkManager/devices/2'', File ''nm'')],
      w_log = [], w_fault = fault, w_dev = (\<lambda>_. 0), w_torn = (\<lambda>_ _. False), w_short = (\<lambda>_. None), w_points = (\<lambda>_. []),
      w_mode = (\<lambda>_. 0), w_reply = (\<lambda>_. [])\<rparr>"

definition no_links :: net_view where
  "no_links = \<lparr>nv_names = (\<lambda>_. None), nv_text = (\<lambda>_. None), nv_exists = (\<lambda>_. False)\<rparr>"

theorem network_restore_confined_witness:
  "node_at (network_restore ''/run'' no_links SYS_CLASS_NET PROC_HOSTNAME None (\<lambda>_. Some hostile_net) (Some []) (net_world (\<lambda>_. None)))
     ''/etc/passwd'' = Some (File ''p'')"
proof -
  have "plain_path ''/run'' \<and> key_of ''/etc/passwd'' \<noteq> key_of PROC_HOSTNAME
     \<and> (\<forall>d\<in>set RUN_DIRS. \<not> path_starts_with ''/etc/passwd'' (join ''/run'' d) \<and> \<not> path_starts_with (join ''/run'' d) ''/etc/passwd'')"
    by code_simp
  then have "node_at (network_restore ''/run'' no_links SYS_CLASS_NET PROC_HOSTNAME None (\<lambda>_. Some hostile_net) (Some []) (net_world (\<lambda>_. None)))
     ''/etc/passwd'' = node_at (net_world (\<lambda>_. None)) ''/etc/passwd''" by (intro network_restore_confined) simp_all
  also have "\<dots> = Some (File ''p'')" by code_simp
  finally show ?thesis .
qed

text \<open>The decoy's state could not be read at entry.\<close>

definition failed_copy :: "run_entry list" where
  "failed_copy = fst (snapshot_run ''/run'' (net_world (\<lambda>l. case l of OpRead _ # _ \<Rightarrow> Some (OtherError ''io'') | _ \<Rightarrow> None)))"

text \<open>A copy that fails reads as a copy of nothing.  When one file of the runtime state cannot be read at entry
  the record holds no entry, and the way back removes the decoy's runtime directories with what they held.\<close>

theorem failed_copy_wipes:
  "failed_copy = []
   \<and> node_at (net_world (\<lambda>_. None)) ''/run/NetworkManager/devices/2'' = Some (File ''nm'')
   \<and> node_at (restore_run ''/run'' (sample_net\<lparr>nr_run := failed_copy\<rparr>) (net_world (\<lambda>_. None))) ''/run/NetworkManager/devices/2'' = None"
proof (intro conjI)
  show "failed_copy = []" by code_simp
  show "node_at (net_world (\<lambda>_. None)) ''/run/NetworkManager/devices/2'' = Some (File ''nm'')" by code_simp
  show "node_at (restore_run ''/run'' (sample_net\<lparr>nr_run := failed_copy\<rparr>) (net_world (\<lambda>_. None))) ''/run/NetworkManager/devices/2'' = None"
    by code_simp
qed

end
