(* ===== verification/Way_Back.thy ===== *)
theory Way_Back
  imports Decoy_Mounts Network
begin

text \<open>
  Preparing the way back to the decoy root: \<^verbatim>\<open>nails-teardown/src/whole_root/ret.rs\<close> with what it calls, the
  mount primitives and the init check of \<^verbatim>\<open>nextroot.rs\<close>, \<^verbatim>\<open>carry.rs\<close>, \<^verbatim>\<open>decoy_mounts::restore\<close> and the child
  processes of \<^verbatim>\<open>tools.rs\<close>.  A mount, an open or a tool call is an operation of the log that the host may
  refuse; an opened directory is known by the path it was opened at.  What the host answers apart from
  files is the record \<open>host\<close>; where an answer changes as mounts are made it depends on the log.
\<close>

section \<open>Definitions\<close>

record host =
  h_is_file :: "path \<Rightarrow> bool"
  h_exists :: "path \<Rightarrow> bool"
  h_is_dir :: "op list \<Rightarrow> path \<Rightarrow> bool"
  h_canonicalize :: "path \<Rightarrow> path option"
  h_live :: "op list \<Rightarrow> io_error + mount_entry list"
  h_reaches :: "op list \<Rightarrow> path \<Rightarrow> int \<Rightarrow> bool"
  h_pid :: nat
  h_plan_version :: "bytes \<Rightarrow> bytes + nat"
  h_plan_reader :: "bytes \<Rightarrow> bytes + plan"
  h_plan_text :: "plan \<Rightarrow> bytes"
  h_refusal_text :: "bytes \<Rightarrow> nat \<Rightarrow> bytes option"
  h_net_reader :: "bytes \<Rightarrow> network_record option"
  h_net :: net_view
  h_sys :: sysfs
  h_polls :: nat
  h_kmsg :: "op list \<Rightarrow> kmsg_read list"
  h_now :: nat

definition canonical_at :: "host \<Rightarrow> path \<Rightarrow> path" where
  "canonical_at h p = (case h_canonicalize h p of None \<Rightarrow> p | Some q \<Rightarrow> q)"

subsection \<open>Tools\<close>

definition SYSTEM_BIN_DIRS :: "path list" where
  "SYSTEM_BIN_DIRS = [''/run/current-system/sw/bin'', ''/usr/bin'', ''/bin'', ''/usr/sbin'', ''/sbin'']"

definition find_tool :: "host \<Rightarrow> path option \<Rightarrow> bytes \<Rightarrow> path option" where
  "find_tool h known name =
     (case (case known of Some p \<Rightarrow> if h_is_file h p then Some p else None | None \<Rightarrow> None) of
        Some p \<Rightarrow> Some p
      | None \<Rightarrow> find (h_is_file h) (map (\<lambda>dir. join dir name) SYSTEM_BIN_DIRS))"

text \<open>A call that succeeded in time, and the output of one that did.\<close>

definition run_bounded :: "path \<Rightarrow> bytes list \<Rightarrow> world \<Rightarrow> bool \<times> world" where
  "run_bounded program args w = (case act_only (OpTool (program # args)) w of (r, w1) \<Rightarrow> (r = None, w1))"

definition run_output :: "path \<Rightarrow> bytes list \<Rightarrow> world \<Rightarrow> bytes option \<times> world" where
  "run_output program args w =
     (case run_bounded program args w of (ok, w1) \<Rightarrow> (if ok then Some (w_reply w1 (w_log w1)) else None, w1))"

definition remove_deferred :: "path \<Rightarrow> bytes \<Rightarrow> world \<Rightarrow> bool \<times> world" where
  "remove_deferred dmsetup name w = run_bounded dmsetup [''remove'', ''--deferred'', ''--noudevsync'', ''--'', name] w"

definition remove_now :: "path \<Rightarrow> bytes \<Rightarrow> world \<Rightarrow> bool \<times> world" where
  "remove_now dmsetup name w = run_bounded dmsetup [''remove'', ''--noudevsync'', ''--'', name] w"

definition start_target :: "path \<Rightarrow> bytes \<Rightarrow> world \<Rightarrow> bool \<times> world" where
  "start_target systemctl target w =
     run_bounded systemctl [''start'', ''--no-block'', ''--job-mode=replace-irreversibly'', ''--'', target] w"

definition daemon_reload :: "path \<Rightarrow> world \<Rightarrow> bool \<times> world" where
  "daemon_reload systemctl w = run_bounded systemctl [''daemon-reload''] w"

definition parse_unit_list :: "bytes \<Rightarrow> bytes list" where
  "parse_unit_list text =
     filter valid_unit_name
       (filter_map (\<lambda>ln. case split_whitespace ln of [] \<Rightarrow> None | f # _ \<Rightarrow> Some f) (lines_of text))"

definition failed_units :: "path \<Rightarrow> world \<Rightarrow> bytes list option \<times> world" where
  "failed_units systemctl w =
     (case run_output systemctl [''list-units'', ''--state=failed'', ''--all'', ''--plain'', ''--no-legend'', ''--no-pager'', ''--full''] w of
        (r, w1) \<Rightarrow> (map_option parse_unit_list r, w1))"

definition job_units :: "bytes \<Rightarrow> bytes list" where
  "job_units text = filter_map (\<lambda>ln. case split_whitespace ln of _ # u # _ \<Rightarrow> Some u | _ \<Rightarrow> None) (lines_of text)"

text \<open>The deadline allows a number of polls.\<close>

fun wait_for_other_jobs :: "nat \<Rightarrow> path \<Rightarrow> bytes list \<Rightarrow> world \<Rightarrow> bool \<times> world" where
  "wait_for_other_jobs 0 systemctl ours w = (False, w)"
| "wait_for_other_jobs (Suc n) systemctl ours w =
     (case run_output systemctl [''list-jobs'', ''--plain'', ''--no-legend''] w of
        (None, w1) \<Rightarrow> (False, w1)
      | (Some text, w1) \<Rightarrow>
          if \<forall>u\<in>set (job_units text). u \<in> set ours then (True, w1)
          else wait_for_other_jobs n systemctl ours w1)"

subsection \<open>Mounts at the next root\<close>

definition bind_mount :: "path \<Rightarrow> path \<Rightarrow> world \<Rightarrow> io_error option \<times> world" where
  "bind_mount source target w =
     (case act_only (OpBind source target) w of
        (Some e, w1) \<Rightarrow> (Some e, w1)
      | (None, w1) \<Rightarrow>
          (case act_only (OpPrivate target) w1 of
             (None, w2) \<Rightarrow> (None, w2)
           | (Some e, w2) \<Rightarrow> (Some e, snd (act_only (OpDetach target) w2))))"

definition mount_dev :: "path \<Rightarrow> bytes \<Rightarrow> bytes option \<Rightarrow> path \<Rightarrow> world \<Rightarrow> io_error option \<times> world" where
  "mount_dev source fstype data target w =
     (if is_some_and data (\<lambda>d. CHR 0x00 \<in> set d) then (Some (InvalidInput ''NUL in mount data''), w)
      else act_only (OpMount source fstype data target) w)"

definition remount_writable :: "path \<Rightarrow> world \<Rightarrow> io_error option \<times> world" where
  "remount_writable target w = act_only (OpRemountWritable target) w"

definition set_per_mount_options :: "path \<Rightarrow> bytes \<Rightarrow> world \<Rightarrow> io_error option \<times> world" where
  "set_per_mount_options target opts w =
     (if per_mount_flags opts = None
      then (Some (InvalidInput (''the mount options '' @ opts @ '' cannot be set again'')), w)
      else act_only (OpOptions target opts) w)"

text \<open>The ID \<^verbatim>\<open>statx\<close> gives, which must fit an \<^verbatim>\<open>i32\<close>.\<close>

definition mount_id_at :: "path \<Rightarrow> world \<Rightarrow> (io_error + int) \<times> world" where
  "mount_id_at p w =
     (case act_only (OpMountId p) w of
        (Some e, w1) \<Rightarrow> (Inl e, w1)
      | (None, w1) \<Rightarrow>
          (case parse_i32 (w_reply w1 (w_log w1)) of
             None \<Rightarrow> (Inl (InvalidData ''mount ID out of range''), w1)
           | Some i \<Rightarrow> (Inr i, w1)))"

fun private_loop :: "host \<Rightarrow> mount_entry list \<Rightarrow> world \<Rightarrow> io_error option \<times> world" where
  "private_loop h [] w = (None, w)"
| "private_loop h (m # ms) w =
     (if \<not> h_reaches h (w_log w) (mount_point m) (mount_id m) then private_loop h ms w
      else (case act_only (OpPrivate (mount_point m)) w of
              (Some e, w1) \<Rightarrow> (Some e, w1)
            | (None, w1) \<Rightarrow> private_loop h ms w1))"

definition make_below_private :: "host \<Rightarrow> path \<Rightarrow> world \<Rightarrow> io_error option \<times> world" where
  "make_below_private h target w =
     private_loop h (filter (\<lambda>m. \<not> path_eq (mount_point m) target \<and> path_starts_with (mount_point m) target)
       (case h_live h (w_log w) of Inl _ \<Rightarrow> [] | Inr ms \<Rightarrow> ms)) w"

definition points_under :: "path \<Rightarrow> world \<Rightarrow> path list" where
  "points_under p w = filter (\<lambda>m. path_starts_with m p) (w_points w (w_log w))"

fun detach_rounds :: "nat \<Rightarrow> path \<Rightarrow> world \<Rightarrow> path list \<times> world" where
  "detach_rounds 0 p w = (points_under p w, w)"
| "detach_rounds (Suc n) p w =
     (if points_under p w = [] then ([], w)
      else (case detach_under p (w_points w (w_log w)) w of
              (gone, w1) \<Rightarrow> if gone = [] then (points_under p w1, w1) else detach_rounds n p w1))"

definition detach_tree :: "path \<Rightarrow> world \<Rightarrow> path list \<times> world" where
  "detach_tree p w = detach_rounds 8 p w"

definition remove_runtime_dir :: "path \<Rightarrow> world \<Rightarrow> world" where
  "remove_runtime_dir dir w =
     (case detach_tree dir w of (rest, w1) \<Rightarrow> if rest = [] then snd (remove_dir_all dir w1) else w1)"

subsection \<open>The init check\<close>

datatype precheck_error = InitMissing path bytes | InitNotExecutable path | NotAnOsTree

definition show_precheck_error :: "precheck_error \<Rightarrow> bytes" where
  "show_precheck_error e =
     (case e of
        InitMissing init why \<Rightarrow> ''the init '' @ utf8_lossy init @ '' does not resolve in the next root: '' @ why
      | InitNotExecutable init \<Rightarrow> ''the init '' @ utf8_lossy init @ '' in the next root is not an executable file''
      | NotAnOsTree \<Rightarrow> ''the next root has neither /etc/os-release nor /usr/lib/os-release'')"

definition is_regular :: "32 word \<Rightarrow> bool" where "is_regular mode \<longleftrightarrow> and mode 0xF000 = 0x8000"
definition is_executable :: "32 word \<Rightarrow> bool" where "is_executable mode \<longleftrightarrow> and mode 0x49 \<noteq> 0"

fun any_in_root :: "path \<Rightarrow> path list \<Rightarrow> world \<Rightarrow> bool \<times> world" where
  "any_in_root root [] w = (False, w)"
| "any_in_root root (p # ps) w =
     (case act_only (OpOpenInRoot root p) w of
        (None, w1) \<Rightarrow> (True, w1)
      | (Some _, w1) \<Rightarrow> any_in_root root ps w1)"

definition precheck :: "path \<Rightarrow> path \<Rightarrow> world \<Rightarrow> precheck_error option \<times> world" where
  "precheck root init w =
     (case act_only (OpOpenInRoot root init) w of
        (Some e, w1) \<Rightarrow> (Some (InitMissing init (show_io_error e)), w1)
      | (None, w1) \<Rightarrow>
          (case act_only (OpStat init) w1 of
             (Some e, w2) \<Rightarrow> (Some (InitMissing init (show_io_error e)), w2)
           | (None, w2) \<Rightarrow>
               (let mode = w_mode w2 (w_log w2) in
                if \<not> is_regular mode \<or> \<not> is_executable mode then (Some (InitNotExecutable init), w2)
                else (case any_in_root root [''/etc/os-release'', ''/usr/lib/os-release''] w2 of
                        (os_tree, w3) \<Rightarrow> (if os_tree then None else Some NotAnOsTree, w3)))))"

subsection \<open>Carried file systems\<close>

text \<open>An error about one mount; only its text is read afterwards.\<close>

definition about_mount :: "path \<Rightarrow> io_error \<Rightarrow> io_error" where
  "about_mount target e = OtherError (utf8_lossy target @ '': '' @ show_io_error e)"

fun carry_loop :: "host \<Rightarrow> path \<Rightarrow> carried_mount list \<Rightarrow> world \<Rightarrow> io_error option \<times> world" where
  "carry_loop h root [] w = (None, w)"
| "carry_loop h root (m # ms) w =
     (let target = below_root root (cm_target m) in
      if \<not> h_is_dir h (w_log w) target
      then (Some (OtherError (''mount point '' @ utf8_lossy (cm_target m) @ '' is missing'')), w)
      else (case bind_mount (cm_at m) target w of
              (Some e, w1) \<Rightarrow> (Some (about_mount (cm_target m) e), w1)
            | (None, w1) \<Rightarrow>
                if cm_read_only m then carry_loop h root ms w1
                else (case remount_writable target w1 of
                        (Some e, w2) \<Rightarrow> (Some (about_mount (cm_target m) e), w2)
                      | (None, w2) \<Rightarrow> carry_loop h root ms w2)))"

definition carry_restore :: "host \<Rightarrow> carried_mount list \<Rightarrow> path \<Rightarrow> world \<Rightarrow> io_error option \<times> world" where
  "carry_restore h cs root w = carry_loop h root (sort_key (\<lambda>m. length (components (cm_target m))) cs) w"

subsection \<open>The decoy's mounts, made again\<close>

definition open_carried :: "host \<Rightarrow> carried_mount \<Rightarrow> mount_entry list \<Rightarrow> world \<Rightarrow> (io_error + path) \<times> world" where
  "open_carried h c live w =
     (let place = canonical_at h (cm_at c) in
      if is_some_and (top_mount_at live place)
           (\<lambda>m. cm_dev c = Some (m_dev m) \<and> is_some_and (cm_root c) (\<lambda>r. path_eq r (m_root m)))
      then (case act_only (OpOpen place) w of (Some e, w1) \<Rightarrow> (Inl e, w1) | (None, w1) \<Rightarrow> (Inr place, w1))
      else (Inl (about_mount (cm_target c) (OtherError (''the session no longer holds it at '' @ utf8_lossy (cm_at c)))), w))"

fun open_handles :: "host \<Rightarrow> mount_entry list \<Rightarrow> decoy_mount list \<Rightarrow> nat \<Rightarrow> carried_mount list \<Rightarrow> path option list \<Rightarrow> world
    \<Rightarrow> (io_error + path option list) \<times> world" where
  "open_handles h live mounts i [] acc w = (Inr acc, w)"
| "open_handles h live mounts i (c # cs) acc w =
     (if \<exists>m\<in>set mounts. dm_source m = FromCarried i
      then (case open_carried h c live w of
              (Inl e, w1) \<Rightarrow> (Inl e, w1)
            | (Inr p, w1) \<Rightarrow> open_handles h live mounts (Suc i) cs (acc @ [Some p]) w1)
      else open_handles h live mounts (Suc i) cs (acc @ [None]) w)"

definition open_source :: "decoy_mount \<Rightarrow> path \<Rightarrow> path option list \<Rightarrow> world \<Rightarrow> (io_error + path option) \<times> world" where
  "open_source m tree handles w =
     (if path_eq (dm_target m) ''/'' then (Inr None, w)
      else (case (case dm_source m of FromRoot \<Rightarrow> Some tree | FromCarried i \<Rightarrow> if i < length handles then handles ! i else None) of
              None \<Rightarrow> (Inl (about_mount (dm_target m) (OtherError ''its carried filesystem is not in the plan'')), w)
            | Some from \<Rightarrow>
                (case act_only (OpOpenBelow from (dm_path m)) w of
                   (Some e, w1) \<Rightarrow> (Inl (about_mount (dm_target m) e), w1)
                 | (None, w1) \<Rightarrow> (Inr (Some (below_root from (dm_path m))), w1))))"

fun open_sources :: "path \<Rightarrow> path option list \<Rightarrow> decoy_mount list \<Rightarrow> path option list \<Rightarrow> world \<Rightarrow> (io_error + path option list) \<times> world" where
  "open_sources tree handles [] acc w = (Inr acc, w)"
| "open_sources tree handles (m # ms) acc w =
     (case open_source m tree handles w of
        (Inl e, w1) \<Rightarrow> (Inl e, w1)
      | (Inr s, w1) \<Rightarrow> open_sources tree handles ms (acc @ [s]) w1)"

definition restore_root :: "decoy_mount \<Rightarrow> path \<Rightarrow> world \<Rightarrow> (io_error + int) \<times> world" where
  "restore_root m nextroot w =
     (case (if dm_options m = [] then (None, w) else set_per_mount_options nextroot (dm_options m) w) of
        (Some e, w1) \<Rightarrow> (Inl (about_mount ''/'' e), w1)
      | (None, w1) \<Rightarrow>
          (case mount_id_at nextroot w1 of (Inl e, w2) \<Rightarrow> (Inl (about_mount ''/'' e), w2) | (Inr i, w2) \<Rightarrow> (Inr i, w2)))"

definition is_dir_at :: "path \<Rightarrow> world \<Rightarrow> (io_error + bool) \<times> world" where
  "is_dir_at p w =
     (case act_only (OpStat p) w of
        (Some e, w1) \<Rightarrow> (Inl e, w1)
      | (None, w1) \<Rightarrow> (Inr (and (w_mode w1 (w_log w1)) 0xF000 = 0x4000), w1))"

definition make_again :: "decoy_mount \<Rightarrow> path \<Rightarrow> path \<Rightarrow> world \<Rightarrow> (io_error + int) \<times> world" where
  "make_again m source nextroot w =
     (let err = about_mount (dm_target m); target = below_root nextroot (dm_target m) in
      case act_only (OpOpenInRoot nextroot (dm_target m)) w of
        (Some e, w1) \<Rightarrow> (Inl (err e), w1)
      | (None, w1) \<Rightarrow>
     (case is_dir_at target w1 of
        (Inl e, w2) \<Rightarrow> (Inl (err e), w2)
      | (Inr a, w2) \<Rightarrow>
     (case is_dir_at source w2 of
        (Inl e, w3) \<Rightarrow> (Inl (err e), w3)
      | (Inr b, w3) \<Rightarrow>
          if a \<noteq> b then (Inl (err (OtherError ''the mount point is not of the kind of what is mounted on it'')), w3)
          else
     (case bind_mount source target w3 of
        (Some e, w4) \<Rightarrow> (Inl (err e), w4)
      | (None, w4) \<Rightarrow>
     (case set_per_mount_options target (dm_options m) w4 of
        (Some e, w5) \<Rightarrow> (Inl (err e), w5)
      | (None, w5) \<Rightarrow>
     (case mount_id_at target w5 of
        (Inl e, w6) \<Rightarrow> (Inl (err e), w6)
      | (Inr i, w6) \<Rightarrow> (Inr i, w6)))))))"

fun make_loop :: "path \<Rightarrow> decoy_mount list \<Rightarrow> path option list \<Rightarrow> world \<Rightarrow> (io_error option \<times> decoy_mount list) \<times> world" where
  "make_loop nextroot (m # ms) (s # ss) w =
     (case (case s of None \<Rightarrow> restore_root m nextroot w | Some source \<Rightarrow> make_again m source nextroot w) of
        (Inl e, w1) \<Rightarrow> ((Some e, m # ms), w1)
      | (Inr i, w1) \<Rightarrow>
          (case make_loop nextroot ms ss w1 of ((e, ms'), w2) \<Rightarrow> ((e, m\<lparr>dm_restored := Some i\<rparr> # ms'), w2)))"
| "make_loop nextroot ms _ w = ((None, ms), w)"

definition forget_ids :: "decoy_mount list \<Rightarrow> decoy_mount list" where
  "forget_ids ms = map (\<lambda>m. m\<lparr>dm_restored := None\<rparr>) ms"

definition decoy_restore ::
    "host \<Rightarrow> decoy_mount list \<Rightarrow> carried_mount list \<Rightarrow> path \<Rightarrow> world \<Rightarrow> (io_error option \<times> decoy_mount list) \<times> world" where
  "decoy_restore h mounts cs nextroot w =
     (let ms = forget_ids mounts in
      case h_live h (w_log w) of
        Inl e \<Rightarrow> ((Some e, ms), w)
      | Inr live \<Rightarrow>
     (case act_only (OpOpen nextroot) w of
        (Some e, w1) \<Rightarrow> ((Some e, ms), w1)
      | (None, w1) \<Rightarrow>
     (case open_handles h live ms 0 cs [] w1 of
        (Inl e, w2) \<Rightarrow> ((Some e, ms), w2)
      | (Inr handles, w2) \<Rightarrow>
     (case open_sources nextroot handles ms [] w2 of
        (Inl e, w3) \<Rightarrow> ((Some e, ms), w3)
      | (Inr sources, w3) \<Rightarrow> make_loop nextroot ms sources w3))))"

subsection \<open>The way back\<close>

definition in_hidden_root :: "mount_entry list \<Rightarrow> plan \<Rightarrow> bool" where
  "in_hidden_root es p =
     is_some_and (top_mount_at es ''/'')
       (\<lambda>root. m_fstype root = ''overlay'' \<and> is_some_and (upperdir (parse_overlay_opts (super_opts root))) (\<lambda>u. path_eq u (p_upper p)))"

definition init_before_repoint :: "root_side \<Rightarrow> path" where
  "init_before_repoint side =
     (case rs_system side of
        None \<Rightarrow> rs_init side
      | Some system \<Rightarrow>
          (case path_strip_prefix ''/run/current-system'' (rs_init side) of None \<Rightarrow> rs_init side | Some rest \<Rightarrow> join system rest))"

datatype return_error = RMount bytes | RDecoyMounts bytes | RPrecheck bytes | RArm bytes

definition show_return_error :: "return_error \<Rightarrow> bytes" where
  "show_return_error e =
     (case e of
        RMount m \<Rightarrow> ''could not mount the decoy root: '' @ m
      | RDecoyMounts m \<Rightarrow> ''could not make the decoy's mounts again: '' @ m
      | RPrecheck m \<Rightarrow> ''the decoy root is not bootable: '' @ m
      | RArm m \<Rightarrow> ''could not arm the way back: '' @ m)"

definition give_up :: "plan \<Rightarrow> path \<Rightarrow> world \<Rightarrow> plan \<times> world" where
  "give_up p nextroot w = (p\<lparr>p_decoy_mounts := forget_ids (p_decoy_mounts p)\<rparr>, snd (detach_tree nextroot w))"

definition complete_steps :: "host \<Rightarrow> plan \<Rightarrow> path \<Rightarrow> path \<Rightarrow> world \<Rightarrow> (return_error option \<times> plan) \<times> world" where
  "complete_steps h p nextroot run w =
     (case (if p_decoy_mounts p = [] then (case carry_restore h (p_carried p) nextroot w of (e, w1) \<Rightarrow> ((e, []), w1))
            else decoy_restore h (p_decoy_mounts p) (p_carried p) nextroot w) of
        ((made, ms), w1) \<Rightarrow>
          (let p1 = p\<lparr>p_decoy_mounts := ms\<rparr> in
           case made of
             Some e \<Rightarrow> ((Some (RDecoyMounts (show_io_error e)), p1), w1)
           | None \<Rightarrow>
          (case bind_mount run (below_root nextroot run) w1 of
             (Some e, w2) \<Rightarrow> ((Some (RDecoyMounts (''bind of '' @ utf8_lossy run @ '': '' @ show_io_error e)), p1), w2)
           | (None, w2) \<Rightarrow>
          (case make_below_private h nextroot w2 of
             (Some e, w3) \<Rightarrow> ((Some (RDecoyMounts (show_io_error e)), p1), w3)
           | (None, w3) \<Rightarrow>
          (case precheck nextroot (init_before_repoint (p_decoy p)) w3 of
             (Some e, w4) \<Rightarrow> ((Some (RPrecheck (show_precheck_error e)), p1), w4)
           | (None, w4) \<Rightarrow> ((None, p1), w4))))))"

definition complete_decoy_root :: "host \<Rightarrow> plan \<Rightarrow> path \<Rightarrow> path \<Rightarrow> world \<Rightarrow> (return_error option \<times> plan) \<times> world" where
  "complete_decoy_root h p nextroot run w =
     (case complete_steps h p nextroot run w of
        ((None, p1), w1) \<Rightarrow> ((None, p1), w1)
      | ((Some e, p1), w1) \<Rightarrow> (case give_up p1 nextroot w1 of (p2, w2) \<Rightarrow> ((Some e, p2), w2)))"

definition mount_decoy_root :: "host \<Rightarrow> plan \<Rightarrow> path \<Rightarrow> path \<Rightarrow> world \<Rightarrow> (return_error option \<times> plan) \<times> world" where
  "mount_decoy_root h p nextroot run w =
     (let w1 = (case h_live h (w_log w) of
                  Inr es \<Rightarrow> if is_mount_point es nextroot then snd (detach_tree nextroot w) else w
                | Inl _ \<Rightarrow> w);
          (r, w3) = (case create_dir_all nextroot w1 of
                       (Some e, w2) \<Rightarrow> (Some (RMount (show_io_error e)), w2)
                     | (None, w2) \<Rightarrow>
                         (case mount_dev (dr_source (p_decoy_root p)) (dr_fstype (p_decoy_root p)) (dr_data (p_decoy_root p)) nextroot w2 of
                            (Some e, w3) \<Rightarrow> (Some (RMount (utf8_lossy (dr_source (p_decoy_root p)) @ '': '' @ show_io_error e)), w3)
                          | (None, w3) \<Rightarrow> (None, w3)))
      in case r of
           None \<Rightarrow> complete_decoy_root h p nextroot run w3
         | Some e \<Rightarrow> (case give_up p nextroot w3 of (p2, w4) \<Rightarrow> ((Some e, p2), w4)))"

fun remove_each :: "path \<Rightarrow> bytes list \<Rightarrow> world \<Rightarrow> (bytes \<times> bool) list \<times> world" where
  "remove_each dmsetup [] w = ([], w)"
| "remove_each dmsetup (n # ns) w =
     (case remove_deferred dmsetup n w of
        (b, w1) \<Rightarrow> (case remove_each dmsetup ns w1 of (rs, w2) \<Rightarrow> ((n, b) # rs, w2)))"

definition close_backend_deferred :: "host \<Rightarrow> plan \<Rightarrow> world \<Rightarrow> (bytes \<times> bool) list \<times> world" where
  "close_backend_deferred h p w =
     (case find_tool h (tool_dmsetup (p_tools p)) ''dmsetup'' of
        None \<Rightarrow> (map (\<lambda>n. (n, False)) (p_backend p), w)
      | Some dmsetup \<Rightarrow> remove_each dmsetup (p_backend p) w)"

datatype backend_close = Closed | InUse

fun close_each :: "path option \<Rightarrow> bytes list \<Rightarrow> world \<Rightarrow> (bytes \<times> backend_close) list \<times> world" where
  "close_each dmsetup [] w = ([], w)"
| "close_each dmsetup (n # ns) w =
     (case (case dmsetup of None \<Rightarrow> (False, w) | Some d \<Rightarrow> remove_now d n w) of
        (closed, w1) \<Rightarrow>
          (case close_each dmsetup ns w1 of (rs, w2) \<Rightarrow> ((n, if closed then Closed else InUse) # rs, w2)))"

definition close_idle_backend :: "host \<Rightarrow> plan \<Rightarrow> path \<Rightarrow> world \<Rightarrow> (bytes \<times> backend_close) list \<times> world" where
  "close_idle_backend h p mapper_dir w =
     (let present = filter (\<lambda>n. h_exists h (join mapper_dir n)) (p_backend p) in
      if present = [] then ([], w) else close_each (find_tool h (tool_dmsetup (p_tools p)) ''dmsetup'') present w)"

definition write_plan :: "host \<Rightarrow> plan \<Rightarrow> path \<Rightarrow> world \<Rightarrow> io_error option \<times> world" where
  "write_plan h p path w = write_atomic path (h_plan_text h p) w"

definition arm_leave :: "host \<Rightarrow> plan \<Rightarrow> path \<Rightarrow> world \<Rightarrow> (return_error option \<times> plan) \<times> world" where
  "arm_leave h p path w =
     (let p1 = p\<lparr>p_armed := Some \<lparr>arm_direction = Leaving, arm_at = h_now h\<rparr>\<rparr> in
      case write_plan h p1 path w of
        (None, w1) \<Rightarrow> ((None, p1), w1)
      | (Some e, w1) \<Rightarrow> ((Some (RArm (show_io_error e)), p1), w1))"

section \<open>Lemmas\<close>

subsection \<open>Steps outside the file tree\<close>

text \<open>Mounts, opens and tools change no file: after such a step the keys touched since an earlier
  state are the same.  The rules eliminate the equation of the last step, so a chain of them is
  followed backwards.\<close>

named_theorems quiet
named_theorems quiet_snd

declare touches_refl [quiet]

lemma act_quiet [quiet]: "act_only a w = (r, w') \<Longrightarrow> touches K w0 w \<Longrightarrow> touches K w0 w'"
  using act_only_touches touches_trans by blast

lemma act_quiet_snd [quiet_snd]: "touches K w0 w \<Longrightarrow> touches K w0 (snd (act_only a w))"
  using act_quiet by (metis prod.collapse)

lemma run_bounded_quiet [quiet]: "run_bounded p args w = (r, w') \<Longrightarrow> touches K w0 w \<Longrightarrow> touches K w0 w'"
  by (auto simp: run_bounded_def split: prod.splits option.splits sum.splits if_splits; elim quiet)

lemma run_output_quiet [quiet]: "run_output p args w = (r, w') \<Longrightarrow> touches K w0 w \<Longrightarrow> touches K w0 w'"
  by (auto simp: run_output_def split: prod.splits option.splits sum.splits if_splits; elim quiet)

lemma wait_quiet [quiet]: "wait_for_other_jobs n s ours w = (r, w') \<Longrightarrow> touches K w0 w \<Longrightarrow> touches K w0 w'"
proof (induction n arbitrary: w)
  case (Suc n)
  show ?case using Suc.prems by (auto split: prod.splits option.splits sum.splits if_splits; elim quiet Suc.IH)
qed simp

lemma bind_mount_quiet [quiet]: "bind_mount s t w = (r, w') \<Longrightarrow> touches K w0 w \<Longrightarrow> touches K w0 w'"
  by (auto simp: bind_mount_def split: prod.splits option.splits sum.splits if_splits; (rule quiet_snd)?; elim quiet)

lemma mount_dev_quiet [quiet]: "mount_dev s f d t w = (r, w') \<Longrightarrow> touches K w0 w \<Longrightarrow> touches K w0 w'"
  by (auto simp: mount_dev_def split: prod.splits option.splits sum.splits if_splits; elim quiet)

lemma remount_writable_quiet [quiet]: "remount_writable t w = (r, w') \<Longrightarrow> touches K w0 w \<Longrightarrow> touches K w0 w'"
  by (auto simp: remount_writable_def split: prod.splits option.splits sum.splits if_splits; elim quiet)

lemma set_per_mount_options_quiet [quiet]: "set_per_mount_options t opts w = (r, w') \<Longrightarrow> touches K w0 w \<Longrightarrow> touches K w0 w'"
  by (auto simp: set_per_mount_options_def split: prod.splits option.splits sum.splits if_splits; elim quiet)

lemma mount_id_at_quiet [quiet]: "mount_id_at p w = (r, w') \<Longrightarrow> touches K w0 w \<Longrightarrow> touches K w0 w'"
  by (auto simp: mount_id_at_def split: prod.splits option.splits sum.splits if_splits; elim quiet)

lemma private_loop_quiet [quiet]: "private_loop h ms w = (r, w') \<Longrightarrow> touches K w0 w \<Longrightarrow> touches K w0 w'"
proof (induction ms arbitrary: w)
  case (Cons a as)
  show ?case using Cons.prems by (auto simp: Let_def  split: prod.splits option.splits sum.splits if_splits; elim quiet Cons.IH)
qed simp

lemma make_below_private_quiet [quiet]: "make_below_private h t w = (r, w') \<Longrightarrow> touches K w0 w \<Longrightarrow> touches K w0 w'"
  unfolding make_below_private_def by (rule private_loop_quiet)

lemma detach_loop_quiet [quiet]: "detach_loop ms w = (r, w') \<Longrightarrow> touches K w0 w \<Longrightarrow> touches K w0 w'"
proof (induction ms arbitrary: w r)
  case (Cons a as)
  show ?case using Cons.prems by (auto simp: Let_def  split: prod.splits option.splits sum.splits if_splits; elim quiet Cons.IH)
qed simp

lemma detach_rounds_quiet [quiet]: "detach_rounds n p w = (r, w') \<Longrightarrow> touches K w0 w \<Longrightarrow> touches K w0 w'"
proof (induction n arbitrary: w)
  case (Suc n)
  show ?case using Suc.prems by (auto simp: detach_under_def split: prod.splits option.splits sum.splits if_splits; elim quiet Suc.IH)
qed simp

lemma detach_tree_quiet [quiet_snd]: "touches K w0 w \<Longrightarrow> touches K w0 (snd (detach_tree p w))"
  unfolding detach_tree_def using detach_rounds_quiet by (metis prod.collapse)

lemma any_in_root_quiet [quiet]: "any_in_root root ps w = (r, w') \<Longrightarrow> touches K w0 w \<Longrightarrow> touches K w0 w'"
proof (induction ps arbitrary: w)
  case (Cons a as)
  show ?case using Cons.prems by (auto simp: Let_def  split: prod.splits option.splits sum.splits if_splits; elim quiet Cons.IH)
qed simp

lemma precheck_quiet [quiet]: "precheck root i w = (r, w') \<Longrightarrow> touches K w0 w \<Longrightarrow> touches K w0 w'"
  by (auto simp: precheck_def Let_def split: prod.splits option.splits sum.splits if_splits; elim quiet)

lemma carry_loop_quiet [quiet]: "carry_loop h root cs w = (r, w') \<Longrightarrow> touches K w0 w \<Longrightarrow> touches K w0 w'"
proof (induction cs arbitrary: w)
  case (Cons a as)
  show ?case using Cons.prems by (auto simp: Let_def  split: prod.splits option.splits sum.splits if_splits; elim quiet Cons.IH)
qed simp

lemma carry_restore_quiet [quiet]: "carry_restore h cs root w = (r, w') \<Longrightarrow> touches K w0 w \<Longrightarrow> touches K w0 w'"
  unfolding carry_restore_def by (rule carry_loop_quiet)

lemma open_carried_quiet [quiet]: "open_carried h c live w = (r, w') \<Longrightarrow> touches K w0 w \<Longrightarrow> touches K w0 w'"
  by (auto simp: open_carried_def Let_def split: prod.splits option.splits sum.splits if_splits; elim quiet)

lemma open_handles_quiet [quiet]: "open_handles h live ms i cs acc w = (r, w') \<Longrightarrow> touches K w0 w \<Longrightarrow> touches K w0 w'"
proof (induction cs arbitrary: i acc w)
  case (Cons a as)
  show ?case using Cons.prems by (auto simp: Let_def  split: prod.splits option.splits sum.splits if_splits; elim quiet Cons.IH)
qed simp

lemma open_source_quiet [quiet]: "open_source m tree hs w = (r, w') \<Longrightarrow> touches K w0 w \<Longrightarrow> touches K w0 w'"
  by (auto simp: open_source_def split: prod.splits option.splits sum.splits if_splits; elim quiet)

lemma open_sources_quiet [quiet]: "open_sources tree hs ms acc w = (r, w') \<Longrightarrow> touches K w0 w \<Longrightarrow> touches K w0 w'"
proof (induction ms arbitrary: acc w)
  case (Cons a as)
  show ?case using Cons.prems by (auto simp: Let_def  split: prod.splits option.splits sum.splits if_splits; elim quiet Cons.IH)
qed simp

lemma restore_root_quiet [quiet]: "restore_root m n w = (r, w') \<Longrightarrow> touches K w0 w \<Longrightarrow> touches K w0 w'"
  by (auto simp: restore_root_def split: prod.splits option.splits sum.splits if_splits; elim quiet)

lemma is_dir_at_quiet [quiet]: "is_dir_at p w = (r, w') \<Longrightarrow> touches K w0 w \<Longrightarrow> touches K w0 w'"
  by (auto simp: is_dir_at_def split: prod.splits option.splits sum.splits if_splits; elim quiet)

lemma make_again_quiet [quiet]: "make_again m s n w = (r, w') \<Longrightarrow> touches K w0 w \<Longrightarrow> touches K w0 w'"
  by (auto simp: make_again_def Let_def split: prod.splits option.splits sum.splits if_splits; elim quiet)

lemma make_loop_quiet [quiet]: "make_loop nextroot ms ss w = (r, w') \<Longrightarrow> touches K w0 w \<Longrightarrow> touches K w0 w'"
proof (induction nextroot ms ss w arbitrary: r rule: make_loop.induct)
  case (1 nextroot m ms s ss w)
  obtain x w1 where x: "(case s of None \<Rightarrow> restore_root m nextroot w | Some source \<Rightarrow> make_again m source nextroot w) = (x, w1)"
    by fastforce
  then have "touches K w0 w1" using "1.prems"(2) by (auto split: option.splits; elim quiet)
  with "1.IH" [OF x [symmetric]] "1.prems"(1) x show ?case by (auto split: prod.splits sum.splits)
qed auto

lemma decoy_restore_quiet [quiet]: "decoy_restore h ms cs n w = (r, w') \<Longrightarrow> touches K w0 w \<Longrightarrow> touches K w0 w'"
  by (auto simp: decoy_restore_def Let_def split: prod.splits option.splits sum.splits if_splits; elim quiet)

lemma complete_steps_quiet [quiet]: "complete_steps h p n run w = (r, w') \<Longrightarrow> touches K w0 w \<Longrightarrow> touches K w0 w'"
  by (auto simp: complete_steps_def Let_def split: prod.splits option.splits sum.splits if_splits; elim quiet)

lemma complete_decoy_root_quiet [quiet]: "complete_decoy_root h p n run w = (r, w') \<Longrightarrow> touches K w0 w \<Longrightarrow> touches K w0 w'"
  by (auto simp: complete_decoy_root_def give_up_def split: prod.splits option.splits sum.splits if_splits; (rule quiet_snd)?; elim quiet)

lemma remove_each_quiet [quiet]: "remove_each d ns w = (r, w') \<Longrightarrow> touches K w0 w \<Longrightarrow> touches K w0 w'"
proof (induction ns arbitrary: w r)
  case (Cons a as)
  show ?case using Cons.prems by (auto simp: Let_def remove_deferred_def split: prod.splits option.splits sum.splits if_splits; elim quiet Cons.IH)
qed simp

lemma close_backend_quiet [quiet]: "close_backend_deferred h p w = (r, w') \<Longrightarrow> touches K w0 w \<Longrightarrow> touches K w0 w'"
  by (auto simp: close_backend_deferred_def split: prod.splits option.splits sum.splits if_splits; elim quiet)

subsection \<open>Detaching\<close>

lemma detach_rounds_report: "detach_rounds n p w = (rest, w') \<Longrightarrow> rest = points_under p w'"
  by (induction n arbitrary: w) (auto split: if_splits prod.splits)

text \<open>A host on which a detach is never refused, and takes one mount off the path it names, maybe
  others with it.\<close>

definition detaches :: "world \<Rightarrow> bool" where
  "detaches w \<longleftrightarrow> (\<forall>l q. w_fault w (OpDetach q # l) = None
     \<and> mset (w_points w (OpDetach q # l)) \<subseteq># mset (w_points w l) - {#q#})"

lemma detaches_touches: "touches K w w' \<Longrightarrow> detaches w' = detaches w"
  by (simp add: detaches_def touches_def)

lemma detach_loop_works:
  assumes "detaches w"
  shows "detach_loop ms w = (ms, w\<lparr>w_log := map OpDetach (rev ms) @ w_log w\<rparr>)"
  using assms
proof (induction ms arbitrary: w)
  case (Cons m ms)
  let ?w = "w\<lparr>w_log := OpDetach m # w_log w\<rparr>"
  have "detaches ?w" using Cons.prems by (simp add: detaches_def)
  from Cons.IH [OF this] Cons.prems show ?case by (simp add: act_only_def attempt_def detaches_def)
qed simp

lemma mset_diff_mono: "A \<subseteq># B \<Longrightarrow> A - C \<subseteq># B - (C :: 'a multiset)"
  by (simp add: subseteq_mset_def diff_le_mono)

lemma points_after_detach:
  assumes "detaches w"
  shows "mset (w_points w (map OpDetach (rev ms) @ l)) \<subseteq># mset (w_points w l) - mset ms"
proof (induction ms rule: rev_induct)
  case (snoc m ms)
  have "mset (w_points w (OpDetach m # map OpDetach (rev ms) @ l)) \<subseteq># mset (w_points w (map OpDetach (rev ms) @ l)) - {#m#}"
    using assms by (simp add: detaches_def)
  also have "\<dots> \<subseteq># mset (w_points w l) - mset ms - {#m#}" by (rule mset_diff_mono [OF snoc])
  finally show ?case by (simp add: diff_diff_add)
qed simp

lemma detach_under_all:
  assumes "detaches w" "detach_under p (w_points w (w_log w)) w = (gone, w1)"
  shows "mset gone = mset (points_under p w) \<and> points_under p w1 = []"
proof -
  let ?ms = "mounts_under p (w_points w (w_log w))"
  have g: "gone = ?ms" "w1 = w\<lparr>w_log := map OpDetach (rev ?ms) @ w_log w\<rparr>"
    using assms by (auto simp: detach_under_def detach_loop_works)
  have m: "mset ?ms = mset (points_under p w)" by (simp add: mounts_under_def points_under_def)
  have "mset (points_under p w1) \<subseteq># filter_mset (\<lambda>m. path_starts_with m p) (mset (w_points w (w_log w)) - mset ?ms)"
    using multiset_filter_mono [OF points_after_detach [OF assms(1)]] by (simp add: g(2) points_under_def)
  also have "\<dots> = {#}" by (simp add: m points_under_def filter_diff_mset filter_filter_mset)
  finally show ?thesis using g(1) m by simp
qed

lemma detach_tree_report: "fst (detach_tree p w) = points_under p (snd (detach_tree p w))"
  unfolding detach_tree_def using detach_rounds_report by (metis prod.collapse)

lemma detach_tree_empties:
  assumes "detaches w"
  shows "points_under p (snd (detach_tree p w)) = []"
proof (cases "points_under p w = []")
  case False
  obtain gone w1 where g: "detach_under p (w_points w (w_log w)) w = (gone, w1)" by fastforce
  note d = detach_under_all [OF assms g]
  have "gone \<noteq> []" using d False by auto
  obtain n where n: "(8::nat) = Suc (Suc n)" using that [of 6] by simp
  show ?thesis unfolding detach_tree_def n using False g \<open>gone \<noteq> []\<close> d by simp
qed (simp add: detach_tree_def numeral_eq_Suc)

subsection \<open>The mounts made again\<close>

lemma forget_ids_simps [simp]:
  "forget_ids [] = []" "forget_ids (m # ms) = m\<lparr>dm_restored := None\<rparr> # forget_ids ms" "forget_ids (forget_ids ms) = forget_ids ms"
  "length (forget_ids ms) = length ms" "m' \<in> set (forget_ids ms) \<Longrightarrow> dm_restored m' = None"
  by (auto simp: forget_ids_def comp_def)

lemma open_sources_length: "open_sources tree handles ms acc w = (Inr ss, w') \<Longrightarrow> length ss = length acc + length ms"
  by (induction ms arbitrary: acc w) (fastforce split: prod.splits sum.splits)+

lemma make_loop_result:
  assumes "make_loop nextroot ms ss w = ((r, ms'), w')" "length ss = length ms"
  shows "forget_ids ms' = forget_ids ms \<and> (r = None \<longrightarrow> (\<forall>m\<in>set ms'. dm_restored m \<noteq> None))"
  using assms
proof (induction nextroot ms ss w arbitrary: r ms' w' rule: make_loop.induct)
  case (1 nextroot m ms s ss w)
  obtain x w1 where x: "(case s of None \<Rightarrow> restore_root m nextroot w | Some source \<Rightarrow> make_again m source nextroot w) = (x, w1)"
    by fastforce
  show ?case
  proof (cases x)
    case (Inl e)
    then show ?thesis using "1.prems"(1) x by auto
  next
    case (Inr i)
    obtain e ms2 w2 where m: "make_loop nextroot ms ss w1 = ((e, ms2), w2)" by (metis prod.collapse)
    then have "r = e" "ms' = m\<lparr>dm_restored := Some i\<rparr> # ms2" using "1.prems"(1) x Inr by auto
    moreover have "forget_ids ms2 = forget_ids ms \<and> (e = None \<longrightarrow> (\<forall>m\<in>set ms2. dm_restored m \<noteq> None))"
      by (rule "1.IH" [OF x [symmetric] Inr m]) (use "1.prems"(2) in simp)
    ultimately show ?thesis by auto
  qed
qed auto

lemma decoy_restore_result:
  assumes "decoy_restore h ms cs nextroot w = ((r, ms'), w')"
  shows "forget_ids ms' = forget_ids ms \<and> (r = None \<longrightarrow> (\<forall>m\<in>set ms'. dm_restored m \<noteq> None))"
  using assms
  by (auto simp: decoy_restore_def Let_def split: sum.splits prod.splits option.splits
      dest!: make_loop_result open_sources_length)

lemma complete_steps_result:
  assumes "complete_steps h p nextroot run w = ((r, p'), w')"
  shows "forget_ids (p_decoy_mounts p') = forget_ids (p_decoy_mounts p) \<and> p' = p\<lparr>p_decoy_mounts := p_decoy_mounts p'\<rparr>
    \<and> (r = None \<longrightarrow> (\<forall>m\<in>set (p_decoy_mounts p'). dm_restored m \<noteq> None)
         \<and> (\<exists>w3. precheck nextroot (init_before_repoint (p_decoy p)) w3 = (None, w')))"
proof -
  obtain made ms w1 where m: "(if p_decoy_mounts p = [] then (case carry_restore h (p_carried p) nextroot w of (e, w1) \<Rightarrow> ((e, []), w1))
            else decoy_restore h (p_decoy_mounts p) (p_carried p) nextroot w) = ((made, ms), w1)" by (metis prod.collapse)
  have f: "forget_ids ms = forget_ids (p_decoy_mounts p) \<and> (made = None \<longrightarrow> (\<forall>m\<in>set ms. dm_restored m \<noteq> None))"
    using m decoy_restore_result by (auto split: if_splits prod.splits)
  show ?thesis
    using assms f unfolding complete_steps_def m
    by (auto simp: Let_def split: option.splits prod.splits)
qed

lemma complete_decoy_root_cases:
  assumes "complete_decoy_root h p nextroot run w = ((r, p'), w')"
  shows "(r = None \<and> complete_steps h p nextroot run w = ((None, p'), w'))
    \<or> (r \<noteq> None \<and> p' = p\<lparr>p_decoy_mounts := forget_ids (p_decoy_mounts p)\<rparr>
        \<and> (\<exists>w1. touches {} w w1 \<and> w' = snd (detach_tree nextroot w1)))"
proof -
  obtain x p1 w1 where c: "complete_steps h p nextroot run w = ((x, p1), w1)" by (metis prod.collapse)
  note s = complete_steps_result [OF c]
  obtain ms where ms: "p1 = p\<lparr>p_decoy_mounts := ms\<rparr>" using s by blast
  have f: "p1\<lparr>p_decoy_mounts := forget_ids (p_decoy_mounts p1)\<rparr> = p\<lparr>p_decoy_mounts := forget_ids (p_decoy_mounts p)\<rparr>"
    using s [THEN conjunct1] by (simp add: ms)
  have t: "touches {} w w1" using c by (rule complete_steps_quiet) simp
  show ?thesis
  proof (cases x)
    case None
    then show ?thesis using assms c by (simp add: complete_decoy_root_def)
  next
    case (Some e)
    then show ?thesis using assms c f t by (auto simp: complete_decoy_root_def give_up_def)
  qed
qed

text \<open>The state after the old tree is gone and the device is mounted, or why it is not.\<close>

lemma mount_decoy_root_cases:
  assumes "mount_decoy_root h p nextroot run w = ((r, p'), w')"
  shows "\<exists>w3. touches UNIV w w3 \<and>
    (complete_decoy_root h p nextroot run w3 = ((r, p'), w')
     \<or> (r \<noteq> None \<and> p' = p\<lparr>p_decoy_mounts := forget_ids (p_decoy_mounts p)\<rparr> \<and> w' = snd (detach_tree nextroot w3)))"
proof -
  define w1 where "w1 = (case h_live h (w_log w) of
                  Inr es \<Rightarrow> if is_mount_point es nextroot then snd (detach_tree nextroot w) else w
                | Inl _ \<Rightarrow> w)"
  have t1: "touches UNIV w w1" unfolding w1_def by (auto split: sum.split intro: detach_tree_quiet)
  obtain e2 w2 where c: "create_dir_all nextroot w1 = (e2, w2)" by fastforce
  have t2: "touches UNIV w w2"
    by (rule touches_trans [OF t1 touches_mono [OF create_dir_all_touches [OF c]]]) simp
  obtain e3 w3 where d: "mount_dev (dr_source (p_decoy_root p)) (dr_fstype (p_decoy_root p)) (dr_data (p_decoy_root p)) nextroot w2 = (e3, w3)"
    by fastforce
  have t3: "touches UNIV w w3" using d t2 by (rule mount_dev_quiet)
  show ?thesis
    using assms c d t2 t3 unfolding mount_decoy_root_def w1_def [symmetric] Let_def
    by (cases e2; cases e3) (auto simp: give_up_def)
qed

section \<open>Properties\<close>


text \<open>Two mounts at one path, one below it and one elsewhere.\<close>

definition stacked_world :: world where
  "stacked_world = (guard_world (\<lambda>l. case l of OpMount _ _ _ _ # _ \<Rightarrow> Some (OtherError ''no such device'') | _ \<Rightarrow> None) (\<lambda>_. None))
     \<lparr>w_points := \<lambda>l. foldr (\<lambda>a ps. case a of OpDetach q \<Rightarrow> remove1 q ps | _ \<Rightarrow> ps) l
        [''/run/nextroot'', ''/run/nextroot'', ''/run/nextroot/boot'', ''/home'']\<rparr>"

lemma stacked_world_detaches: "detaches stacked_world"
  by (simp add: detaches_def stacked_world_def guard_world_def)



definition sample_host :: host where
  "sample_host =
     \<lparr>h_is_file = (\<lambda>p. p = ''/usr/bin/systemctl''), h_exists = (\<lambda>_. True), h_is_dir = (\<lambda>_ _. True),
      h_canonicalize = Some, h_live = (\<lambda>_. Inr []), h_reaches = (\<lambda>_ _ _. True), h_pid = 7,
      h_plan_version = (\<lambda>_. Inr 2), h_plan_reader = (\<lambda>_. Inr sample_plan), h_plan_text = (\<lambda>_. ''{}''),
      h_refusal_text = (\<lambda>_ _. None), h_net_reader = (\<lambda>_. None), h_net = \<lparr>nv_names = (\<lambda>_. None), nv_text = (\<lambda>_. None), nv_exists = (\<lambda>_. False)\<rparr>, h_sys = sample_sysfs,
      h_polls = 1, h_kmsg = (\<lambda>_. []), h_now = 0\<rparr>"


end
