(* ===== verification/Transition.thy ===== *)
theory Transition
  imports Way_Back Boot_Records
begin

text \<open>
  The last userspace step before PID 1 switches root, \<^verbatim>\<open>nails-teardown/src/whole_root/transition.rs\<close>, with the
  kernel settings it puts back (\<^verbatim>\<open>kernel_helpers.rs\<close>), the record of a refused switch
  (\<^verbatim>\<open>switch_refusal.rs\<close>), the rewrite of \<^verbatim>\<open>utab\<close> (\<^verbatim>\<open>utab::update\<close>) and of the kernel log cursor
  (\<^verbatim>\<open>run_scrub::write_kernel_seqnum\<close>).  It composes the components below it: the lemmas show when it acts at
  all, what an entry leaves in place and in which order a return ends.
\<close>

section \<open>Definitions\<close>

subsection \<open>Drop-ins\<close>

definition DROPIN_DIR :: path where "DROPIN_DIR = ''systemd/system/systemd-soft-reboot.service.d''"
definition DROPIN_NAME :: bytes where "DROPIN_NAME = ''50-overlay-runtime.conf''"
definition TRANSITION_ARG :: bytes where "TRANSITION_ARG = ''transition''"

definition dropin_text :: "path \<Rightarrow> bytes" where
  "dropin_text binary =
     ''[Service]'' @ [newline] @ ''Type=oneshot'' @ [newline] @ ''StandardInput=null'' @ [newline]
     @ ''StandardOutput=null'' @ [newline] @ ''StandardError=null'' @ [newline]
     @ ''ExecStart=-'' @ utf8_lossy binary @ '' '' @ TRANSITION_ARG @ [newline]"

definition STOP_GUARDED_UNITS :: "bytes list" where
  "STOP_GUARDED_UNITS = [''blk-availability.service'', ''network-addresses-.service'']"

definition is_unit_prefix :: "bytes \<Rightarrow> bool" where
  "is_unit_prefix unit \<longleftrightarrow> ends_with ''-.service'' unit"

definition STOP_GUARD_TEXT :: bytes where
  "STOP_GUARD_TEXT = ''[Service]'' @ [newline] @ ''ExecStop='' @ [newline]"

definition STOP_GUARD_WITH_START_TEXT :: bytes where
  "STOP_GUARD_WITH_START_TEXT = ''[Service]'' @ [newline] @ ''ExecStop='' @ [newline] @ ''ExecStart=-/usr/bin/true'' @ [newline]"

definition stop_guard_text :: "bytes \<Rightarrow> bytes" where
  "stop_guard_text unit = (if unit = ''blk-availability.service'' then STOP_GUARD_WITH_START_TEXT else STOP_GUARD_TEXT)"

definition STOP_GUARD_NAME :: bytes where "STOP_GUARD_NAME = ''zz-overlay-runtime.conf''"

definition stop_guard_dir :: "bytes \<Rightarrow> path" where
  "stop_guard_dir unit = join ''systemd/system'' (unit @ ''.d'')"

definition SHUTDOWN_BOUND_UNITS :: "bytes list" where
  "SHUTDOWN_BOUND_UNITS = [''dbus.service'', ''dbus.socket'']"

definition SHUTDOWN_BOUND_TEXT :: bytes where
  "SHUTDOWN_BOUND_TEXT = ''[Unit]'' @ [newline] @ ''Conflicts=shutdown.target'' @ [newline] @ ''Before=shutdown.target'' @ [newline]"

definition runtime_guards :: "(bytes \<times> bytes) list" where
  "runtime_guards =
     map (\<lambda>unit. (unit, stop_guard_text unit)) STOP_GUARDED_UNITS @ map (\<lambda>unit. (unit, SHUTDOWN_BOUND_TEXT)) SHUTDOWN_BOUND_UNITS"

text \<open>A file in a directory made for it.\<close>

fun install_files :: "path \<Rightarrow> (path \<times> bytes \<times> bytes) list \<Rightarrow> world \<Rightarrow> io_error option \<times> world" where
  "install_files run [] w = (None, w)"
| "install_files run ((dir, name, text) # fs) w =
     (case create_dir_all (join run dir) w of
        (Some e, w1) \<Rightarrow> (Some e, w1)
      | (None, w1) \<Rightarrow>
          (case write_atomic (join (join run dir) name) text w1 of
             (Some e, w2) \<Rightarrow> (Some e, w2)
           | (None, w2) \<Rightarrow> install_files run fs w2))"

definition dropin_files :: "path \<Rightarrow> (path \<times> bytes \<times> bytes) list" where
  "dropin_files binary =
     map (\<lambda>(unit, text). (stop_guard_dir unit, STOP_GUARD_NAME, text)) runtime_guards
     @ [(DROPIN_DIR, DROPIN_NAME, dropin_text binary)]"

definition install_dropin :: "path \<Rightarrow> path \<Rightarrow> world \<Rightarrow> (io_error + path) \<times> world" where
  "install_dropin run binary w =
     (case install_files run (dropin_files binary) w of
        (Some e, w1) \<Rightarrow> (Inl e, w1)
      | (None, w1) \<Rightarrow> (Inr (join (join run DROPIN_DIR) DROPIN_NAME), w1))"

fun remove_files :: "path \<Rightarrow> snapshot \<Rightarrow> (path \<times> bytes) list \<Rightarrow> world \<Rightarrow> bool \<times> world" where
  "remove_files run kept [] w = (False, w)"
| "remove_files run kept ((dir, name) # fs) w =
     (case remove_file (join (join run dir) name) w of
        (r, w1) \<Rightarrow>
     (let w2 = (if snap_contains kept dir then w1 else snd (remove_dir (join run dir) w1)) in
      case remove_files run kept fs w2 of (b, w3) \<Rightarrow> (r = None \<or> b, w3)))"

definition remove_dropin :: "path \<Rightarrow> snapshot \<Rightarrow> world \<Rightarrow> bool \<times> world" where
  "remove_dropin run kept w =
     remove_files run kept (map (\<lambda>(unit, _). (stop_guard_dir unit, STOP_GUARD_NAME)) runtime_guards @ [(DROPIN_DIR, DROPIN_NAME)]) w"

subsection \<open>Kernel settings\<close>

definition HELPER_PATHS :: "path list" where
  "HELPER_PATHS = [''/proc/sys/kernel/modprobe'', ''/proc/sys/kernel/hotplug'', ''/sys/module/firmware_class/parameters/path'']"

definition read_to_string :: "path \<Rightarrow> world \<Rightarrow> (io_error + bytes) \<times> world" where
  "read_to_string p w =
     (case read_file p w of
        (Inl e, w1) \<Rightarrow> (Inl e, w1)
      | (Inr b, w1) \<Rightarrow> (if utf8_valid b then Inr b else Inl (InvalidData ''stream did not contain valid UTF-8''), w1))"

definition trim_newlines :: "bytes \<Rightarrow> bytes" where
  "trim_newlines b = rev (dropWhile (\<lambda>c. c = newline) (rev b))"

definition current_setting :: "path \<Rightarrow> world \<Rightarrow> bytes option \<times> world" where
  "current_setting p w =
     (case read_to_string p w of (Inl _, w1) \<Rightarrow> (None, w1) | (Inr t, w1) \<Rightarrow> (Some (trim_newlines t), w1))"

fun read_settings :: "path list \<Rightarrow> world \<Rightarrow> kernel_setting list \<times> world" where
  "read_settings [] w = ([], w)"
| "read_settings (p # ps) w =
     (case current_setting p w of
        (v, w1) \<Rightarrow>
          (case read_settings ps w1 of
             (out, w2) \<Rightarrow> (case v of None \<Rightarrow> out | Some x \<Rightarrow> \<lparr>ks_path = p, ks_value = x\<rparr> # out, w2)))"

fun restore_settings :: "kernel_setting list \<Rightarrow> world \<Rightarrow> world" where
  "restore_settings [] w = w"
| "restore_settings (s # ss) w =
     (case current_setting (ks_path s) w of
        (v, w1) \<Rightarrow>
          if v = Some (ks_value s) then restore_settings ss w1
          else restore_settings ss
                 (snd (rewrite_file True (ks_path s) (if ks_value s = [] then [newline] else ks_value s) w1)))"

subsection \<open>A refused switch\<close>

definition REFUSAL_NAME :: bytes where "REFUSAL_NAME = ''last-switch.json''"

definition refusal_path :: "path \<Rightarrow> path" where
  "refusal_path hidden_root = join hidden_root REFUSAL_NAME"

definition hidden_root_is_live :: "host \<Rightarrow> mount_entry list \<Rightarrow> plan \<Rightarrow> bool" where
  "hidden_root_is_live h mounts p =
     (case p_hidden_dev p of
        None \<Rightarrow> False
      | Some dev \<Rightarrow> is_some_and (top_mount_at mounts (canonical_at h (p_hidden_root p))) (\<lambda>m. m_dev m = dev))"

definition record_refusal :: "host \<Rightarrow> mount_entry list \<Rightarrow> plan \<Rightarrow> bytes \<Rightarrow> nat \<Rightarrow> world \<Rightarrow> world" where
  "record_refusal h mounts p reason now w =
     (if p_armed p = None \<or> \<not> hidden_root_is_live h mounts p then w
      else (case h_refusal_text h reason now of
              None \<Rightarrow> w
            | Some b \<Rightarrow> snd (write_atomic (refusal_path (p_hidden_root p)) b w)))"

definition clear_refusal :: "path \<Rightarrow> world \<Rightarrow> world" where
  "clear_refusal hidden_root w = snd (remove_file (refusal_path hidden_root) w)"

subsection \<open>The mount table and the kernel log cursor\<close>

definition UTAB :: path where "UTAB = ''mount/utab''"
definition UTAB_LOCK :: path where "UTAB_LOCK = ''mount/utab.lock''"

text \<open>Under libmount's lock where its file exists; the lock excludes other writers and changes no
  file.\<close>

definition update_utab_at :: "path \<Rightarrow> (bytes \<Rightarrow> bytes) \<Rightarrow> world \<Rightarrow> (io_error + bool) \<times> world" where
  "update_utab_at run new w =
     (let w0 = snd (act_only (OpOpen (join run UTAB_LOCK)) w) in
      case read_file (join run UTAB) w0 of
        (Inl NotFound, w1) \<Rightarrow> (Inr False, w1)
      | (Inl e, w1) \<Rightarrow> (Inl e, w1)
      | (Inr old, w1) \<Rightarrow>
          if new old = old then (Inr False, w1)
          else (case write_atomic (join run UTAB) (new old) w1 of
                  (Some e, w2) \<Rightarrow> (Inl e, w2)
                | (None, w2) \<Rightarrow> (Inr True, w2)))"

text \<open>A \<^verbatim>\<open>u64\<close> in the byte order of the machine, least significant byte first.\<close>

fun le_bytes :: "nat \<Rightarrow> nat \<Rightarrow> bytes" where
  "le_bytes 0 n = []"
| "le_bytes (Suc k) n = char_of (n mod 256) # le_bytes k (n div 256)"

definition u64_ne_bytes :: "nat \<Rightarrow> bytes" where
  "u64_ne_bytes n = le_bytes 8 n"

definition write_kernel_seqnum :: "path \<Rightarrow> nat \<Rightarrow> world \<Rightarrow> io_error option \<times> world" where
  "write_kernel_seqnum run next =
     (let p = join run KERNEL_SEQNUM in
      all_ok [create_parent p, write_over p (u64_ne_bytes next), set_len p 8])"

subsection \<open>The transition\<close>

record env =
  e_run :: path
  e_nextroot :: path
  e_runtime_dir :: path
  e_kmsg :: path
  e_systemctl :: "path option"
  e_now :: nat
  e_mounts :: "mount_entry list"

definition system_env :: "host \<Rightarrow> world \<Rightarrow> env" where
  "system_env h w =
     \<lparr>e_run = ''/run'', e_nextroot = NEXTROOT, e_runtime_dir = RUNTIME_DIR, e_kmsg = ''/dev/kmsg'',
      e_systemctl = find_tool h None ''systemctl'', e_now = h_now h,
      e_mounts = (case h_live h (w_log w) of Inl _ \<Rightarrow> [] | Inr ms \<Rightarrow> ms)\<rparr>"

definition nextroot_mounted :: "env \<Rightarrow> bool" where
  "nextroot_mounted e = is_mount_point (e_mounts e) (e_nextroot e)"

definition env_mount_points :: "env \<Rightarrow> path list" where
  "env_mount_points e = map mount_point (e_mounts e)"

definition saved_snapshot :: "env \<Rightarrow> world \<Rightarrow> snapshot option \<times> world" where
  "saved_snapshot e w = load_snapshot (join (e_runtime_dir e) SNAPSHOT_NAME) w"

datatype outcome = NothingToDo | Entered | Returned nat nat | Disarmed bytes

definition repoint_current_system :: "host \<Rightarrow> path \<Rightarrow> path \<Rightarrow> world \<Rightarrow> (io_error + path option) \<times> world" where
  "repoint_current_system h run target w =
     (let link = join run ''current-system''; temp = join run (''.current-system.'' @ show_nat (h_pid h)) in
      case read_link link w of
        (prev, w1) \<Rightarrow>
     (let w2 = snd (remove_file temp w1) in
      case symlink target temp w2 of
        (Some e, w3) \<Rightarrow> (Inl e, w3)
      | (None, w3) \<Rightarrow>
          (case rename temp link w3 of
             (Some e, w4) \<Rightarrow> (Inl e, snd (remove_file temp w4))
           | (None, w4) \<Rightarrow> (Inr (case prev of Inl _ \<Rightarrow> None | Inr q \<Rightarrow> Some q), w4))))"

definition set_noexec :: "path \<Rightarrow> bool \<Rightarrow> world \<Rightarrow> world" where
  "set_noexec run on w = snd (act_only (OpSetNoexec run on) w)"

definition kept_of :: "snapshot option \<Rightarrow> snapshot" where
  "kept_of s = (case s of None \<Rightarrow> default_snapshot | Some k \<Rightarrow> k)"

definition disarm :: "host \<Rightarrow> env \<Rightarrow> plan \<Rightarrow> bytes \<Rightarrow> world \<Rightarrow> outcome \<times> world" where
  "disarm h e p why w =
     (let w1 = record_refusal h (e_mounts e) p why (e_now e) w;
          w2 = snd (detach_tree (e_nextroot e) w1)
      in if p_entered_at p \<noteq> None then (Disarmed why, w2)
         else
          (let w3 = snd (close_backend_deferred h p w2);
               (saved, w4) = saved_snapshot e w3;
               kept = kept_of saved;
               w5 = snd (remove_dropin (e_run e) kept w4);
               w6 = snd (remove_masks (e_run e) (p_masks p) (p_boot_masks p) kept w5);
               w7 = restore_settings (p_kernel_settings p) w6;
               w8 = remove_runtime_dir (e_runtime_dir e) w7;
               w9 = (if p_run_noexec p then set_noexec (e_run e) True w8 else w8)
           in (Disarmed why, w9)))"

definition repoint_and_check :: "host \<Rightarrow> env \<Rightarrow> root_side \<Rightarrow> world \<Rightarrow> bytes option \<times> world" where
  "repoint_and_check h e side w =
     (case (case rs_system side of
              None \<Rightarrow> (Inr None, w)
            | Some system \<Rightarrow> repoint_current_system h (e_run e) system w) of
        (Inl err, w1) \<Rightarrow> (Some (''could not repoint current-system: '' @ show_io_error err), w1)
      | (Inr previous, w1) \<Rightarrow>
          (case precheck (e_nextroot e) (rs_init side) w1 of
             (None, w2) \<Rightarrow> (None, w2)
           | (Some err, w2) \<Rightarrow>
               (Some (show_precheck_error err),
                case previous of None \<Rightarrow> w2 | Some q \<Rightarrow> snd (repoint_current_system h (e_run e) q w2))))"

definition narrow_snapshot :: "env \<Rightarrow> world \<Rightarrow> world" where
  "narrow_snapshot e w =
     (case saved_snapshot e w of
        (None, w1) \<Rightarrow> w1
      | (Some saved, w1) \<Rightarrow>
          (case still_present saved (e_run e) w1 of
             (narrowed, w2) \<Rightarrow>
               if narrowed \<noteq> saved
               then snd (write_atomic (join (e_runtime_dir e) SNAPSHOT_NAME) (to_text narrowed) w2)
               else w2))"

definition prune_utab :: "env \<Rightarrow> world \<Rightarrow> world" where
  "prune_utab e w = snd (update_utab_at (e_run e) (\<lambda>text. surviving_lines text (e_mounts e) (e_nextroot e)) w)"

definition repoint_back :: "host \<Rightarrow> env \<Rightarrow> root_side \<Rightarrow> world \<Rightarrow> world" where
  "repoint_back h e side w =
     (case rs_system side of None \<Rightarrow> w | Some system \<Rightarrow> snd (repoint_current_system h (e_run e) system w))"

definition entered_plan :: "plan \<Rightarrow> nat \<Rightarrow> plan" where
  "entered_plan p now = p\<lparr>p_armed := None, p_entered_at := Some now\<rparr>"

definition save_run_records :: "env \<Rightarrow> world \<Rightarrow> world" where
  "save_run_records e w =
     (case save_records (e_run e) (join (e_runtime_dir e) RECORDS_NAME) w of
        (None, w1) \<Rightarrow> w1
      | (Some _, w1) \<Rightarrow> snd (remove_file (join (e_runtime_dir e) RECORDS_NAME) w1))"

text \<open>What an entry does once the masks are in place; none of it is checked.\<close>

definition enter_best_effort :: "host \<Rightarrow> env \<Rightarrow> plan \<Rightarrow> world \<Rightarrow> world" where
  "enter_best_effort h e p w =
     (let w1 = snd (install_units (e_run e) (p_session_units p) w);
          w2 = (if p_read_only_disks p then snd (install_rule (e_run e) (join (e_runtime_dir e) BINARY_NAME) w1) else w1);
          w3 = snd (mask_units_best_effort (e_run e) (p_boot_masks p) w2)
      in snd (write_plan h (entered_plan p (e_now e)) (join (e_runtime_dir e) PLAN_NAME)
           (save_run_records e (prune_utab e (narrow_snapshot e w3)))))"

definition enter :: "host \<Rightarrow> env \<Rightarrow> plan \<Rightarrow> world \<Rightarrow> outcome \<times> world" where
  "enter h e p w =
     (case repoint_and_check h e (p_hidden p) w of
        (Some why, w1) \<Rightarrow> disarm h e p why w1
      | (None, w1) \<Rightarrow>
          (case mask_units (e_run e) (p_masks p) w1 of
             (Inl err, w2) \<Rightarrow>
               disarm h e p (''could not mask decoy units: '' @ show_io_error err) (repoint_back h e (p_decoy p) w2)
           | (Inr _, w2) \<Rightarrow> (Entered, enter_best_effort h e p w2)))"

text \<open>What a return reads before the scrub removes the runtime directory.\<close>

record saved_files =
  s_snapshot :: "snapshot option"
  s_utab :: "bytes option"
  s_utab_mounts :: "mount_entry list option"
  s_records :: "bytes option"
  s_network :: "bytes option"
  s_binary :: "bytes option"

definition read_ok :: "path \<Rightarrow> world \<Rightarrow> bytes option \<times> world" where
  "read_ok p w = (case read_file p w of (Inl _, w1) \<Rightarrow> (None, w1) | (Inr b, w1) \<Rightarrow> (Some b, w1))"

definition read_saved :: "env \<Rightarrow> plan \<Rightarrow> world \<Rightarrow> saved_files \<times> world" where
  "read_saved e p w =
     (let (snap, w1) = saved_snapshot e w;
          (utab, w2) = read_ok (join (e_runtime_dir e) UTAB_NAME) w1;
          (ids, w3) = read_to_string (join (e_runtime_dir e) UTAB_MOUNTS_NAME) w2;
          (records, w4) = read_ok (join (e_runtime_dir e) RECORDS_NAME) w3;
          (network, w5) = read_ok (join (e_runtime_dir e) NET_RECORD_NAME) w4;
          (binary, w6) = (if rs_system (p_decoy p) = None then read_ok (join (e_runtime_dir e) BINARY_NAME) w5 else (None, w5))
      in (\<lparr>s_snapshot = snap, s_utab = utab,
           s_utab_mounts = (case ids of Inl _ \<Rightarrow> None | Inr text \<Rightarrow> Some (parse_mountinfo text)),
           s_records = records, s_network = network, s_binary = binary\<rparr>, w6))"

definition runtime_rel :: "env \<Rightarrow> path" where
  "runtime_rel e = (case path_strip_prefix (e_run e) (e_runtime_dir e) of None \<Rightarrow> [] | Some r \<Rightarrow> utf8_lossy r)"

definition scrub_run :: "env \<Rightarrow> snapshot option \<Rightarrow> world \<Rightarrow> scrub_report \<times> world" where
  "scrub_run e snap w =
     (let (kept, w1) = (case snap of Some s \<Rightarrow> (s, w) | None \<Rightarrow> take_snapshot (e_run e) w)
      in scrub (e_run e) kept [runtime_rel e] (env_mount_points e) w1)"

definition install_fixup :: "host \<Rightarrow> env \<Rightarrow> plan \<Rightarrow> bytes option \<Rightarrow> world \<Rightarrow> bool \<times> world" where
  "install_fixup h e p binary w =
     (case binary of
        None \<Rightarrow> (False, w)
      | Some b \<Rightarrow>
          (case decoy_keeps_records (e_nextroot e) w of
             (False, w1) \<Rightarrow> (False, w1)
           | (True, w1) \<Rightarrow>
               (case boot_install (h_pid h) (e_run e) b (p_run_noexec p) w1 of (r, w2) \<Rightarrow> (r = None, w2))))"

definition reset_new_failures :: "path \<Rightarrow> bytes list \<Rightarrow> world \<Rightarrow> world" where
  "reset_new_failures systemctl failed_at_entry w =
     (case failed_units systemctl w of
        (None, w1) \<Rightarrow> w1
      | (Some units, w1) \<Rightarrow>
          (let new = filter (\<lambda>u. u \<notin> set failed_at_entry) units in
           if new = [] then w1 else snd (run_bounded systemctl (''reset-failed'' # new) w1)))"

definition OWN_JOBS :: "bytes list" where "OWN_JOBS = [''soft-reboot.target'', ''systemd-soft-reboot.service'']"

definition settle_jobs :: "host \<Rightarrow> env \<Rightarrow> plan \<Rightarrow> world \<Rightarrow> world" where
  "settle_jobs h e p w =
     (case e_systemctl e of
        None \<Rightarrow> w
      | Some systemctl \<Rightarrow>
          snd (wait_for_other_jobs (h_polls h) systemctl OWN_JOBS (reset_new_failures systemctl (p_failed_at_entry p) w)))"

definition restored_ids :: "plan \<Rightarrow> (int \<times> int) list option" where
  "restored_ids p =
     (if p_decoy_mounts p = [] then None
      else Some (filter_map (\<lambda>m. map_option (\<lambda>i. (dm_id m, i)) (dm_restored m)) (p_decoy_mounts p)))"

definition restore_utab :: "env \<Rightarrow> plan \<Rightarrow> saved_files \<Rightarrow> world \<Rightarrow> world" where
  "restore_utab e p s w =
     (case s_utab s of
        None \<Rightarrow> w
      | Some saved \<Rightarrow>
          snd (update_utab_at (e_run e)
                 (\<lambda>_. restored_lines saved (s_utab_mounts s) (restored_ids p) (e_mounts e) (e_nextroot e)) w))"

definition kernel_cursor :: "host \<Rightarrow> env \<Rightarrow> world \<Rightarrow> nat option \<times> world" where
  "kernel_cursor h e w =
     (case act_only (OpOpen (e_kmsg e)) w of
        (Some _, w1) \<Rightarrow> (None, w1)
      | (None, w1) \<Rightarrow> (next_kernel_seqnum (h_kmsg h (w_log w1)), w1))"

definition write_cursor :: "host \<Rightarrow> env \<Rightarrow> world \<Rightarrow> world" where
  "write_cursor h e w =
     (case kernel_cursor h e w of
        (None, w1) \<Rightarrow> w1
      | (Some next, w1) \<Rightarrow> snd (write_kernel_seqnum (e_run e) next w1))"

text \<open>A return from the passed check to the cursor, in two parts: what undoes the session on the
  files, and what waits for the session's units to have stopped.\<close>

definition leave_files :: "host \<Rightarrow> env \<Rightarrow> plan \<Rightarrow> saved_files \<Rightarrow> world \<Rightarrow> scrub_report \<times> world" where
  "leave_files h e p s w =
     (let w1 = restore_settings (p_kernel_settings p) w;
          w2 = remove_rule (e_run e) w1;
          w3 = snd (release (h_sys h) (e_runtime_dir e) w2);
          w4 = snd (remove_dropin (e_run e) (kept_of (s_snapshot s)) w3);
          (report, w5) = scrub_run e (s_snapshot s) w4;
          w6 = restore_records (e_run e) (s_records s) w5;
          (fixup, w7) = install_fixup h e p (s_binary s) w6
      in (report, if p_run_noexec p \<and> \<not> fixup then set_noexec (e_run e) True w7 else w7))"

definition leave_settled :: "host \<Rightarrow> env \<Rightarrow> plan \<Rightarrow> saved_files \<Rightarrow> world \<Rightarrow> world" where
  "leave_settled h e p s w =
     (let w1 = settle_jobs h e p w;
          w2 = network_restore (e_run e) (h_net h) SYS_CLASS_NET PROC_HOSTNAME (find_tool h None ''ip'') (h_net_reader h) (s_network s) w1
      in restore_utab e p s w2)"

definition leave :: "host \<Rightarrow> env \<Rightarrow> plan \<Rightarrow> world \<Rightarrow> outcome \<times> world" where
  "leave h e p w =
     (let (s, w1) = read_saved e p w in
      case repoint_and_check h e (p_decoy p) w1 of
        (Some why, w2) \<Rightarrow> disarm h e p why (repoint_back h e (p_hidden p) w2)
      | (None, w2) \<Rightarrow>
          (let (report, w3) = leave_files h e p s w2 in
           (Returned (length (removed report)) (length (failed report)),
            write_cursor h e (leave_settled h e p s w3))))"

definition run_transition :: "host \<Rightarrow> env \<Rightarrow> world \<Rightarrow> outcome \<times> world" where
  "run_transition h e w =
     (case read_to_string (join (e_runtime_dir e) PLAN_NAME) w of
        (content, w1) \<Rightarrow>
          (case load_plan (h_plan_version h) (h_plan_reader h) content of
             Inl _ \<Rightarrow> (NothingToDo, w1)
           | Inr p \<Rightarrow>
               if \<not> nextroot_mounted e then (NothingToDo, w1)
               else if armed_for p Enter (e_now e) then enter h e p w1
               else if armed_for p Leaving (e_now e) then leave h e p w1
               else disarm h e p ''not armed for this transition'' w1))"

section \<open>Lemmas\<close>

subsection \<open>Outcomes\<close>

lemma disarm_outcome: "disarm h e p why w = (out, w') \<Longrightarrow> out = Disarmed why"
  by (auto simp: disarm_def Let_def split: prod.splits if_splits)

lemma enter_outcome: "enter h e p w = (out, w') \<Longrightarrow> out = Entered \<or> (\<exists>why. out = Disarmed why)"
  by (auto simp: enter_def split: prod.splits option.splits sum.splits dest!: disarm_outcome)

lemma leave_outcome: "leave h e p w = (out, w') \<Longrightarrow> (\<exists>n m. out = Returned n m) \<or> (\<exists>why. out = Disarmed why)"
  by (auto simp: leave_def Let_def split: prod.splits option.splits dest!: disarm_outcome)

lemma read_to_string_read:
  "read_to_string p w = (r, w') \<Longrightarrow> w_fs w' = w_fs w \<and> w_log w' = OpRead p # w_log w"
  by (auto simp: read_to_string_def read_file_def attempt_def split: prod.splits option.splits sum.splits node.splits if_splits)

text \<open>The plan a transition finds.\<close>

definition plan_found :: "host \<Rightarrow> env \<Rightarrow> world \<Rightarrow> plan_error + plan" where
  "plan_found h e w = load_plan (h_plan_version h) (h_plan_reader h) (fst (read_to_string (join (e_runtime_dir e) PLAN_NAME) w))"

lemma run_transition_cases:
  assumes "run_transition h e w = (out, w')"
  obtains (Nothing) "out = NothingToDo" "(\<exists>err. plan_found h e w = Inl err) \<or> \<not> nextroot_mounted e"
      "w' = snd (read_to_string (join (e_runtime_dir e) PLAN_NAME) w)"
  | (Enter) p where "plan_found h e w = Inr p" "nextroot_mounted e" "armed_for p Enter (e_now e)"
      "enter h e p (snd (read_to_string (join (e_runtime_dir e) PLAN_NAME) w)) = (out, w')"
  | (Leave) p where "plan_found h e w = Inr p" "nextroot_mounted e" "armed_for p Leaving (e_now e)"
      "leave h e p (snd (read_to_string (join (e_runtime_dir e) PLAN_NAME) w)) = (out, w')"
  | (Disarm) p where "plan_found h e w = Inr p" "nextroot_mounted e"
      "\<not> armed_for p Enter (e_now e)" "\<not> armed_for p Leaving (e_now e)"
      "disarm h e p ''not armed for this transition'' (snd (read_to_string (join (e_runtime_dir e) PLAN_NAME) w)) = (out, w')"
  using assms by (auto simp: run_transition_def plan_found_def split: prod.splits sum.splits if_splits)

subsection \<open>What an entry leaves\<close>

lemma mask_loop_valid: "mask_loop dir names written w = (Inr out, w') \<Longrightarrow> \<forall>n\<in>set names. valid_unit_name n"
  by (induction dir names written w rule: mask_loop.induct)
     (auto simp: Let_def split: if_splits prod.splits option.splits)

lemma valid_unit_name_not_wants: "valid_unit_name n \<Longrightarrow> n \<noteq> t @ ''.wants''"
  by (auto simp: valid_unit_name_def UNIT_SUFFIXES_def ends_with_iff suffix_def append_eq_append_conv2 Cons_eq_append_conv append_eq_Cons_conv)

text \<open>Reading the host changes nothing.\<close>

lemma read_quiet:
  "read_file p w = (r, w') \<Longrightarrow> touches K w0 w \<Longrightarrow> touches K w0 w'"
  "read_link p w = (q, w') \<Longrightarrow> touches K w0 w \<Longrightarrow> touches K w0 w'"
  "lstat p w = (s, w') \<Longrightarrow> touches K w0 w \<Longrightarrow> touches K w0 w'"
  "read_dir p w = (u, w') \<Longrightarrow> touches K w0 w \<Longrightarrow> touches K w0 w'"
  by (meson read_file_touches read_link_touches lstat_touches read_dir_touches touches_trans)+

declare read_quiet [quiet]

lemma read_to_string_quiet [quiet]: "read_to_string p w = (r, w') \<Longrightarrow> touches K w0 w \<Longrightarrow> touches K w0 w'"
  by (auto simp: read_to_string_def split: prod.splits sum.splits; elim quiet)

lemma current_setting_quiet [quiet]: "current_setting p w = (r, w') \<Longrightarrow> touches K w0 w \<Longrightarrow> touches K w0 w'"
  by (auto simp: current_setting_def split: prod.splits sum.splits; elim quiet)

lemma saved_snapshot_quiet [quiet]: "saved_snapshot e w = (r, w') \<Longrightarrow> touches K w0 w \<Longrightarrow> touches K w0 w'"
  by (auto simp: saved_snapshot_def load_snapshot_def split: prod.splits sum.splits; elim quiet)

lemma present_loop_quiet [quiet]: "present_loop run es w = (r, w') \<Longrightarrow> touches K w0 w \<Longrightarrow> touches K w0 w'"
proof (induction es arbitrary: w r)
  case (Cons a as)
  show ?case using Cons.prems by (auto split: prod.splits; elim quiet Cons.IH)
qed simp

lemma still_present_quiet [quiet]: "still_present s run w = (r, w') \<Longrightarrow> touches K w0 w \<Longrightarrow> touches K w0 w'"
  by (auto simp: still_present_def split: prod.splits sum.splits; elim quiet)

lemma read_link_same_tree: "read_link p w = (r, w') \<Longrightarrow> same_tree w w'"
  using read_link_touches by (simp add: same_tree_def)

lemma collect_same_tree:
  "collect run rel depth acc w = (r, w') \<Longrightarrow> same_tree w w'"
  "collect_each run rel depth names acc w = (r, w') \<Longrightarrow> same_tree w w'"
proof (induction run rel depth acc w and run rel depth names acc w arbitrary: r w' and r w' rule: collect_collect_each.induct)
  case (1 run rel depth acc w)
  then show ?case
    by (auto simp: collect.simps [of run rel] Let_def split: prod.splits sum.splits node.splits if_splits
        dest!: same_tree_reads read_link_same_tree intro: same_tree_trans)
next
  case (3 run rel depth name names acc w)
  then show ?case by (auto split: prod.splits sum.splits intro: same_tree_trans)
qed simp_all

lemma same_tree_quiet: "same_tree w w' \<Longrightarrow> touches K w0 w \<Longrightarrow> touches K w0 w'"
  by (auto simp: same_tree_def intro: touches_trans touches_mono)

lemma save_loop_quiet [quiet]: "save_loop run ds acc w = (r, w') \<Longrightarrow> touches K w0 w \<Longrightarrow> touches K w0 w'"
proof (induction ds arbitrary: w acc)
  case (Cons a as)
  show ?case using Cons.prems
    by (auto split: prod.splits sum.splits dest!: collect_same_tree intro: same_tree_quiet Cons.IH)
qed simp

subsection \<open>The cursor\<close>

definition cursor_path :: "env \<Rightarrow> path" where
  "cursor_path e = join (e_run e) KERNEL_SEQNUM"

lemma le_bytes_length [simp]: "length (le_bytes k n) = k"
  by (induction k arbitrary: n) simp_all

lemma u64_ne_bytes_length [simp]: "length (u64_ne_bytes n) = 8"
  by (simp add: u64_ne_bytes_def)

lemma write_kernel_seqnum_done:
  assumes "write_kernel_seqnum run next w = (None, w')"
  shows "node_at w' (join run KERNEL_SEQNUM) = Some (File (u64_ne_bytes next))"
proof -
  let ?p = "join run KERNEL_SEQNUM" and ?b = "u64_ne_bytes next"
  obtain w1 w2 where s: "write_over ?p ?b w1 = (None, w2)" "set_len ?p 8 w2 = (None, w')"
    using assms by (auto simp: write_kernel_seqnum_def Let_def split: prod.splits option.splits)
  have "?b \<noteq> []" by (metis list.size(3) u64_ne_bytes_length zero_neq_numeral)
  with s(1) have "\<exists>rest. node_at w2 ?p = Some (File (?b @ rest))"
    by (auto simp: write_over_def put_at_def split: prod.splits option.splits node.splits if_splits)
  with s(2) show ?thesis
    by (auto simp: set_len_def attempt_def split: prod.splits option.splits node.splits)
qed

lemma write_kernel_seqnum_result:
  "\<exists>r. write_kernel_seqnum run next w = (r, snd (write_kernel_seqnum run next w))
     \<and> (r = None \<longrightarrow> node_at (snd (write_kernel_seqnum run next w)) (join run KERNEL_SEQNUM) = Some (File (u64_ne_bytes next)))"
  using write_kernel_seqnum_done by (metis prod.collapse)

section \<open>Properties\<close>

text \<open>C7: without a plan, or with nothing mounted at the next root, the transition reads the plan's
  file and does nothing else.  It enters or returns only on a plan that was loaded, with a next root
  mounted, armed for that direction at most half an hour before and not in the future; a next root it
  meets otherwise is disarmed.\<close>

theorem transition_acts_only_when_armed:
  assumes "run_transition h e w = (out, w')"
  shows "case out of
      NothingToDo \<Rightarrow> w_fs w' = w_fs w \<and> w_log w' = OpRead (join (e_runtime_dir e) PLAN_NAME) # w_log w
    | Entered \<Rightarrow> (\<exists>p a. plan_found h e w = Inr p \<and> nextroot_mounted e \<and> p_armed p = Some a \<and> arm_direction a = Enter
        \<and> arm_at a \<le> e_now e \<and> e_now e \<le> arm_at a + 1800)
    | Returned n m \<Rightarrow> (\<exists>p a. plan_found h e w = Inr p \<and> nextroot_mounted e \<and> p_armed p = Some a \<and> arm_direction a = Leaving
        \<and> arm_at a \<le> e_now e \<and> e_now e \<le> arm_at a + 1800)
    | Disarmed why \<Rightarrow> (\<exists>p. plan_found h e w = Inr p \<and> nextroot_mounted e)"
  using assms
proof (cases rule: run_transition_cases)
  case Nothing
  obtain r where "read_to_string (join (e_runtime_dir e) PLAN_NAME) w = (r, w')" using Nothing(3) by (metis prod.collapse)
  from read_to_string_read [OF this] Nothing(1) show ?thesis by simp
next
  case (Enter p)
  then show ?thesis using enter_outcome [OF Enter(4)] armed_for_SomeD [OF Enter(3)] by auto
next
  case (Leave p)
  then show ?thesis using leave_outcome [OF Leave(4)] armed_for_SomeD [OF Leave(3)] by auto
next
  case (Disarm p)
  then show ?thesis using disarm_outcome [OF Disarm(5)] by auto
qed

text \<open>A host with a session plan, a decoy and a hidden root.\<close>

definition armed_plan :: "direction \<Rightarrow> plan" where
  "armed_plan d = sample_plan\<lparr>p_armed := Some \<lparr>arm_direction = d, arm_at = 100\<rparr>\<rparr>"

definition transition_host :: "direction \<Rightarrow> host" where
  "transition_host d = sample_host\<lparr>h_plan_reader := \<lambda>_. Inr (armed_plan d), h_kmsg := \<lambda>_. [Chunk ''6,41,1,-;x'', Drained]\<rparr>"

definition transition_env :: env where
  "transition_env =
     \<lparr>e_run = ''/run'', e_nextroot = NEXTROOT, e_runtime_dir = RUNTIME_DIR, e_kmsg = ''/dev/kmsg'', e_systemctl = None,
      e_now = 160, e_mounts = [sample_entry\<lparr>mount_point := NEXTROOT\<rparr>]\<rparr>"

definition transition_world :: world where
  "transition_world =
     \<lparr>w_fs = [(key_of ''/run'', Dir), (key_of RUNTIME_DIR, Dir), (key_of (join RUNTIME_DIR PLAN_NAME), File ''{}''),
             (key_of ''/etc'', Dir), (key_of ''/etc/passwd'', File ''root'')],
      w_log = [], w_fault = (\<lambda>_. None), w_dev = (\<lambda>_. 0), w_torn = (\<lambda>_ _. False), w_short = (\<lambda>_. None),
      w_points = (\<lambda>l. foldr (\<lambda>a ps. case a of OpDetach q \<Rightarrow> remove1 q ps | _ \<Rightarrow> ps) l [NEXTROOT]),
      w_mode = (\<lambda>_. 0x81ED), w_reply = (\<lambda>_. [])\<rparr>"

theorem transition_acts_only_when_armed_witness:
  "fst (run_transition (transition_host Enter) transition_env transition_world) = Entered
   \<and> p_armed (armed_plan Enter) = Some \<lparr>arm_direction = Enter, arm_at = 100\<rparr>
   \<and> (\<exists>p. plan_found (transition_host Enter) transition_env transition_world = Inr p)"
proof -
  let ?w = "snd (read_to_string (join (e_runtime_dir transition_env) PLAN_NAME) transition_world)"
  let ?h = "transition_host Enter" and ?e = transition_env and ?p = "armed_plan Enter"
  have "fst (repoint_and_check ?h ?e (p_hidden ?p) ?w) = None"
    "\<not> isl (fst (mask_units (e_run ?e) (p_masks ?p) (snd (repoint_and_check ?h ?e (p_hidden ?p) ?w))))" by code_simp+
  then have "fst (enter ?h ?e ?p ?w) = Entered" by (auto simp: enter_def split: prod.splits option.splits sum.splits)
  moreover have f: "plan_found ?h ?e transition_world = Inr ?p" by code_simp
  moreover have "nextroot_mounted ?e" by code_simp
  moreover have "armed_for ?p Enter (e_now ?e)"
    by (simp add: armed_for_def is_some_and_def armed_plan_def valid_at_def transition_env_def ARM_VALIDITY_SECS_def)
  ultimately have r: "fst (run_transition ?h ?e transition_world) = Entered"
    by (auto simp: run_transition_def plan_found_def split: prod.splits)
  obtain w' where "run_transition ?h ?e transition_world = (Entered, w')" using r by (metis prod.collapse)
  from transition_acts_only_when_armed [OF this] r show ?thesis by (auto simp: armed_plan_def)
qed

text \<open>C21: a return takes the kernel log cursor after everything else it does, so that no record it
  caused is left for the decoy's journal: the last thing it opens is the kernel log, the cursor is the
  number after the last record read there, and all it does afterwards is write it; a write that
  succeeds leaves exactly the eight bytes of that number.\<close>

theorem return_takes_cursor_last:
  assumes "leave h e p w = (Returned n m, w')"
  shows "\<exists>w1 l. w_log w1 = OpOpen (e_kmsg e) # l \<and>
    (case (if w_fault w1 (w_log w1) = None then next_kernel_seqnum (h_kmsg h (w_log w1)) else None) of
       None \<Rightarrow> w' = w1
     | Some next \<Rightarrow> \<exists>r. write_kernel_seqnum (e_run e) next w1 = (r, w')
         \<and> (r = None \<longrightarrow> node_at w' (cursor_path e) = Some (File (u64_ne_bytes next))))"
proof -
  obtain s w0 where s: "read_saved e p w = (s, w0)" by fastforce
  obtain w3 where w3: "w' = write_cursor h e w3"
    using assms s by (auto simp: leave_def Let_def split: prod.splits option.splits dest!: disarm_outcome)
  let ?w1 = "w3\<lparr>w_log := OpOpen (e_kmsg e) # w_log w3\<rparr>"
  show ?thesis
  proof (intro exI conjI)
    show "w_log ?w1 = OpOpen (e_kmsg e) # w_log w3" by simp
    show "case (if w_fault ?w1 (w_log ?w1) = None then next_kernel_seqnum (h_kmsg h (w_log ?w1)) else None) of
       None \<Rightarrow> w' = ?w1
     | Some next \<Rightarrow> \<exists>r. write_kernel_seqnum (e_run e) next ?w1 = (r, w')
         \<and> (r = None \<longrightarrow> node_at w' (cursor_path e) = Some (File (u64_ne_bytes next)))"
      using w3
      by (auto simp: write_cursor_def kernel_cursor_def act_only_def attempt_def cursor_path_def
          split: option.splits prod.splits intro: write_kernel_seqnum_result)
  qed
qed

theorem return_takes_cursor_last_witness:
  "\<exists>n m w1 l. fst (leave (transition_host Leaving) transition_env (armed_plan Leaving) transition_world) = Returned n m
     \<and> w_log w1 = OpOpen ''/dev/kmsg'' # l
     \<and> (snd (leave (transition_host Leaving) transition_env (armed_plan Leaving) transition_world) = w1
        \<or> (\<exists>r next. write_kernel_seqnum ''/run'' next w1
             = (r, snd (leave (transition_host Leaving) transition_env (armed_plan Leaving) transition_world))))"
proof -
  let ?h = "transition_host Leaving" and ?e = transition_env and ?p = "armed_plan Leaving"
  have "fst (repoint_and_check ?h ?e (p_decoy ?p) (snd (read_saved ?e ?p transition_world))) = None" by code_simp
  then obtain n m w' where l: "leave ?h ?e ?p transition_world = (Returned n m, w')"
    by (cases "leave ?h ?e ?p transition_world") (auto simp: leave_def Let_def split: prod.splits option.splits)
  have k: "e_kmsg ?e = ''/dev/kmsg''" "e_run ?e = ''/run''" by (simp_all add: transition_env_def)
  from return_takes_cursor_last [OF l] l show ?thesis
    unfolding k by (auto split: option.splits if_splits) blast+
qed

end
