(* ===== verification/Confinement.thy ===== *)
theory Confinement
  imports Transition
begin

text \<open>
  Where the transition may write.  Every step of it is confined to the files below the \<^verbatim>\<open>/run\<close> root it was
  given, whatever the host refuses and whatever the files there hold, apart from three things the sources
  name: the kernel settings of the plan, the hostname, and the record of a refused switch.  The locale
  \<open>run_area\<close> states what a step relies on, the root and the keys it may touch, and its lemmas follow the steps
  of the components; it is interpreted on the transition's root.
\<close>

section \<open>Steps over a well-named tree\<close>

text \<open>Since an earlier state only the keys of a set were touched, and the names in the tree are file
  names, so that a walk over them stays below its root.\<close>

definition stays :: "key set \<Rightarrow> world \<Rightarrow> world \<Rightarrow> bool" where
  "stays K w0 w \<longleftrightarrow> touches K w0 w \<and> tree_ok (w_fs w)"

lemma staysD: "stays K w0 w \<Longrightarrow> touches K w0 w" "stays K w0 w \<Longrightarrow> tree_ok (w_fs w)"
  by (simp_all add: stays_def)

lemma key_names: "prefix k (key_of p) \<Longrightarrow> Normal n \<in> set k \<Longrightarrow> name_ok n"
  using component_name_ok set_mono_prefix by blast

lemma stays_new:
  assumes "stays K w0 w" "touches M w w'" "M \<subseteq> K" "\<And>k. k \<in> M \<Longrightarrow> \<exists>p. prefix k (key_of p)"
  shows "stays K w0 w'"
proof -
  have "touches K w0 w'" using assms(1-3) touches_trans touches_mono by (metis staysD(1))
  moreover have "name_ok n" if k: "k \<in> dom (map_of (w_fs w'))" "Normal n \<in> set k" for k n
  proof (cases "k \<in> M")
    case True
    then show ?thesis using assms(4) key_names k(2) by blast
  next
    case False
    then have "map_of (w_fs w') k = map_of (w_fs w) k" using assms(2) by (simp add: touches_def)
    then show ?thesis using staysD(2) [OF assms(1)] k unfolding tree_ok_dom by (metis domIff)
  qed
  ultimately show ?thesis by (simp add: stays_def tree_ok_dom)
qed

lemma stays_quiet: "touches {} w w' \<Longrightarrow> stays K w0 w \<Longrightarrow> stays K w0 w'"
  by (rule stays_new [where M = "{}"]) auto

lemma stays_shrinks:
  assumes "shrinks w w'" "touches M w w'" "M \<subseteq> K" "stays K w0 w"
  shows "stays K w0 w'"
proof -
  have "dom (map_of (w_fs w')) \<subseteq> dom (map_of (w_fs w))" using assms(1) unfolding shrinks_def by blast
  then have "tree_ok (w_fs w')" using staysD(2) [OF assms(4)] unfolding tree_ok_dom by blast
  then show ?thesis using assms(2-4) touches_trans touches_mono by (metis stays_def)
qed

named_theorems stay
named_theorems stay_snd

lemma one_key_stays [stay]:
  "write_atomic p b w = (r, w') \<Longrightarrow> stays K w0 w \<Longrightarrow> key_of p \<in> K \<Longrightarrow> stays K w0 w'"
  "symlink t p w = (r, w') \<Longrightarrow> stays K w0 w \<Longrightarrow> key_of p \<in> K \<Longrightarrow> stays K w0 w'"
  "remove_file p w = (r, w') \<Longrightarrow> stays K w0 w \<Longrightarrow> key_of p \<in> K \<Longrightarrow> stays K w0 w'"
  "remove_dir p w = (r, w') \<Longrightarrow> stays K w0 w \<Longrightarrow> key_of p \<in> K \<Longrightarrow> stays K w0 w'"
  "create_dir p w = (r, w') \<Longrightarrow> stays K w0 w \<Longrightarrow> key_of p \<in> K \<Longrightarrow> stays K w0 w'"
  "create_new p b w = (r, w') \<Longrightarrow> stays K w0 w \<Longrightarrow> key_of p \<in> K \<Longrightarrow> stays K w0 w'"
  "rewrite_file c p b w = (r, w') \<Longrightarrow> stays K w0 w \<Longrightarrow> key_of p \<in> K \<Longrightarrow> stays K w0 w'"
  "write_over p b w = (r, w') \<Longrightarrow> stays K w0 w \<Longrightarrow> key_of p \<in> K \<Longrightarrow> stays K w0 w'"
  "set_len p l w = (r, w') \<Longrightarrow> stays K w0 w \<Longrightarrow> key_of p \<in> K \<Longrightarrow> stays K w0 w'"
  using stays_new [where M = "{key_of p}" and w = w and w' = w']
    write_atomic_touches symlink_touches remove_file_touches remove_dir_touches create_dir_touches
    create_new_touches rewrite_file_touches write_over_touches set_len_touches
  by (auto)

lemma one_key_stays_snd [stay_snd]:
  "stays K w0 w \<Longrightarrow> key_of p \<in> K \<Longrightarrow> stays K w0 (snd (write_atomic p b w))"
  "stays K w0 w \<Longrightarrow> key_of p \<in> K \<Longrightarrow> stays K w0 (snd (symlink t p w))"
  "stays K w0 w \<Longrightarrow> key_of p \<in> K \<Longrightarrow> stays K w0 (snd (remove_file p w))"
  "stays K w0 w \<Longrightarrow> key_of p \<in> K \<Longrightarrow> stays K w0 (snd (remove_dir p w))"
  "stays K w0 w \<Longrightarrow> key_of p \<in> K \<Longrightarrow> stays K w0 (snd (create_dir p w))"
  "stays K w0 w \<Longrightarrow> key_of p \<in> K \<Longrightarrow> stays K w0 (snd (create_new p b w))"
  "stays K w0 w \<Longrightarrow> key_of p \<in> K \<Longrightarrow> stays K w0 (snd (rewrite_file c p b w))"
  using one_key_stays by (metis prod.collapse)+

lemma create_dir_all_stays [stay]:
  "create_dir_all p w = (r, w') \<Longrightarrow> stays K w0 w \<Longrightarrow> {k. prefix k (key_of p)} \<subseteq> K \<Longrightarrow> stays K w0 w'"
  using stays_new create_dir_all_touches by blast

lemma create_dir_all_stays_snd [stay_snd]:
  "stays K w0 w \<Longrightarrow> {k. prefix k (key_of p)} \<subseteq> K \<Longrightarrow> stays K w0 (snd (create_dir_all p w))"
  using create_dir_all_stays by (metis prod.collapse)

lemma rename_stays [stay]:
  "rename p q w = (r, w') \<Longrightarrow> stays K w0 w \<Longrightarrow> key_of p \<in> K \<Longrightarrow> key_of q \<in> K \<Longrightarrow> stays K w0 w'"
  using stays_new [where M = "{key_of p, key_of q}" and w = w and w' = w'] rename_touches by auto

lemma remove_dir_all_stays [stay]:
  "remove_dir_all p w = (r, w') \<Longrightarrow> stays K w0 w \<Longrightarrow> {k. prefix (key_of p) k} \<subseteq> K \<Longrightarrow> stays K w0 w'"
  using stays_shrinks remove_dir_all_shrinks remove_dir_all_touches by blast

lemma remove_dir_all_stays_snd [stay_snd]:
  "stays K w0 w \<Longrightarrow> {k. prefix (key_of p) k} \<subseteq> K \<Longrightarrow> stays K w0 (snd (remove_dir_all p w))"
  using remove_dir_all_stays by (metis prod.collapse)

text \<open>Steps that change no file.\<close>

lemma quiet_stays [stay]:
  "read_file p w = (r1, w') \<Longrightarrow> stays K w0 w \<Longrightarrow> stays K w0 w'"
  "read_link p w = (r2, w') \<Longrightarrow> stays K w0 w \<Longrightarrow> stays K w0 w'"
  "lstat p w = (r3, w') \<Longrightarrow> stays K w0 w \<Longrightarrow> stays K w0 w'"
  "read_dir p w = (r4, w') \<Longrightarrow> stays K w0 w \<Longrightarrow> stays K w0 w'"
  "act_only a w = (r5, w') \<Longrightarrow> stays K w0 w \<Longrightarrow> stays K w0 w'"
  "current_setting p w = (r6, w') \<Longrightarrow> stays K w0 w \<Longrightarrow> stays K w0 w'"
  "precheck n i w = (r7, w') \<Longrightarrow> stays K w0 w \<Longrightarrow> stays K w0 w'"
  "detach_loop ms w = (r8, w') \<Longrightarrow> stays K w0 w \<Longrightarrow> stays K w0 w'"
  "list_run run w = (r9, w') \<Longrightarrow> stays K w0 w \<Longrightarrow> stays K w0 w'"
  "read_to_string p w = (r10, w') \<Longrightarrow> stays K w0 w \<Longrightarrow> stays K w0 w'"
  "saved_snapshot e w = (r11, w') \<Longrightarrow> stays K w0 w \<Longrightarrow> stays K w0 w'"
  by (rule stays_quiet; (elim quiet)?; simp add: list_run_same_tree [unfolded same_tree_def])+

lemma quiet_stays_snd [stay_snd]:
  "stays K w0 w \<Longrightarrow> stays K w0 (snd (act_only a w))"
  "stays K w0 w \<Longrightarrow> stays K w0 (snd (detach_tree p w))"
  using stays_quiet [OF act_quiet_snd [OF touches_refl]] stays_quiet [OF detach_tree_quiet [OF touches_refl]] by blast+

section \<open>Names a walk meets\<close>

lemma name_ok_relative: "name_ok n \<Longrightarrow> \<not> is_absolute n"
  by (cases n) (auto simp: name_ok_def is_absolute_def)

lemma join_relative: "\<not> is_absolute p \<Longrightarrow> \<not> is_absolute q \<Longrightarrow> \<not> is_absolute (join p q)"
  by (cases p) (auto simp: join_def is_absolute_def ends_with_iff)

lemma read_dir_names: "read_dir p w = (Inr ns, w') \<Longrightarrow> tree_ok (w_fs w) \<Longrightarrow> \<forall>n\<in>set ns. \<not> is_absolute n"
  using children_of_ok name_ok_relative
  by (fastforce simp: read_dir_def attempt_def split: prod.splits option.splits node.splits)

lemma walk_relative:
  "walk run rel dev depth names w = (out, w') \<Longrightarrow> tree_ok (w_fs w) \<Longrightarrow> \<not> is_absolute rel \<Longrightarrow>
     \<forall>n\<in>set names. \<not> is_absolute n \<Longrightarrow> \<forall>r\<in>set out. \<not> is_absolute r"
  "walk_entry run r dev depth w = (out, w') \<Longrightarrow> tree_ok (w_fs w) \<Longrightarrow> \<not> is_absolute r \<Longrightarrow> \<forall>r\<in>set out. \<not> is_absolute r"
proof (induction run rel dev depth names w and run r dev depth w arbitrary: out w' and out w' rule: walk_walk_entry.induct)
  case (2 run rel dev depth name names w)
  show ?case
  proof (cases "depth = 1 \<and> name \<in> set PRUNED")
    case True
    with 2 show ?thesis by auto
  next
    case False
    obtain es w1 where e: "walk_entry run (join rel name) dev depth w = (es, w1)" by fastforce
    obtain o2 w2 where o: "walk run rel dev depth names w1 = (o2, w2)" by fastforce
    have ok: "tree_ok (w_fs w1)" using same_treeD [OF walk_same_tree(2) [OF e]] "2.prems"(2) by simp
    have "\<forall>r\<in>set es. \<not> is_absolute r"
      using "2.IH"(2) [OF False e "2.prems"(2)] "2.prems"(3,4) join_relative by simp
    moreover have "\<forall>r\<in>set o2. \<not> is_absolute r"
      using "2.IH"(3) [OF False e [symmetric] o ok] "2.prems"(3,4) by simp
    ultimately show ?thesis using "2.prems"(1) False e o by auto
  qed
next
  case (3 run r dev depth w)
  obtain x w1 where x: "lstat (join run r) w = (x, w1)" by fastforce
  have ok: "tree_ok (w_fs w1)" using same_treeD [OF same_tree_reads(1) [OF x]] "3.prems"(2) by simp
  obtain y w2 where y: "read_dir (join run r) w1 = (y, w2)" by fastforce
  have ok2: "tree_ok (w_fs w2)" using same_treeD [OF same_tree_reads(2) [OF y]] ok by simp
  show ?case
    using "3.prems" x y "3.IH" [OF x [symmetric] _ _ y [symmetric]] read_dir_names [of "join run r" w1 _ w2] ok ok2
    by (auto simp: walk_entry.simps [of run r] split: sum.splits if_splits prod.splits)
qed simp

lemma list_run_relative: "list_run run w = (es, w') \<Longrightarrow> tree_ok (w_fs w) \<Longrightarrow> \<forall>r\<in>set es. \<not> is_absolute r"
proof -
  assume l: "list_run run w = (es, w')" and ok: "tree_ok (w_fs w)"
  obtain x w1 where x: "lstat run w = (x, w1)" by fastforce
  have ok1: "tree_ok (w_fs w1)" using same_treeD [OF same_tree_reads(1) [OF x]] ok by simp
  obtain y w2 where y: "read_dir (join run []) w1 = (y, w2)" by fastforce
  have ok2: "tree_ok (w_fs w2)" using same_treeD [OF same_tree_reads(2) [OF y]] ok1 by simp
  have e: "\<not> is_absolute []" by (simp add: is_absolute_def)
  show ?thesis
    using l x y walk_relative(1) [OF _ ok2 e] read_dir_names [of "join run []" w1 _ w2] ok1
    by (auto simp: list_run_def split: sum.splits prod.splits)
qed

section \<open>Below one root\<close>

locale run_area =
  fixes run :: path and K :: "key set"
  assumes absolute: "is_absolute run"
    and area: "unit_area run \<subseteq> K"
begin

text \<open>A path below the root stays there when a relative one is joined to it.\<close>

definition under :: "path \<Rightarrow> bool" where
  "under p \<longleftrightarrow> is_absolute p \<and> prefix (key_of run) (key_of p)"

lemma under_run: "under run"
  using absolute by (simp add: under_def)

lemma under_join: "under p \<Longrightarrow> \<not> is_absolute q \<Longrightarrow> under (join p q)"
  by (auto simp: under_def is_absolute_joinI components_join)

lemma under_at: "under p \<Longrightarrow> key_of p \<in> K"
  using area by (auto simp: under_def)

lemma under_dirs: "under p \<Longrightarrow> {k. prefix k (key_of p)} \<subseteq> K"
  using area prefix_same_cases by (fastforce simp: under_def)

lemma under_tree: "under p \<Longrightarrow> {k. prefix (key_of p) k} \<subseteq> K"
  using area by (auto simp: under_def prefix_def)

lemma at: "\<not> is_absolute q \<Longrightarrow> key_of (join run q) \<in> K"
  by (intro under_at under_join under_run)

lemma tree: "\<not> is_absolute q \<Longrightarrow> {k. prefix (key_of (join run q)) k} \<subseteq> K"
  by (intro under_tree under_join under_run)

lemma at_in: "\<not> is_absolute d \<Longrightarrow> \<not> is_absolute n \<Longrightarrow> key_of (join (join run d) n) \<in> K"
  by (intro under_at under_join under_run)

lemma remove_entry_stays:
  "remove_entry run points rel report w = (r, w') \<Longrightarrow> \<not> is_absolute rel \<Longrightarrow> stays K w0 w \<Longrightarrow> stays K w0 w'"
  using at [of rel] tree [of rel]
  by (auto simp: remove_entry_def detach_under_def split: prod.splits sum.splits if_splits option.splits io_error.splits;
      elim stay; simp)

lemma remove_all_stays:
  "remove_all run points rels report w = (r, w') \<Longrightarrow> \<forall>q\<in>set rels. \<not> is_absolute q \<Longrightarrow> stays K w0 w \<Longrightarrow> stays K w0 w'"
proof (induction rels arbitrary: report w)
  case (Cons a as)
  show ?case using Cons.prems remove_entry_stays by (auto split: prod.splits intro: Cons.IH)
qed simp

lemma scrub_dirs_stays:
  "scrub_dirs run points ds report w = (r, w') \<Longrightarrow> \<forall>d\<in>set ds. \<not> is_absolute d \<Longrightarrow> stays K w0 w \<Longrightarrow> stays K w0 w'"
proof (induction ds arbitrary: report w)
  case (Cons d ds)
  obtain x w1 where x: "read_dir (join run d) w = (x, w1)" by fastforce
  have s1: "stays K w0 w1" using x Cons.prems(3) by (elim stay)
  show ?case
  proof (cases x)
    case (Inl e)
    then show ?thesis using Cons x s1 by simp
  next
    case (Inr cs)
    obtain report1 w2 where a: "remove_all run points (map (join d) cs) report w1 = (report1, w2)" by fastforce
    have "\<forall>n\<in>set cs. \<not> is_absolute n" using read_dir_names x Inr staysD(2) [OF Cons.prems(3)] by blast
    then have "stays K w0 w2" using remove_all_stays [OF a] s1 Cons.prems(2) join_relative by simp
    then show ?thesis using Cons x Inr a by simp
  qed
qed simp

lemma scrub_user_stays: "stays K w0 w \<Longrightarrow> stays K w0 (scrub_user run w)"
proof -
  assume s: "stays K w0 w"
  obtain x w1 where x: "read_dir (join run ''user'') w = (x, w1)" by fastforce
  have s1: "stays K w0 w1" using x s by (elim stay)
  show ?thesis
  proof (cases x)
    case (Inl e)
    then show ?thesis using x s1 by (simp add: scrub_user_def)
  next
    case (Inr cs)
    have n: "\<forall>n\<in>set cs. \<not> is_absolute n" using read_dir_names x Inr staysD(2) [OF s] by blast
    have "stays K w0 (foldl (\<lambda>w c. snd (remove_dir (join (join run ''user'') c) w)) w1 cs)"
      using s1 n
    proof (induction cs arbitrary: w1)
      case (Cons c cs)
      have "key_of (join (join run ''user'') c) \<in> K" using at_in [of "''user''" c] Cons.prems(2) by (simp add: is_absolute_def)
      then show ?case using Cons by (simp add: stay_snd)
    qed simp
    then show ?thesis using x Inr by (simp add: scrub_user_def)
  qed
qed

lemma scrub_stays:
  assumes "scrub run snap extra points w = (r, w')" "\<forall>q\<in>set extra. \<not> is_absolute q" "stays K w0 w"
  shows "stays K w0 w'"
proof -
  obtain r1 w1 where 1: "scrub_dirs run points SESSION_STATE_DIRS \<lparr>removed = [], failed = [], detached = []\<rparr> w = (r1, w1)" by fastforce
  obtain r2 w2 where 2: "remove_all run points SESSION_STATE_FILES r1 w1 = (r2, w2)" by fastforce
  obtain es w3 where 3: "list_run run (scrub_user run w2) = (es, w3)" by fastforce
  let ?go = "filter (\<lambda>e. (\<exists>x\<in>set extra. path_eq x e) \<or> \<not> snap_contains snap e) es"
  obtain r3 w4 where 4: "remove_all run points ?go r2 w3 = (r3, w4)" by fastforce
  have 5: "remove_all run points extra r3 w4 = (r, w')" using assms(1) 1 2 3 4 by (simp add: scrub_def)
  have "stays K w0 w1" by (rule scrub_dirs_stays [OF 1 _ assms(3)]) (simp add: SESSION_STATE_DIRS_def is_absolute_def)
  then have "stays K w0 w2" by (rule remove_all_stays [OF 2, rotated]) (simp add: SESSION_STATE_FILES_def is_absolute_def)
  then have u: "stays K w0 (scrub_user run w2)" by (rule scrub_user_stays)
  then have s3: "stays K w0 w3" using 3 by (elim stay)
  have "\<forall>e\<in>set es. \<not> is_absolute e" using list_run_relative [OF 3 staysD(2) [OF u]] .
  then have "stays K w0 w4" by (intro remove_all_stays [OF 4 _ s3]) simp
  then show ?thesis by (rule remove_all_stays [OF 5 assms(2)])
qed

end

text \<open>The records of the decoy.  The recursion varies over the root too, so it is stated with the
  contract as a premise.\<close>

lemma reconcile_stays:
  "run_area run K \<Longrightarrow> \<not> is_absolute rel \<Longrightarrow> stays K w0 w \<Longrightarrow> stays K w0 (reconcile run rel depth rs w)"
  "run_area run K \<Longrightarrow> \<not> is_absolute rel \<Longrightarrow> \<forall>n\<in>set names. \<not> is_absolute n \<Longrightarrow> stays K w0 w \<Longrightarrow>
     stays K w0 (reconcile_each run rel depth rs names w)"
proof (induction run rel depth rs w and run rel depth rs names w rule: reconcile_reconcile_each.induct)
  case (1 run rel depth rs w)
  note A = run_area.at [OF "1.prems"(1,2)] run_area.tree [OF "1.prems"(1,2)]
  obtain x w1 where x: "lstat (join run rel) w = (x, w1)" by fastforce
  have s1: "stays K w0 w1" using x "1.prems"(3) by (elim stay)
  show ?case
  proof (cases x)
    case (Inl e)
    then show ?thesis using s1 x by (simp add: reconcile.simps [of run rel])
  next
    case (Inr n)
    have rd: "stays K w0 w2 \<and> (\<forall>n\<in>set ns. \<not> is_absolute n)" if "read_dir (join run rel) w1 = (Inr ns, w2)" for ns w2
      using that s1 read_dir_names [OF that staysD(2) [OF s1]] by (auto elim: stay)
    have "stays K w0 (snd (remove_dir_all (join run rel) w1))" "stays K w0 (snd (remove_file (join run rel) w1))"
      using s1 A by (simp_all add: stay_snd)
    note gone = this
    have ih: "stays K w0 (reconcile_each run rel (depth + 1) rs ns w2)"
      if "records_get rs rel = Some KDir" "n = Dir" "depth < RECORD_MAX_DEPTH" "read_dir (join run rel) w1 = (Inr ns, w2)" for ns w2
      using "1.IH" [OF x [symmetric] Inr] that "1.prems"(1,2) rd [OF that(4)] by simp
    have rw: "stays K w0 (snd (rewrite_file False (join run rel) c w2))" if "read_file (join run rel) w1 = (u, w2)" for u w2 c
      using that s1 A(1) quiet_stays(1) by (simp add: stay_snd)
    have rl: "stays K w0 (snd (remove_file (join run rel) w2)) \<and> stays K w0 w2" if "read_link (join run rel) w1 = (u, w2)" for u w2
      using that s1 A(1) quiet_stays(2) by (simp add: stay_snd)
    show ?thesis
      using x s1 Inr ih gone rw rl rd
      by (cases n; cases "records_get rs rel")
         (auto simp: reconcile.simps [of run rel] split: record_kind.splits prod.splits sum.splits elim: stay)
  qed
next
  case (3 run rel depth rs name names w)
  have "stays K w0 (reconcile run (join rel name) depth rs w)"
    using 3 join_relative by simp
  then show ?case using 3 by simp
qed simp

lemma clear_stays:
  "run_area run K \<Longrightarrow> \<not> is_absolute rel \<Longrightarrow> stays K w0 w \<Longrightarrow> stays K w0 (clear_records run rel depth w)"
  "run_area run K \<Longrightarrow> \<not> is_absolute rel \<Longrightarrow> \<forall>n\<in>set names. \<not> is_absolute n \<Longrightarrow> stays K w0 w \<Longrightarrow>
     stays K w0 (clear_each run rel depth names w)"
proof (induction run rel depth w and run rel depth names w rule: clear_records_clear_each.induct)
  case (1 run rel depth w)
  note A = run_area.at [OF "1.prems"(1,2)]
  obtain x w1 where x: "lstat (join run rel) w = (x, w1)" by fastforce
  have s1: "stays K w0 w1" using x "1.prems"(3) by (elim stay)
  show ?case
  proof (cases x)
    case (Inl e)
    then show ?thesis using s1 x by (simp add: clear_records.simps [of run rel])
  next
    case (Inr n)
    have rd: "stays K w0 w2 \<and> (\<forall>n\<in>set ns. \<not> is_absolute n)" if "read_dir (join run rel) w1 = (Inr ns, w2)" for ns w2
      using that s1 read_dir_names [OF that staysD(2) [OF s1]] by (auto elim: stay)
    have ih: "stays K w0 (clear_each run rel (depth + 1) ns w2)"
      if "n = Dir" "depth < RECORD_MAX_DEPTH" "read_dir (join run rel) w1 = (Inr ns, w2)" for ns w2
      using "1.IH" [OF x [symmetric] Inr] that "1.prems"(1,2) rd [OF that(3)] by simp
    show ?thesis
      using x s1 Inr ih A
      by (cases n) (auto simp: clear_records.simps [of run rel] split: prod.splits sum.splits elim: stay intro: stay_snd)
  qed
next
  case (3 run rel depth name names w)
  have "stays K w0 (clear_records run (join rel name) depth w)"
    using 3 join_relative by simp
  then show ?case using 3 by simp
qed simp

context run_area
begin

lemma create_missing_stays:
  "\<forall>(p, _)\<in>set rs. \<not> is_absolute p \<Longrightarrow> stays K w0 w \<Longrightarrow> stays K w0 (create_missing run rs w)"
proof (induction rs arbitrary: w)
  case (Cons a rs)
  obtain rel kind where a: "a = (rel, kind)" by fastforce
  have k: "key_of (join run rel) \<in> K" using at Cons.prems(1) a by simp
  obtain x w1 where x: "lstat (join run rel) w = (x, w1)" by fastforce
  have s1: "stays K w0 w1" using x Cons.prems(2) by (elim stay)
  have "stays K w0 (snd (create_one (join run rel) kind w1))"
    using s1 k by (cases kind) (simp_all add: create_one_def stay_snd)
  then show ?case using Cons x a s1 by (auto split: sum.splits)
qed simp

lemma restore_records_stays:
  assumes "stays K w0 w"
  shows "stays K w0 (restore_records run saved w)"
proof (cases "Option.bind saved decode")
  case None
  have "stays K w0 (clear_records run ''resolvconf'' 0 w)"
    by (rule clear_stays(1) [OF _ _ assms]) (unfold_locales, simp add: is_absolute_def)
  then show ?thesis using None by (simp add: restore_records_def RECORD_DIRS_def)
next
  case (Some rs)
  have "stays K w0 (reconcile run ''resolvconf'' 0 rs w)"
    by (rule reconcile_stays(1) [OF _ _ assms]) (unfold_locales, simp add: is_absolute_def)
  moreover have "\<forall>(p, _)\<in>set rs. \<not> is_absolute p"
  proof -
    obtain b where "decode b = Some rs" using Some by (auto simp: bind_eq_Some_conv)
    then have r: "\<forall>(p, _)\<in>set rs. is_record_path p" using decode_okD by blast
    have "\<not> is_absolute p" if "is_record_path p" for p using record_path_names [OF that] by blast
    with r show ?thesis by auto
  qed
  ultimately show ?thesis using Some create_missing_stays by (simp add: restore_records_def RECORD_DIRS_def)
qed

lemma repoint_stays: "repoint_current_system h run t w = (r, w') \<Longrightarrow> stays K w0 w \<Longrightarrow> stays K w0 w'"
proof -
  assume r: "repoint_current_system h run t w = (r, w')" and s: "stays K w0 w"
  let ?link = "join run ''current-system''" and ?temp = "join run (''.current-system.'' @ show_nat (h_pid h))"
  have k: "key_of ?link \<in> K" "key_of ?temp \<in> K" using at by (simp_all add: is_absolute_def)
  obtain prev w1 where 1: "read_link ?link w = (prev, w1)" by fastforce
  obtain x2 w2 where 2: "remove_file ?temp w1 = (x2, w2)" by fastforce
  obtain x3 w3 where 3: "symlink t ?temp w2 = (x3, w3)" by fastforce
  obtain x4 w4 where 4: "rename ?temp ?link w3 = (x4, w4)" by fastforce
  have "stays K w0 w1" by (rule quiet_stays(2) [OF 1 s])
  then have "stays K w0 w2" by (rule one_key_stays(3) [OF 2 _ k(2)])
  then have s3: "stays K w0 w3" by (rule one_key_stays(2) [OF 3 _ k(2)])
  then have s4: "stays K w0 w4" by (rule rename_stays [OF 4 _ k(2,1)])
  then have "stays K w0 (snd (remove_file ?temp w4))" using k by (simp add: stay_snd)
  then show ?thesis using r 1 2 3 4 s3 s4
    by (auto simp: repoint_current_system_def Let_def split: option.splits)
qed

text \<open>Units and masks.\<close>

lemma mask_loop_stays: "mask_loop dir names written w = (r, w') \<Longrightarrow> under dir \<Longrightarrow> stays K w0 w \<Longrightarrow> stays K w0 w'"
proof (induction dir names written w arbitrary: r rule: mask_loop.induct)
  case (2 dir name names written w)
  show ?case
  proof (cases "valid_unit_name name")
    case True
    have u: "under (join dir name)" using True "2.prems"(2) by (simp add: under_join name_ok_relative valid_unit_name_ok)
    note k = under_at [OF u] under_dirs [OF "2.prems"(2)]
    obtain x1 w1 where 1: "create_dir_all dir w = (x1, w1)" by fastforce
    obtain x2 w2 where 2: "remove_file (join dir name) w1 = (x2, w2)" by fastforce
    obtain x3 w3 where 3: "symlink dev_null (join dir name) w2 = (x3, w3)" by fastforce
    have s1: "stays K w0 w1" by (rule create_dir_all_stays [OF 1 "2.prems"(3) k(2)])
    then have "stays K w0 w2" by (rule one_key_stays(3) [OF 2 _ k(1)])
    then have s3: "stays K w0 w3" by (rule one_key_stays(2) [OF 3 _ k(1)])
    show ?thesis
      using "2.prems"(1,2) True 1 2 3 s1 s3 "2.IH" [of x1 w1 "join dir name" x2 w2 x3 w3]
      by (auto simp: Let_def split: option.splits)
  qed (use "2.prems" in simp)
qed simp

lemma mask_effort_loop_stays: "mask_effort_loop dir names w = (r, w') \<Longrightarrow> under dir \<Longrightarrow> stays K w0 w \<Longrightarrow> stays K w0 w'"
proof (induction names arbitrary: r w)
  case (Cons name names)
  show ?case
  proof (cases "valid_unit_name name")
    case True
    have u: "under (join dir name)" using True Cons.prems(2) by (simp add: under_join name_ok_relative valid_unit_name_ok)
    note k = under_at [OF u] under_dirs [OF Cons.prems(2)]
    obtain x1 w1 where 1: "lstat (join dir name) w = (x1, w1)" by fastforce
    obtain x2 w2 where 2: "create_dir_all dir w1 = (x2, w2)" by fastforce
    obtain x3 w3 where 3: "symlink dev_null (join dir name) w2 = (x3, w3)" by fastforce
    have s1: "stays K w0 w1" by (rule quiet_stays(3) [OF 1 Cons.prems(3)])
    then have s2: "stays K w0 w2" by (rule create_dir_all_stays [OF 2 _ k(2)])
    then have s3: "stays K w0 w3" by (rule one_key_stays(2) [OF 3 _ k(1)])
    show ?thesis
      using Cons.prems(1,2) True 1 2 3 s1 s2 s3 Cons.IH
      by (auto simp: Let_def split: option.splits sum.splits prod.splits)
  qed (use Cons in simp)
qed simp

lemma unmask_loop_stays: "unmask_loop run kept dir names w = (r, w') \<Longrightarrow> \<not> is_absolute dir \<Longrightarrow> stays K w0 w \<Longrightarrow> stays K w0 w'"
proof (induction names arbitrary: r w)
  case (Cons name names)
  show ?case
  proof (cases "valid_unit_name name")
    case True
    have k: "key_of (join run (join dir name)) \<in> K"
      using True Cons.prems(2) by (simp add: at join_relative name_ok_relative valid_unit_name_ok)
    obtain x1 w1 where 1: "read_link (join run (join dir name)) w = (x1, w1)" by fastforce
    obtain x2 w2 where 2: "remove_file (join run (join dir name)) w1 = (x2, w2)" by fastforce
    have s1: "stays K w0 w1" by (rule quiet_stays(2) [OF 1 Cons.prems(3)])
    then have s2: "stays K w0 w2" by (rule one_key_stays(3) [OF 2 _ k])
    show ?thesis
      using Cons.prems True 1 2 s1 s2 Cons.IH
      by (auto simp: Let_def split: option.splits sum.splits prod.splits if_splits)
  qed (use Cons in simp)
qed simp

lemma unit_dirs_under: "under (join run RUNTIME_UNIT_DIR)" "under (join run RUNTIME_CONTROL_DIR)"
  "\<not> is_absolute RUNTIME_UNIT_DIR" "\<not> is_absolute RUNTIME_CONTROL_DIR"
  using under_join [OF under_run] by (simp_all add: RUNTIME_UNIT_DIR_def RUNTIME_CONTROL_DIR_def is_absolute_def)

lemma remove_masks_stays: "stays K w0 w \<Longrightarrow> stays K w0 (snd (remove_masks run ms bs kept w))"
  using unmask_loop_stays unit_dirs_under under_at
  by (fastforce simp: remove_masks_def split: prod.splits intro: stay_snd)

lemma wants_loop_stays:
  "wants_loop dir name targets written w = (r, w') \<Longrightarrow> under dir \<Longrightarrow> \<not> is_absolute name \<Longrightarrow>
     \<forall>t\<in>set targets. valid_unit_name t \<Longrightarrow> stays K w0 w \<Longrightarrow> stays K w0 w'"
proof (induction dir name targets written w arbitrary: r rule: wants_loop.induct)
  case (2 dir name target targets written w)
  let ?wants = "join dir (target @ ''.wants'')"
  have u: "under ?wants" using "2.prems" by (simp add: under_join name_ok_relative wants_name_ok)
  have v: "under (join ?wants name)" using u "2.prems"(3) by (rule under_join)
  obtain x1 w1 where 1: "create_dir_all ?wants w = (x1, w1)" by fastforce
  obtain x2 w2 where 2: "remove_file (join ?wants name) w1 = (x2, w2)" by fastforce
  obtain x3 w3 where 3: "symlink (join ''..'' name) (join ?wants name) w2 = (x3, w3)" by fastforce
  have s1: "stays K w0 w1" by (rule create_dir_all_stays [OF 1 "2.prems"(5) under_dirs [OF u]])
  then have "stays K w0 w2" by (rule one_key_stays(3) [OF 2 _ under_at [OF v]])
  then have s3: "stays K w0 w3" by (rule one_key_stays(2) [OF 3 _ under_at [OF v]])
  show ?case
    using "2.prems"(1-4) 1 2 3 s1 s3 "2.IH" [of ?wants "join ?wants name" x1 w1 x2 w2 x3 w3]
    by (auto simp: Let_def split: option.splits)
qed simp

lemma install_loop_stays:
  "install_loop dir us written w = (r, w') \<Longrightarrow> under dir \<Longrightarrow> stays K w0 w \<Longrightarrow> stays K w0 w'"
proof (induction us arbitrary: written r w)
  case (Cons u us)
  show ?case
  proof (cases "valid_unit_name (ru_name u) \<and> (\<forall>t\<in>set (ru_wanted_by u). valid_unit_name t)")
    case True
    then have rel: "\<not> is_absolute (ru_name u)" by (simp add: name_ok_relative valid_unit_name_ok)
    obtain x1 w1 where 1: "create_dir_all dir w = (x1, w1)" by fastforce
    obtain x2 w2 where 2: "write_atomic (join dir (ru_name u)) (ru_content u) w1 = (x2, w2)" by fastforce
    obtain x3 w3 where 3: "wants_loop dir (ru_name u) (ru_wanted_by u) (written @ [join dir (ru_name u)]) w2 = (x3, w3)" by fastforce
    have s1: "stays K w0 w1" by (rule create_dir_all_stays [OF 1 Cons.prems(3) under_dirs [OF Cons.prems(2)]])
    then have s2: "stays K w0 w2" by (rule one_key_stays(1) [OF 2 _ under_at [OF under_join [OF Cons.prems(2) rel]]])
    then have s3: "stays K w0 w3" by (rule wants_loop_stays [OF 3 Cons.prems(2) rel, rotated]) (use True in simp)
    show ?thesis
      using Cons.prems(1,2) True 1 2 3 s1 s2 s3 Cons.IH by (auto simp: Let_def split: option.splits sum.splits)
  qed (use Cons.prems in auto)
qed simp

end

section \<open>The steps of the transition\<close>

lemma update_utab_at_touches: "touches {key_of (join run UTAB)} w (snd (update_utab_at run new w))"
proof -
  let ?K = "{key_of (join run UTAB)}" and ?w0 = "snd (act_only (OpOpen (join run UTAB_LOCK)) w)"
  have 0: "touches ?K w ?w0" by (rule act_quiet_snd) simp
  obtain x w1 where 1: "read_file (join run UTAB) ?w0 = (x, w1)" by fastforce
  have t1: "touches ?K w w1" by (rule read_quiet(1) [OF 1 0])
  have "touches ?K w w2" if "write_atomic (join run UTAB) b w1 = (r, w2)" for b r w2
    using write_atomic_touches [OF that] t1 touches_trans by blast
  then show ?thesis
    using 1 t1 by (auto simp: update_utab_at_def Let_def split: prod.splits sum.splits option.splits io_error.splits)
qed

lemma decoy_keeps_records_quiet [quiet]: "decoy_keeps_records n w = (r, w') \<Longrightarrow> touches K w0 w \<Longrightarrow> touches K w0 w'"
proof -
  assume d: "decoy_keeps_records n w = (r, w')" and w: "touches K w0 w"
  have m: "metadata q v = (x, v') \<Longrightarrow> touches K w0 v \<Longrightarrow> touches K w0 v'" for q v x v'
    by (auto simp: metadata_def split: prod.splits option.splits dest: attempt_touches intro: touches_trans)
  show ?thesis
    using d w m by (auto simp: decoy_keeps_records_def split: prod.splits sum.splits node.splits)
qed

lemma release_loop_quiet [quiet]: "release_loop sys ds n w = (r, w') \<Longrightarrow> touches K w0 w \<Longrightarrow> touches K w0 w'"
proof (induction ds arbitrary: n w)
  case (Cons a ds)
  obtain dev node where a: "a = (dev, node)" by fastforce
  show ?case
    using Cons.prems a by (auto simp: set_read_only_def split: option.splits prod.splits if_splits; elim quiet Cons.IH)
qed simp

lemma release_quiet [quiet_snd]: "touches K w0 w \<Longrightarrow> touches K w0 (snd (release sys dir w))"
proof -
  assume w: "touches K w0 w"
  obtain x w1 where 1: "read_file (join dir RECORD_NAME) w = (x, w1)" by fastforce
  have t1: "touches K w0 w1" by (rule read_quiet(1) [OF 1 w])
  then have "touches K w0 (snd (release_loop sys ds 0 w1))" for ds using release_loop_quiet by (metis prod.collapse)
  then show ?thesis using 1 t1 by (auto simp: release_def recorded_def split: sum.splits)
qed

lemma all_ok_stays:
  "(\<And>f v. f \<in> set fs \<Longrightarrow> stays K w0 v \<Longrightarrow> stays K w0 (snd (f v))) \<Longrightarrow> stays K w0 w \<Longrightarrow> stays K w0 (snd (all_ok fs w))"
proof (induction fs arbitrary: w)
  case (Cons f fs)
  obtain r w1 where f: "f w = (r, w1)" by fastforce
  have "stays K w0 w1" using Cons.prems(1) [of f w] Cons.prems(2) f by simp
  moreover from this have "stays K w0 (snd (all_ok fs w1))" by (rule Cons.IH [rotated]) (use Cons.prems(1) in simp)
  ultimately show ?case using f by (cases r) simp_all
qed simp

lemma narrow_snapshot_touches: "touches {key_of (join (e_runtime_dir e) SNAPSHOT_NAME)} w (narrow_snapshot e w)"
proof -
  let ?q = "join (e_runtime_dir e) SNAPSHOT_NAME"
  obtain x w1 where 1: "saved_snapshot e w = (x, w1)" by fastforce
  have t1: "touches {key_of ?q} w w1" by (rule saved_snapshot_quiet [OF 1 touches_refl])
  have t2: "touches {key_of ?q} w w2" if "still_present k (e_run e) w1 = (n, w2)" for k n w2
    by (rule still_present_quiet [OF that t1])
  have "touches {key_of ?q} v (snd (write_atomic ?q b v))" for v b
    by (cases "write_atomic ?q b v") (simp add: write_atomic_touches)
  then show ?thesis
    using 1 t1 t2 touches_trans by (auto simp: narrow_snapshot_def split: option.splits prod.splits) blast
qed

lemma save_run_records_touches: "touches {key_of (join (e_runtime_dir e) RECORDS_NAME)} w (save_run_records e w)"
proof -
  let ?q = "join (e_runtime_dir e) RECORDS_NAME"
  obtain x w1 where 1: "save_loop (e_run e) RECORD_DIRS ([], 0) w = (x, w1)" by fastforce
  have t1: "touches {key_of ?q} w w1" by (rule save_loop_quiet [OF 1 touches_refl])
  have wr: "touches {key_of ?q} w w2" if "write_atomic ?q b w1 = (r, w2)" for b r w2
    using touches_trans [OF t1 write_atomic_touches [OF that]] .
  have rm: "touches {key_of ?q} w (snd (remove_file ?q v))" if "touches {key_of ?q} w v" for v
    using that remove_file_touches [of ?q v] touches_trans by (cases "remove_file ?q v") auto
  show ?thesis
    using 1 t1 wr rm by (auto simp: save_run_records_def save_records_def split: prod.splits sum.splits option.splits)
qed

lemma install_rule_touches:
  "touches ({k. prefix k (key_of (join run RULE_DIR))} \<union> {key_of (join (join run RULE_DIR) RULE_NAME)}) w (snd (install_rule run b w))"
    (is "touches ?M w _")
proof -
  obtain x w1 where 1: "create_dir_all (join run RULE_DIR) w = (x, w1)" by fastforce
  have t1: "touches ?M w w1" by (rule touches_mono [OF create_dir_all_touches [OF 1]]) blast
  obtain y w2 where 2: "write_atomic (join (join run RULE_DIR) RULE_NAME) (rule_text b) w1 = (y, w2)" by fastforce
  have "touches ?M w w2" by (rule touches_trans [OF t1 touches_mono [OF write_atomic_touches [OF 2]]]) simp
  with t1 1 2 show ?thesis by (auto simp: install_rule_def Let_def split: option.splits)
qed

locale transition_area = run_area "e_run e" K for e :: env and K :: "key set" +
  fixes h :: host and p :: plan
  assumes plain: "plain_path (e_run e)"
    and runtime: "\<exists>q. \<not> is_absolute q \<and> e_runtime_dir e = join (e_run e) q"
    and rel: "\<not> is_absolute (runtime_rel e)"
    and settings: "\<forall>s\<in>set (p_kernel_settings p). key_of (ks_path s) \<in> K"
    and hostname: "key_of PROC_HOSTNAME \<in> K"
    and refusal: "p_armed p \<noteq> None \<Longrightarrow> hidden_root_is_live h (e_mounts e) p \<Longrightarrow> key_of (refusal_path (p_hidden_root p)) \<in> K"
begin

lemma runtime_under: "under (e_runtime_dir e)"
  using runtime under_join [OF under_run] by auto

lemma in_runtime: "\<not> is_absolute n \<Longrightarrow> key_of (join (e_runtime_dir e) n) \<in> K"
  by (intro under_at under_join runtime_under)

lemma restore_settings_stays: "stays K w0 w \<Longrightarrow> stays K w0 (restore_settings (p_kernel_settings p) w)"
proof -
  have "\<forall>s\<in>set ss. key_of (ks_path s) \<in> K \<Longrightarrow> stays K w0 w \<Longrightarrow> stays K w0 (restore_settings ss w)" for ss
  proof (induction ss arbitrary: w)
    case (Cons s ss)
    obtain v w1 where 1: "current_setting (ks_path s) w = (v, w1)" by fastforce
    have "stays K w0 w1" by (rule quiet_stays(6) [OF 1 Cons.prems(2)])
    then show ?case using Cons 1 by (auto intro: stay_snd)
  qed simp
  then show "stays K w0 w \<Longrightarrow> ?thesis" using settings by blast
qed

lemma record_refusal_stays: "stays K w0 w \<Longrightarrow> stays K w0 (record_refusal h (e_mounts e) p why now w)"
  using refusal by (auto simp: record_refusal_def split: option.split intro: stay_snd)

lemma remove_files_stays:
  "remove_files (e_run e) kept fs w = (r, w') \<Longrightarrow> \<forall>(d, n)\<in>set fs. \<not> is_absolute d \<and> \<not> is_absolute n \<Longrightarrow>
     stays K w0 w \<Longrightarrow> stays K w0 w'"
proof (induction fs arbitrary: r w)
  case (Cons a fs)
  obtain d n where a: "a = (d, n)" by fastforce
  obtain x w1 where 1: "remove_file (join (join (e_run e) d) n) w = (x, w1)" by fastforce
  have s1: "stays K w0 w1"
    by (rule one_key_stays(3) [OF 1 Cons.prems(3)]) (use Cons.prems(2) a in \<open>simp add: at_in\<close>)
  have "stays K w0 (snd (remove_dir (join (e_run e) d) w1))" using s1 Cons.prems(2) a by (simp add: stay_snd at)
  with s1 show ?case using Cons a 1 by (auto simp: Let_def split: prod.splits if_splits)
qed simp

lemma dropin_names:
  "\<forall>(d, n)\<in>set (map (\<lambda>(unit, _). (stop_guard_dir unit, STOP_GUARD_NAME)) runtime_guards @ [(DROPIN_DIR, DROPIN_NAME)]).
     \<not> is_absolute d \<and> \<not> is_absolute n"
  by (simp add: runtime_guards_def STOP_GUARDED_UNITS_def SHUTDOWN_BOUND_UNITS_def stop_guard_dir_def STOP_GUARD_NAME_def
      DROPIN_DIR_def DROPIN_NAME_def is_absolute_def join_def)

lemma remove_dropin_stays: "stays K w0 w \<Longrightarrow> stays K w0 (snd (remove_dropin (e_run e) kept w))"
  unfolding remove_dropin_def using remove_files_stays [OF _ dropin_names] by (metis prod.collapse)

lemma remove_runtime_dir_stays: "stays K w0 w \<Longrightarrow> stays K w0 (remove_runtime_dir (e_runtime_dir e) w)"
proof -
  assume s: "stays K w0 w"
  have d: "stays K w0 (snd (detach_tree (e_runtime_dir e) w))" using s by (rule quiet_stays_snd)
  then show ?thesis
    using under_tree [OF runtime_under] by (auto simp: remove_runtime_dir_def split: prod.splits intro: stay_snd)
qed

lemma set_noexec_stays: "stays K w0 w \<Longrightarrow> stays K w0 (set_noexec (e_run e) b w)"
  unfolding set_noexec_def by (rule quiet_stays_snd)

lemma disarm_stays: "stays K w0 w \<Longrightarrow> stays K w0 (snd (disarm h e p why w))"
proof -
  assume s: "stays K w0 w"
  let ?w1 = "record_refusal h (e_mounts e) p why (e_now e) w"
  let ?w2 = "snd (detach_tree (e_nextroot e) ?w1)"
  let ?w3 = "snd (close_backend_deferred h p ?w2)"
  have s2: "stays K w0 ?w2" by (rule quiet_stays_snd(2) [OF record_refusal_stays [OF s]])
  have "touches {} ?w2 ?w3" by (cases "close_backend_deferred h p ?w2") (simp add: close_backend_quiet)
  then have s3: "stays K w0 ?w3" using s2 by (rule stays_quiet)
  obtain saved w4 where 4: "saved_snapshot e ?w3 = (saved, w4)" by fastforce
  have s4: "stays K w0 w4" by (rule quiet_stays(11) [OF 4 s3])
  let ?w8 = "remove_runtime_dir (e_runtime_dir e) (restore_settings (p_kernel_settings p)
       (snd (remove_masks (e_run e) (p_masks p) (p_boot_masks p) (kept_of saved) (snd (remove_dropin (e_run e) (kept_of saved) w4)))))"
  have "stays K w0 ?w8"
    by (intro remove_runtime_dir_stays restore_settings_stays remove_masks_stays remove_dropin_stays s4)
  then show ?thesis using s2 4 set_noexec_stays by (simp add: disarm_def Let_def)
qed

lemma repoint_and_check_stays: "repoint_and_check h e side w = (r, w') \<Longrightarrow> stays K w0 w \<Longrightarrow> stays K w0 w'"
proof -
  assume c: "repoint_and_check h e side w = (r, w')" and s: "stays K w0 w"
  obtain x w1 where 1: "(case rs_system side of None \<Rightarrow> (Inr None, w)
      | Some system \<Rightarrow> repoint_current_system h (e_run e) system w) = (x, w1)" by fastforce
  have s1: "stays K w0 w1" using 1 s repoint_stays by (auto split: option.splits)
  obtain y w2 where 2: "precheck (e_nextroot e) (rs_init side) w1 = (y, w2)" by fastforce
  have s2: "stays K w0 w2" by (rule quiet_stays(7) [OF 2 s1])
  have "stays K w0 (snd (repoint_current_system h (e_run e) q w2))" for q
    using repoint_stays s2 by (metis prod.collapse)
  then show ?thesis
    using c s1 s2 2 unfolding repoint_and_check_def 1 by (auto split: sum.splits option.splits)
qed

lemma repoint_back_stays: "stays K w0 w \<Longrightarrow> stays K w0 (repoint_back h e side w)"
  using repoint_stays by (auto simp: repoint_back_def split: option.split) (metis prod.collapse)

subsection \<open>An entry\<close>

lemma install_rule_stays: "stays K w0 w \<Longrightarrow> stays K w0 (snd (install_rule (e_run e) b w))"
proof (rule stays_new [OF _ install_rule_touches], assumption)
  have rel: "\<not> is_absolute RULE_DIR" "\<not> is_absolute RULE_NAME" by (simp_all add: RULE_DIR_def RULE_NAME_def is_absolute_def)
  show "{k. prefix k (key_of (join (e_run e) RULE_DIR))} \<union> {key_of (join (join (e_run e) RULE_DIR) RULE_NAME)} \<subseteq> K"
    using under_dirs [OF under_join [OF under_run rel(1)]] at_in [OF rel] by simp
qed blast

lemma remove_rule_stays: "stays K w0 w \<Longrightarrow> stays K w0 (remove_rule (e_run e) w)"
  unfolding remove_rule_def by (intro one_key_stays_snd) (simp_all add: at at_in RULE_DIR_def RULE_NAME_def is_absolute_def)

lemma narrow_snapshot_stays: "stays K w0 w \<Longrightarrow> stays K w0 (narrow_snapshot e w)"
  by (rule stays_new [OF _ narrow_snapshot_touches]) (auto simp: in_runtime SNAPSHOT_NAME_def is_absolute_def)

lemma utab_stays: "stays K w0 w \<Longrightarrow> stays K w0 (snd (update_utab_at (e_run e) new w))"
  by (rule stays_new [OF _ update_utab_at_touches]) (auto simp: at UTAB_def is_absolute_def)

lemma save_run_records_stays: "stays K w0 w \<Longrightarrow> stays K w0 (save_run_records e w)"
  by (rule stays_new [OF _ save_run_records_touches]) (auto simp: in_runtime RECORDS_NAME_def is_absolute_def)

lemma enter_best_effort_stays: "stays K w0 w \<Longrightarrow> stays K w0 (enter_best_effort h e p w)"
proof -
  assume s: "stays K w0 w"
  let ?w1 = "snd (install_units (e_run e) (p_session_units p) w)"
  have s1: "stays K w0 ?w1"
    using install_loop_stays [OF _ unit_dirs_under(1) s] unfolding install_units_def by (metis prod.collapse)
  define w2 where "w2 = (if p_read_only_disks p then snd (install_rule (e_run e) (join (e_runtime_dir e) BINARY_NAME) ?w1) else ?w1)"
  have s2: "stays K w0 w2" using s1 install_rule_stays by (simp add: w2_def)
  have s3: "stays K w0 (snd (mask_units_best_effort (e_run e) (p_boot_masks p) w2))"
    using mask_effort_loop_stays [OF _ unit_dirs_under(2) s2] unfolding mask_units_best_effort_def by (metis prod.collapse)
  have "key_of (join (e_runtime_dir e) PLAN_NAME) \<in> K" by (rule in_runtime) (simp add: PLAN_NAME_def is_absolute_def)
  then show ?thesis
    unfolding enter_best_effort_def Let_def w2_def [symmetric] write_plan_def prune_utab_def
    by (intro one_key_stays_snd save_run_records_stays utab_stays narrow_snapshot_stays s3)
qed

lemma enter_stays: "stays K w0 w \<Longrightarrow> stays K w0 (snd (enter h e p w))"
proof -
  assume s: "stays K w0 w"
  obtain x w1 where 1: "repoint_and_check h e (p_hidden p) w = (x, w1)" by fastforce
  have s1: "stays K w0 w1" by (rule repoint_and_check_stays [OF 1 s])
  obtain y w2 where 2: "mask_units (e_run e) (p_masks p) w1 = (y, w2)" by fastforce
  have s2: "stays K w0 w2" by (rule mask_loop_stays [OF 2 [unfolded mask_units_def] unit_dirs_under(1) s1])
  show ?thesis
    using 1 2 disarm_stays [OF s1] disarm_stays [OF repoint_back_stays [OF s2]] enter_best_effort_stays [OF s2]
    by (auto simp: enter_def split: option.splits sum.splits)
qed

subsection \<open>A return\<close>

lemma read_saved_stays: "stays K w0 w \<Longrightarrow> stays K w0 (snd (read_saved e p w))"
proof -
  assume s: "stays K w0 w"
  have r: "stays K w0 w2" if "read_ok q w1 = (x, w2)" "stays K w0 w1" for q w1 x w2
    using that quiet_stays(1) by (auto simp: read_ok_def split: prod.splits sum.splits)
  show ?thesis
    using s r quiet_stays(10,11) by (auto simp: read_saved_def Let_def split: prod.splits if_splits)
qed

lemma scrub_run_stays: "stays K w0 w \<Longrightarrow> stays K w0 (snd (scrub_run e snap w))"
proof -
  assume s: "stays K w0 w"
  define t where "t = (case snap of Some s \<Rightarrow> (s, w) | None \<Rightarrow> take_snapshot (e_run e) w)"
  have "stays K w0 (snd t)"
    using s quiet_stays(9) by (auto simp: t_def take_snapshot_def split: option.split prod.split)
  then have "stays K w0 (snd (scrub (e_run e) k [runtime_rel e] ps (snd t)))" for k ps
    using scrub_stays [where extra = "[runtime_rel e]"] rel by (metis list.set(1) list.simps(15) prod.collapse singletonD)
  then show ?thesis unfolding scrub_run_def t_def [symmetric] by (simp add: case_prod_beta)
qed

lemma fixup_under:
  "under (join (e_run e) FIXUP_DIR)" "under (join (e_run e) WTMPDB_DROPIN_DIR)" "under (fixup_dropin (e_run e))"
  "under (fixup_unit (e_run e))" "under (fixup_wants (e_run e))" "under (fixup_link (e_run e))"
  unfolding fixup_dropin_def fixup_unit_def fixup_wants_def fixup_link_def
  by (intro under_join under_run; simp add: FIXUP_DIR_def WTMPDB_DROPIN_DIR_def WTMPDB_DROPIN_NAME_def RUNTIME_UNIT_DIR_def
      FIXUP_UNIT_def FIXUP_WANTED_BY_def is_absolute_def)+

lemma write_executable_stays:
  assumes "under dir" "under q" "stays K w0 w"
  shows "stays K w0 (snd (write_executable pid dir q b w))"
proof -
  let ?temp = "join dir (''.'' @ FIXUP_BINARY @ ''.'' @ show_nat pid)"
  have k: "key_of ?temp \<in> K" by (intro under_at under_join assms(1)) (simp add: is_absolute_def)
  obtain x w1 where 1: "rewrite_file True ?temp b w = (x, w1)" by fastforce
  have s1: "stays K w0 w1" by (rule one_key_stays(7) [OF 1 assms(3) k])
  obtain y w2 where 2: "rename ?temp q w1 = (y, w2)" by fastforce
  have s2: "stays K w0 w2" by (rule rename_stays [OF 2 s1 k under_at [OF assms(2)]])
  show ?thesis
    using 1 2 s1 s2 k by (auto simp: write_executable_def Let_def split: option.splits intro: one_key_stays_snd)
qed

lemma boot_install_stays: "stays K w0 w \<Longrightarrow> stays K w0 (snd (boot_install pid (e_run e) b ne w))"
proof -
  assume s: "stays K w0 w"
  have bin: "under (join (join (e_run e) FIXUP_DIR) FIXUP_BINARY)"
    by (intro under_join fixup_under) (simp add: FIXUP_BINARY_def is_absolute_def)
  show ?thesis
    unfolding boot_install_def Let_def
  proof (rule all_ok_stays [OF _ s])
    fix f v
    assume "f \<in> set [create_dir_all (join (e_run e) FIXUP_DIR),
        write_executable pid (join (e_run e) FIXUP_DIR) (join (join (e_run e) FIXUP_DIR) FIXUP_BINARY) b,
        create_dir_all (join (e_run e) WTMPDB_DROPIN_DIR),
        write_atomic (fixup_dropin (e_run e)) WTMPDB_DROPIN_TEXT,
        create_dir_all (join (e_run e) RUNTIME_UNIT_DIR),
        write_atomic (fixup_unit (e_run e)) (unit_text (join (join (e_run e) FIXUP_DIR) FIXUP_BINARY) ne),
        create_dir_all (fixup_wants (e_run e)),
        let_go (remove_file (fixup_link (e_run e))),
        symlink (join ''..'' FIXUP_UNIT) (fixup_link (e_run e))]" and v: "stays K w0 v"
    then show "stays K w0 (snd (f v))"
      using v bin fixup_under unit_dirs_under(1) write_executable_stays
      by (auto simp: let_go_def intro!: stay_snd under_at under_dirs)
  qed
qed

lemma install_fixup_stays: "stays K w0 w \<Longrightarrow> stays K w0 (snd (install_fixup h e p b w))"
proof -
  assume s: "stays K w0 w"
  obtain x w1 where 1: "decoy_keeps_records (e_nextroot e) w = (x, w1)" by fastforce
  have "stays K w0 w1" by (rule stays_quiet [OF decoy_keeps_records_quiet [OF 1 touches_refl] s])
  then show ?thesis
    using s 1 boot_install_stays by (auto simp: install_fixup_def split: option.splits bool.splits prod.splits) (metis snd_conv)+
qed

lemma leave_files_stays: "stays K w0 w \<Longrightarrow> stays K w0 (snd (leave_files h e p s w))"
proof -
  assume w: "stays K w0 w"
  let ?w2 = "remove_rule (e_run e) (restore_settings (p_kernel_settings p) w)"
  have w2: "stays K w0 ?w2" by (intro remove_rule_stays restore_settings_stays w)
  have "stays K w0 (snd (release (h_sys h) (e_runtime_dir e) ?w2))"
    by (rule stays_quiet [OF release_quiet [OF touches_refl] w2])
  then have w4: "stays K w0 (snd (remove_dropin (e_run e) k (snd (release (h_sys h) (e_runtime_dir e) ?w2))))" for k
    by (rule remove_dropin_stays)
  show ?thesis
    unfolding leave_files_def Let_def
    using install_fixup_stays [OF restore_records_stays [OF scrub_run_stays [OF w4]]]
    by (auto simp: case_prod_beta intro: set_noexec_stays)
qed

lemma restore_entry_stays:
  assumes "is_run_path (re_path x)" "stays K w0 w"
  shows "stays K w0 (restore_entry (e_run e) x w)"
proof -
  let ?q = "join (e_run e) (re_path x)"
  obtain d ns where d: "d \<in> set RUN_DIRS" "prefix (key_of (join (e_run e) d)) (key_of ?q)"
    and k: "key_of ?q = RootDir # map Normal ns" "\<forall>n\<in>set ns. name_ok n" by (rule run_path_key [OF plain assms(1)])
  have "\<not> is_absolute (re_path x)" using assms(1) components_absolute [of "re_path x"] by (auto simp: is_run_path_def is_normal_def)
  then have u: "under ?q" by (intro under_join under_run)
  have p: "stays K w0 w1" if "create_parent ?q w = (r, w1)" for r w1
    by (rule stays_new [OF assms(2) create_parent_touches [OF that k] under_dirs [OF u]]) blast
  show ?thesis
    using assms(2) p under_at [OF u] under_dirs [OF u]
    by (cases "re_kind x") (auto simp: restore_entry_def Let_def split: prod.splits option.splits intro: stay_snd)
qed

lemma run_dir_under: "d \<in> set RUN_DIRS \<Longrightarrow> under (join (e_run e) d)"
  using under_join [OF under_run] run_dirs_names by blast

lemma network_restore_stays:
  assumes "stays K w0 w"
  shows "stays K w0 (network_restore (e_run e) nv c PROC_HOSTNAME ip rd sv w)"
proof (cases "Option.bind sv (decode_network rd)")
  case (Some r)
  then have ok: "\<forall>x\<in>set (nr_run r). is_run_path (re_path x)"
    by (auto simp: bind_eq_Some_conv decode_network_def split: option.splits if_splits)
  obtain hn w1 where h: "read_hostname PROC_HOSTNAME w = (hn, w1)" by fastforce
  let ?pl = "restore_plan_of r (observe_links nv c) hn"
  have s2: "stays K w0 (apply_links ip ?pl w1)"
    by (rule stays_quiet [OF apply_links_touches stays_quiet [OF read_hostname_touches [OF h] assms]])
  define w3 where "w3 = (case rp_hostname ?pl of None \<Rightarrow> apply_links ip ?pl w1
    | Some n \<Rightarrow> snd (write_hostname PROC_HOSTNAME n (apply_links ip ?pl w1)))"
  have s3: "stays K w0 w3"
    using s2 hostname by (auto simp: w3_def write_hostname_def split: option.split intro: stay_snd)
  have dirs: "stays K w0 (foldl (\<lambda>w d. snd (remove_dir_all (join (e_run e) d) w)) v ds)" if "stays K w0 v" "set ds \<subseteq> set RUN_DIRS" for v ds
    using that
  proof (induction ds arbitrary: v)
    case (Cons a ds)
    have "stays K w0 (snd (remove_dir_all (join (e_run e) a) v))"
      by (rule remove_dir_all_stays_snd [OF Cons.prems(1) under_tree [OF run_dir_under]]) (use Cons.prems(2) in simp)
    with Cons show ?case by simp
  qed simp
  have es: "stays K w0 (foldl (\<lambda>w x. restore_entry (e_run e) x w) v xs)" if "stays K w0 v" "\<forall>x\<in>set xs. is_run_path (re_path x)" for v xs
    using that restore_entry_stays by (induction xs arbitrary: v) auto
  have "stays K w0 (restore_run (e_run e) r w3)"
    unfolding restore_run_def by (rule es [OF dirs [OF s3 subset_refl] ok])
  then show ?thesis using Some h by (simp add: network_restore_def Let_def w3_def)
qed (simp add: network_restore_def assms)

lemma settle_jobs_stays: "stays K w0 w \<Longrightarrow> stays K w0 (settle_jobs h e p w)"
proof (rule stays_quiet)
  have r: "touches {} w (reset_new_failures s fs w)" for s fs
  proof -
    obtain x w1 where 1: "failed_units s w = (x, w1)" by fastforce
    have w1: "touches {} w w1" using 1 by (auto simp: failed_units_def split: prod.splits intro: run_output_quiet)
    have "touches {} w (snd (run_bounded s as w1))" for as
      by (cases "run_bounded s as w1") (simp add: run_bounded_quiet [OF _ w1])
    with 1 w1 show ?thesis by (auto simp: reset_new_failures_def Let_def split: option.split)
  qed
  show "touches {} w (settle_jobs h e p w)"
  proof (cases "e_systemctl e")
    case (Some s)
    let ?w = "reset_new_failures s (p_failed_at_entry p) w"
    show ?thesis
      using Some by (cases "wait_for_other_jobs (h_polls h) s OWN_JOBS ?w") (simp add: settle_jobs_def wait_quiet [OF _ r])
  qed (simp add: settle_jobs_def)
qed

lemma leave_settled_stays: "stays K w0 w \<Longrightarrow> stays K w0 (leave_settled h e p s w)"
  using network_restore_stays [OF settle_jobs_stays] utab_stays
  by (auto simp: leave_settled_def Let_def restore_utab_def split: option.split)

lemma write_cursor_stays: "stays K w0 w \<Longrightarrow> stays K w0 (write_cursor h e w)"
proof -
  assume w: "stays K w0 w"
  let ?p = "join (e_run e) KERNEL_SEQNUM"
  have rel: "\<not> is_absolute KERNEL_SEQNUM" by (simp add: KERNEL_SEQNUM_def is_absolute_def)
  note u = under_join [OF under_run this]
  obtain ns where ns: "key_of (e_run e) = RootDir # map Normal ns" "\<forall>n\<in>set ns. name_ok n" by (rule plain_run_key [OF plain])
  have c: "components KERNEL_SEQNUM = map Normal [''systemd'', ''journal'', ''kernel-seqnum'']" by code_simp
  have k: "key_of ?p = RootDir # map Normal (ns @ [''systemd'', ''journal'', ''kernel-seqnum''])"
    using key_join_plain [OF absolute, of KERNEL_SEQNUM] ns(1) by (simp add: c is_normal_def)
  have ok: "\<forall>n\<in>set (ns @ [''systemd'', ''journal'', ''kernel-seqnum'']). name_ok n"
    using ns(2) by (simp add: name_ok_def component_of_def)
  have 1: "stays K w0 v'" if "create_parent ?p v = (r, v')" "stays K w0 v" for v r v'
    by (rule stays_new [OF that(2) create_parent_touches [OF that(1) k ok] under_dirs [OF u]]) blast
  have 2: "stays K w0 v'" if "write_over ?p b v = (r, v')" "stays K w0 v" for v b r v'
    by (rule one_key_stays(8) [OF that under_at [OF u]])
  have 3: "stays K w0 v'" if "set_len ?p l v = (r, v')" "stays K w0 v" for v l r v'
    by (rule one_key_stays(9) [OF that under_at [OF u]])
  have "stays K w0 (snd (write_kernel_seqnum (e_run e) nx v))" if "stays K w0 v" for nx v
    using that 1 2 3 by (auto simp: write_kernel_seqnum_def Let_def split: prod.split option.split)
  then show ?thesis
    using w quiet_stays(5) by (auto simp: write_cursor_def kernel_cursor_def split: prod.split option.split)
qed

lemma leave_stays: "stays K w0 w \<Longrightarrow> stays K w0 (snd (leave h e p w))"
proof -
  assume s: "stays K w0 w"
  obtain sv w1 where 1: "read_saved e p w = (sv, w1)" by fastforce
  have s1: "stays K w0 w1" using read_saved_stays [OF s] 1 by simp
  obtain x w2 where 2: "repoint_and_check h e (p_decoy p) w1 = (x, w2)" by fastforce
  have s2: "stays K w0 w2" by (rule repoint_and_check_stays [OF 2 s1])
  show ?thesis
    using 1 2 disarm_stays [OF repoint_back_stays [OF s2]]
      write_cursor_stays [OF leave_settled_stays [OF leave_files_stays [OF s2]]]
    by (auto simp: leave_def case_prod_beta split: option.splits)
qed

end

section \<open>The transition on the system\<close>

text \<open>What it may touch: the tree below \<^verbatim>\<open>/run\<close>, the plan's kernel settings, the hostname, and on the
  hidden volume the record of a refused switch, if a switch was armed and the volume is the one the
  plan recorded.\<close>

definition allowed_keys :: "host \<Rightarrow> env \<Rightarrow> plan \<Rightarrow> key set" where
  "allowed_keys h e p =
     unit_area (e_run e) \<union> (\<lambda>s. key_of (ks_path s)) ` set (p_kernel_settings p) \<union> {key_of PROC_HOSTNAME}
     \<union> (if p_armed p \<noteq> None \<and> hidden_root_is_live h (e_mounts e) p then {key_of (refusal_path (p_hidden_root p))} else {})"

lemma system_env_dirs: "e_run (system_env h w) = ''/run''" "e_runtime_dir (system_env h w) = RUNTIME_DIR"
  by (simp_all add: system_env_def)

lemma run_plain: "plain_path ''/run''" "is_absolute ''/run''"
  by code_simp+

lemma runtime_dir_rel: "RUNTIME_DIR = join ''/run'' ''overlay-runtime''" "runtime_rel (system_env h w) = ''overlay-runtime''"
proof -
  show "RUNTIME_DIR = join ''/run'' ''overlay-runtime''" by code_simp
  have "path_strip_prefix ''/run'' RUNTIME_DIR = Some ''overlay-runtime''" "utf8_lossy ''overlay-runtime'' = ''overlay-runtime''" by code_simp+
  then show "runtime_rel (system_env h w) = ''overlay-runtime''" by (simp add: runtime_rel_def system_env_dirs)
qed

interpretation sys: transition_area "system_env h w" "allowed_keys h (system_env h w) p" h p for h w p
proof unfold_locales
  show "\<exists>q. \<not> is_absolute q \<and> e_runtime_dir (system_env h w) = join (e_run (system_env h w)) q"
    using runtime_dir_rel(1) by (intro exI [of _ "''overlay-runtime''"]) (simp add: system_env_dirs is_absolute_def)
qed (auto simp: allowed_keys_def system_env_dirs run_plain runtime_dir_rel is_absolute_def)

lemma run_transition_stays:
  assumes "run_transition h (system_env h w) w = (out, w')" "tree_ok (w_fs w)"
  shows "stays {} w w' \<or> (\<exists>p. plan_found h (system_env h w) w = Inr p \<and> stays (allowed_keys h (system_env h w) p) w w')"
proof -
  let ?e = "system_env h w"
  obtain c w1 where r: "read_to_string (join (e_runtime_dir ?e) PLAN_NAME) w = (c, w1)" by fastforce
  have s: "stays K w w1" for K by (rule quiet_stays(10) [OF r]) (simp add: stays_def assms(2))
  from assms(1) show ?thesis
  proof (cases rule: run_transition_cases)
    case Nothing
    then show ?thesis using r s by simp
  next
    case (Enter p)
    then show ?thesis using sys.enter_stays [OF s] r by (metis snd_conv)
  next
    case (Leave p)
    then show ?thesis using sys.leave_stays [OF s] r by (metis snd_conv)
  next
    case (Disarm p)
    then show ?thesis using sys.disarm_stays [OF s] r by (metis snd_conv)
  qed
qed


definition system_host :: "direction \<Rightarrow> host" where
  "system_host d = (transition_host d)\<lparr>h_now := 160, h_live := \<lambda>_. Inr [sample_entry\<lparr>mount_point := NEXTROOT\<rparr>]\<rparr>"

lemma transition_world_ok: "tree_ok (w_fs transition_world)"
proof -
  have "key_of ''/run'' = [RootDir, Normal ''run'']" "key_of RUNTIME_DIR = [RootDir, Normal ''run'', Normal ''overlay-runtime'']"
    "key_of (join RUNTIME_DIR PLAN_NAME) = [RootDir, Normal ''run'', Normal ''overlay-runtime'', Normal ''plan.json'']"
    "key_of ''/etc'' = [RootDir, Normal ''etc'']" "key_of ''/etc/passwd'' = [RootDir, Normal ''etc'', Normal ''passwd'']"
    by code_simp+
  then show ?thesis by (auto simp: transition_world_def tree_ok_def name_ok_def component_of_def)
qed




subsection \<open>The masks of an entry\<close>

abbreviation mask_key :: "bytes \<Rightarrow> key" where
  "mask_key n \<equiv> [RootDir, Normal ''run'', Normal ''systemd'', Normal ''system'', Normal n]"

lemma entry_keys_outside:
  "key_of (join ''/run'' RUNTIME_UNIT_DIR) = [RootDir, Normal ''run'', Normal ''systemd'', Normal ''system'']"
  "key_of (join ''/run'' RUNTIME_CONTROL_DIR) = [RootDir, Normal ''run'', Normal ''systemd'', Normal ''system.control'']"
  "key_of (join ''/run'' RULE_DIR) = [RootDir, Normal ''run'', Normal ''udev'', Normal ''rules.d'']"
  "key_of (join (join ''/run'' RULE_DIR) RULE_NAME) = [RootDir, Normal ''run'', Normal ''udev'', Normal ''rules.d'', Normal ''60-overlay-runtime.rules'']"
  "key_of (join ''/run'' UTAB) = [RootDir, Normal ''run'', Normal ''mount'', Normal ''utab'']"
  "key_of (join RUNTIME_DIR SNAPSHOT_NAME) = [RootDir, Normal ''run'', Normal ''overlay-runtime'', Normal ''run-entries'']"
  "key_of (join RUNTIME_DIR RECORDS_NAME) = [RootDir, Normal ''run'', Normal ''overlay-runtime'', Normal ''run-records'']"
  "key_of (join RUNTIME_DIR PLAN_NAME) = [RootDir, Normal ''run'', Normal ''overlay-runtime'', Normal ''plan.json'']"
  by code_simp+

lemma unit_dirs_run: "is_absolute (join ''/run'' RUNTIME_UNIT_DIR)" "is_absolute (join ''/run'' RUNTIME_CONTROL_DIR)"
  by code_simp+

text \<open>Nothing an entry does after the masks touches one of them.\<close>

lemma enter_best_effort_spares:
  assumes "e_run e = ''/run''" "e_runtime_dir e = RUNTIME_DIR" "valid_unit_name n" "n \<notin> ru_name ` set (p_session_units p)"
  shows "touches (- {mask_key n}) w (enter_best_effort h e p w)"
proof -
  let ?K = "- {mask_key n}"
  let ?w1 = "snd (install_units (e_run e) (p_session_units p) w)"
  have "install_keys (key_of (join ''/run'' RUNTIME_UNIT_DIR)) (p_session_units p) \<subseteq> ?K"
    using assms(3,4) valid_unit_name_not_wants by (auto simp: entry_keys_outside wants_keys_def)
  then have 1: "touches ?K w ?w1"
    using install_loop_touches [OF _ unit_dirs_run(1), of "p_session_units p" "[]" w]
    by (cases "install_units (e_run e) (p_session_units p) w") (simp add: install_units_def assms(1))
  define w2 where "w2 = (if p_read_only_disks p then snd (install_rule (e_run e) (join (e_runtime_dir e) BINARY_NAME) ?w1) else ?w1)"
  have "touches ?K ?w1 (snd (install_rule (e_run e) (join (e_runtime_dir e) BINARY_NAME) ?w1))"
    by (rule touches_mono [OF install_rule_touches]) (auto simp: assms(1) entry_keys_outside)
  then have 2: "touches ?K w w2" using 1 touches_trans by (auto simp: w2_def)
  let ?w3 = "snd (mask_units_best_effort (e_run e) (p_boot_masks p) w2)"
  have "dirs_to (key_of (join ''/run'' RUNTIME_CONTROL_DIR)) \<union> entry_keys (key_of (join ''/run'' RUNTIME_CONTROL_DIR)) (set (p_boot_masks p)) \<subseteq> ?K"
    by (auto simp: entry_keys_outside)
  then have "touches ?K w2 ?w3"
    using mask_effort_loop_touches [OF _ unit_dirs_run(2), of "p_boot_masks p" w2]
    by (cases "mask_units_best_effort (e_run e) (p_boot_masks p) w2") (simp add: mask_units_best_effort_def assms(1))
  then have 3: "touches ?K w ?w3" using 2 touches_trans by blast
  have n: "touches ?K v (narrow_snapshot e v)" for v
    by (rule touches_mono [OF narrow_snapshot_touches]) (simp add: assms(2) entry_keys_outside)
  have u: "touches ?K v (prune_utab e v)" for v
    unfolding prune_utab_def by (rule touches_mono [OF update_utab_at_touches]) (simp add: assms(1) entry_keys_outside)
  have r: "touches ?K v (save_run_records e v)" for v
    by (rule touches_mono [OF save_run_records_touches]) (simp add: assms(2) entry_keys_outside)
  have l: "touches ?K v (snd (write_plan h q (join (e_runtime_dir e) PLAN_NAME) v))" for q v
  proof -
    obtain x v' where x: "write_plan h q (join (e_runtime_dir e) PLAN_NAME) v = (x, v')" by fastforce
    show ?thesis unfolding x
      by (simp, rule touches_mono [OF write_atomic_touches [OF x [unfolded write_plan_def]]]) (simp add: assms(2) entry_keys_outside)
  qed
  show ?thesis
    unfolding enter_best_effort_def Let_def w2_def [symmetric] by (rule touches_trans [OF touches_trans [OF touches_trans [OF touches_trans [OF 3 n] u] r] l])
qed

lemma entered_mask_link:
  assumes "enter h e p w = (Entered, w')" "e_run e = ''/run''" "e_runtime_dir e = RUNTIME_DIR"
    and "n \<in> set (p_masks p)" "n \<notin> ru_name ` set (p_session_units p)"
  shows "node_at w' (join (join ''/run'' RUNTIME_UNIT_DIR) n) = Some (Link dev_null)"
proof -
  obtain w1 out w2 where m: "mask_units (e_run e) (p_masks p) w1 = (Inr out, w2)" "w' = enter_best_effort h e p w2"
    using assms(1) by (auto simp: enter_def split: prod.splits option.splits sum.splits dest!: disarm_outcome)
  note m1 = m(1) [unfolded mask_units_def assms(2)]
  have v: "valid_unit_name n" using mask_loop_valid [OF m1] assms(4) by blast
  have k: "key_of (join (join ''/run'' RUNTIME_UNIT_DIR) n) = mask_key n"
    using key_join_name [OF unit_dirs_run(1) valid_unit_name_ok [OF v]] by (simp add: entry_keys_outside)
  have "node_at w2 (join (join ''/run'' RUNTIME_UNIT_DIR) n) = Some (Link dev_null)"
    by (rule mask_loop_done [OF m1 unit_dirs_run(1) assms(4)])
  moreover have "node_at w' (join (join ''/run'' RUNTIME_UNIT_DIR) n) = node_at w2 (join (join ''/run'' RUNTIME_UNIT_DIR) n)"
    unfolding m(2) by (rule touches_node [OF enter_best_effort_spares [OF assms(2,3) v assms(5)]]) (simp add: k)
  ultimately show ?thesis by simp
qed

text \<open>C2: the hidden systemd never starts without its masks: when the transition reports an entry, every
  decoy unit the plan masks is a link to \<^verbatim>\<open>/dev/null\<close> in the runtime unit directory at the end of it, whichever
  of the steps after the masks the host refused, as long as the session installs no unit of that name.\<close>

theorem entered_masks_in_place:
  assumes "enter h e p w = (Entered, w')" "e_run e = ''/run''" "e_runtime_dir e = RUNTIME_DIR"
    and "n \<in> set (p_masks p)" "n \<notin> ru_name ` set (p_session_units p)"
  shows "node_at w' (join (join ''/run'' RUNTIME_UNIT_DIR) n) = Some (Link dev_null)"
  by (rule entered_mask_link [OF assms])

theorem entered_masks_in_place_witness:
  "fst (enter (transition_host Enter) transition_env (armed_plan Enter) transition_world) = Entered
   \<and> node_at (snd (enter (transition_host Enter) transition_env (armed_plan Enter) transition_world))
        (join (join ''/run'' RUNTIME_UNIT_DIR) ''swap.swap'') = Some (Link dev_null)"
proof -
  let ?h = "transition_host Enter" and ?e = transition_env and ?p = "armed_plan Enter" and ?w = transition_world
  have "fst (repoint_and_check ?h ?e (p_hidden ?p) ?w) = None"
    "\<not> isl (fst (mask_units (e_run ?e) (p_masks ?p) (snd (repoint_and_check ?h ?e (p_hidden ?p) ?w))))" by code_simp+
  then have "fst (enter ?h ?e ?p ?w) = Entered" by (auto simp: enter_def split: prod.splits option.splits sum.splits)
  then obtain w' where r: "enter ?h ?e ?p ?w = (Entered, w')" by (metis prod.collapse)
  have "e_run ?e = ''/run''" "e_runtime_dir ?e = RUNTIME_DIR" by (simp_all add: transition_env_def)
  moreover have "''swap.swap'' \<in> set (p_masks ?p)" "''swap.swap'' \<notin> ru_name ` set (p_session_units ?p)"
    by (simp_all add: armed_plan_def sample_plan_def)
  ultimately show ?thesis using entered_masks_in_place [OF r] r by simp
qed

end
