(* ===== verification/Processes.thy ===== *)
theory Processes
  imports Way_Back
begin

text \<open>
  Finding and killing processes: \<^verbatim>\<open>nails-teardown/src/proc.rs\<close>, \<^verbatim>\<open>cgroup.rs\<close>, \<^verbatim>\<open>shells.rs\<close> and
  \<^verbatim>\<open>whole_root/kill.rs\<close>.  What \<^verbatim>\<open>/proc\<close> and the cgroup files say is the record \<open>procfs\<close>, a function of the log
  because it changes as processes die; a signal and a write to \<^verbatim>\<open>cgroup.kill\<close> are operations of the log.  The
  cgroup hierarchy is a tree whose children stand in the order of their names, in which the walk takes
  them.  A pid is a \<^verbatim>\<open>u32\<close>, so following parents ends.
\<close>

section \<open>Definitions\<close>

type_synonym pid = "32 word"

record procfs =
  pf_names :: "op list \<Rightarrow> bytes list"
  pf_bytes :: "op list \<Rightarrow> path \<Rightarrow> bytes option"
  pf_link :: "op list \<Rightarrow> path \<Rightarrow> path option"
  pf_pidfd :: "op list \<Rightarrow> pid \<Rightarrow> bool"
  pf_own :: pid

definition proc_file :: "pid \<Rightarrow> bytes \<Rightarrow> path" where
  "proc_file pid name = ''/proc/'' @ show_nat (unat pid) @ ''/'' @ name"

definition proc_text :: "procfs \<Rightarrow> op list \<Rightarrow> path \<Rightarrow> bytes option" where
  "proc_text pf l p = (case pf_bytes pf l p of None \<Rightarrow> None | Some b \<Rightarrow> if utf8_valid b then Some b else None)"

subsection \<open>The stat line\<close>

record stat =
  st_state :: char
  st_ppid :: pid
  st_pgid :: pid
  st_sid :: pid
  st_flags :: "64 word"
  st_start :: nat

definition PF_KTHREAD :: "64 word" where "PF_KTHREAD = 0x00200000"

definition is_kernel_thread :: "stat \<Rightarrow> bool" where
  "is_kernel_thread s \<longleftrightarrow> and (st_flags s) PF_KTHREAD \<noteq> 0"

text \<open>What is past the last closing parenthesis.\<close>

fun past_last :: "char \<Rightarrow> bytes \<Rightarrow> bytes option" where
  "past_last d [] = None"
| "past_last d (c # cs) = (case past_last d cs of Some r \<Rightarrow> Some r | None \<Rightarrow> if c = d then Some cs else None)"

definition field :: "bytes list \<Rightarrow> nat \<Rightarrow> bytes option" where
  "field fs i = (if i < length fs then Some (fs ! i) else None)"

text \<open>The state is its field's first byte, which is the first character when that is one of the
  letters the code compares with.\<close>

definition parse_stat :: "bytes \<Rightarrow> stat option" where
  "parse_stat content =
     Option.bind (past_last (CHR '')'') content) (\<lambda>after.
       let fields = split_whitespace after; u32 = (\<lambda>i. Option.bind (field fields i) parse_u32) in
       Option.bind (field fields 0) (\<lambda>state.
       Option.bind (case state of [] \<Rightarrow> None | c # _ \<Rightarrow> Some c) (\<lambda>c.
       Option.bind (u32 1) (\<lambda>ppid.
       Option.bind (u32 2) (\<lambda>pgid.
       Option.bind (u32 3) (\<lambda>sid.
       Option.bind (Option.bind (field fields 6) parse_u64) (\<lambda>flags.
       Option.bind (Option.bind (field fields 19) parse_u64) (\<lambda>start.
         Some \<lparr>st_state = c, st_ppid = ppid, st_pgid = pgid, st_sid = sid, st_flags = of_nat flags, st_start = start\<rparr>))))))))"

definition stat_of :: "procfs \<Rightarrow> op list \<Rightarrow> pid \<Rightarrow> stat option" where
  "stat_of pf l pid = Option.bind (proc_text pf l (proc_file pid ''stat'')) parse_stat"

definition pids :: "procfs \<Rightarrow> op list \<Rightarrow> pid list" where
  "pids pf l = filter_map (\<lambda>n. if utf8_valid n then parse_u32 n else None) (pf_names pf l)"

definition comm_of :: "procfs \<Rightarrow> op list \<Rightarrow> pid \<Rightarrow> bytes option" where
  "comm_of pf l pid = map_option trim (proc_text pf l (proc_file pid ''comm''))"

definition cmdline_of :: "procfs \<Rightarrow> op list \<Rightarrow> pid \<Rightarrow> bytes list" where
  "cmdline_of pf l pid =
     (case pf_bytes pf l (proc_file pid ''cmdline'') of
        None \<Rightarrow> []
      | Some raw \<Rightarrow> map utf8_lossy (filter (\<lambda>part. part \<noteq> []) (split_on (CHR 0x00) raw)))"

definition cgroup_of :: "procfs \<Rightarrow> op list \<Rightarrow> pid \<Rightarrow> bytes option" where
  "cgroup_of pf l pid = proc_text pf l (proc_file pid ''cgroup'')"

definition parse_status_uid :: "bytes \<Rightarrow> pid option" where
  "parse_status_uid content =
     find_map (\<lambda>ln. Option.bind (strip_prefix ''Uid:'' ln) (\<lambda>r.
       case split_whitespace r of [] \<Rightarrow> None | f # _ \<Rightarrow> parse_u32 f)) (lines_of content)"

definition fd_is_terminal :: "procfs \<Rightarrow> op list \<Rightarrow> pid \<Rightarrow> nat \<Rightarrow> bool" where
  "fd_is_terminal pf l pid fd =
     is_some_and (pf_link pf l (proc_file pid (''fd/'' @ show_nat fd)))
       (\<lambda>link. \<exists>p\<in>set [''/dev/pts/'', ''/dev/tty'', ''/dev/console'', ''/dev/hvc'']. starts_with p (utf8_lossy link))"

subsection \<open>Cgroup paths\<close>

definition v2_path :: "bytes \<Rightarrow> bytes option" where
  "v2_path content = find_map (strip_prefix ''0::'') (lines_of content)"

definition service_of :: "bytes \<Rightarrow> (bytes \<times> bytes) option" where
  "service_of path =
     (let segments = filter (\<lambda>s. s \<noteq> []) (split_on slash path) in
      if ''user.slice'' \<in> set segments then None
      else Option.bind (position (\<lambda>s. s = ''system.slice'') segments) (\<lambda>slice.
           Option.bind (position (\<lambda>s. ends_with ''.service'' s \<and> length s > length ''.service'') (drop (slice + 1) segments)) (\<lambda>offset.
             let index = slice + 1 + offset; unit = segments ! index in
             if unit = ''display-manager.service'' \<or> starts_with ''user@'' unit then None
             else Some (unit, slash # join_with ''/'' (take (Suc index) segments)))))"

text \<open>The third of at most three parts of a line.\<close>

definition third_part :: "bytes \<Rightarrow> bytes option" where
  "third_part line = Option.bind (split_once (CHR '':'') line) (\<lambda>(_, r). map_option snd (split_once (CHR '':'') r))"

definition service_unit_from_cgroup :: "bytes \<Rightarrow> bytes option" where
  "service_unit_from_cgroup content =
     find_map (\<lambda>line. Option.bind (third_part line) (\<lambda>p. map_option fst (service_of p))) (lines_of content)"

definition trim_slashes :: "bytes \<Rightarrow> bytes" where
  "trim_slashes s = rev (dropWhile (\<lambda>c. c = slash) (rev s))"

definition cg_contains :: "bytes \<Rightarrow> bytes \<Rightarrow> bool" where
  "cg_contains target own \<longleftrightarrow>
     (let t = trim_slashes target in own = t \<or> starts_with (t @ [slash]) own \<or> t = [])"

definition cg_dir :: "path \<Rightarrow> bytes \<Rightarrow> path" where
  "cg_dir root path = join root (dropWhile (\<lambda>c. c = slash) path)"

subsection \<open>Shells\<close>

definition SHELL_NAMES :: "bytes list" where
  "SHELL_NAMES = [''bash'', ''zsh'', ''fish'', ''sh'', ''dash'', ''ksh'', ''tcsh'']"

text \<open>The arguments from the first on; what is left of them after an option that takes a value.\<close>

function shell_args :: "bool \<Rightarrow> bool \<Rightarrow> bool \<Rightarrow> bytes list \<Rightarrow> bool" where
  "shell_args ttys forced read_stdin [] = (forced \<or> ttys)"
| "shell_args ttys forced read_stdin (arg # args) =
     (if arg = ''--'' then forced \<or> ttys
      else case strip_prefix ''--'' arg of
        Some long \<Rightarrow> shell_args ttys forced read_stdin (if long = ''rcfile'' \<or> long = ''init-file'' then drop 1 args else args)
      | None \<Rightarrow>
          (case arg of
             c # flags \<Rightarrow>
               if (c = CHR ''-'' \<or> c = CHR ''+'') \<and> flags \<noteq> []
               then (if CHR ''c'' \<in> set flags then False
                     else shell_args ttys (forced \<or> CHR ''i'' \<in> set flags) (read_stdin \<or> CHR ''s'' \<in> set flags)
                            (if last flags = CHR ''o'' \<or> last flags = CHR ''O'' then drop 1 args else args))
               else if \<not> read_stdin then forced else forced \<or> ttys
           | [] \<Rightarrow> if \<not> read_stdin then forced else forced \<or> ttys))"
  by pat_completeness auto
termination by (relation "measure (\<lambda>(_, _, _, args). length args)") auto

definition shell_is_interactive :: "bytes list \<Rightarrow> bool \<Rightarrow> bool \<Rightarrow> bool" where
  "shell_is_interactive argv stdin_tty stderr_tty = shell_args (stdin_tty \<and> stderr_tty) False False (drop 1 argv)"

definition is_interactive_shell :: "procfs \<Rightarrow> op list \<Rightarrow> pid \<Rightarrow> bool" where
  "is_interactive_shell pf l pid \<longleftrightarrow>
     is_some_and (comm_of pf l pid) (\<lambda>c. c \<in> set SHELL_NAMES)
     \<and> shell_is_interactive (cmdline_of pf l pid) (fd_is_terminal pf l pid 0) (fd_is_terminal pf l pid 2)"

subsection \<open>The invocation\<close>

record invocation =
  inv_ancestry :: "pid list"
  inv_sid :: pid
  inv_pgid :: pid
  inv_ancestor_pgids :: "pid list"
  inv_extra :: "pid list"

function ancestry_loop :: "procfs \<Rightarrow> op list \<Rightarrow> pid list \<Rightarrow> pid \<Rightarrow> pid list" where
  "ancestry_loop pf l seen pid =
     (if pid = 0 \<or> pid \<in> set seen then seen
      else (case stat_of pf l pid of
              None \<Rightarrow> seen @ [pid]
            | Some s \<Rightarrow> ancestry_loop pf l (seen @ [pid]) (st_ppid s)))"
  by pat_completeness auto
termination
proof (relation "measure (\<lambda>(_, _, seen, _). card (UNIV - set seen))")
  fix pf :: procfs and l :: "op list" and seen :: "pid list" and pid :: pid and s :: stat
  assume "\<not> (pid = 0 \<or> pid \<in> set seen)"
  then have "UNIV - set (seen @ [pid]) \<subset> UNIV - set seen" by auto
  then show "((pf, l, seen @ [pid], st_ppid s), pf, l, seen, pid) \<in> measure (\<lambda>(_, _, seen, _). card (UNIV - set seen))"
    by (simp add: psubset_card_mono)
qed simp

declare ancestry_loop.simps [simp del]

definition current_invocation :: "procfs \<Rightarrow> op list \<Rightarrow> invocation" where
  "current_invocation pf l =
     (let own = pf_own pf; ancestry = ancestry_loop pf l [] own; own_stat = stat_of pf l own in
      \<lparr>inv_ancestry = ancestry,
       inv_sid = (case own_stat of None \<Rightarrow> 0 | Some s \<Rightarrow> st_sid s),
       inv_pgid = (case own_stat of None \<Rightarrow> 0 | Some s \<Rightarrow> st_pgid s),
       inv_ancestor_pgids =
         filter (\<lambda>g. \<not> is_interactive_shell pf l g)
           (filter_map (\<lambda>pid. Option.bind (stat_of pf l pid)
              (\<lambda>s. if st_pgid s = pid \<and> pid \<noteq> 1 then Some (st_pgid s) else None)) (drop 1 ancestry)),
       inv_extra = []\<rparr>)"

definition in_invocation :: "invocation \<Rightarrow> pid \<Rightarrow> stat option \<Rightarrow> bool" where
  "in_invocation iv pid s \<longleftrightarrow>
     pid \<in> set (inv_ancestry iv) \<or> pid \<in> set (inv_extra iv)
     \<or> is_some_and s (\<lambda>s. (inv_sid iv \<noteq> 0 \<and> st_sid s = inv_sid iv) \<or> (inv_pgid iv \<noteq> 0 \<and> st_pgid s = inv_pgid iv)
          \<or> st_pgid s \<in> set (inv_ancestor_pgids iv))"

subsection \<open>Signals\<close>

record process_handle =
  ph_pid :: pid
  ph_start :: nat
  ph_pidfd :: bool

definition raw_pid :: "pid \<Rightarrow> bool" where
  "raw_pid pid \<longleftrightarrow> 0 < pid \<and> uint pid < 2 ^ 31"

definition open_handle :: "procfs \<Rightarrow> pid \<Rightarrow> world \<Rightarrow> process_handle option" where
  "open_handle pf pid w =
     Option.bind (stat_of pf (w_log w) pid) (\<lambda>s.
       if map_option st_start (stat_of pf (w_log w) pid) \<noteq> Some (st_start s) then None
       else Some \<lparr>ph_pid = pid, ph_start = st_start s, ph_pidfd = (raw_pid pid \<and> pf_pidfd pf (w_log w) pid)\<rparr>)"

definition is_alive :: "procfs \<Rightarrow> process_handle \<Rightarrow> world \<Rightarrow> bool" where
  "is_alive pf ph w =
     is_some_and (stat_of pf (w_log w) (ph_pid ph))
       (\<lambda>s. st_start s = ph_start ph \<and> st_state s \<noteq> CHR ''Z'' \<and> st_state s \<noteq> CHR ''X'')"

definition SIGKILL :: nat where "SIGKILL = 9"
definition SIGTERM :: nat where "SIGTERM = 15"

definition send_signal :: "procfs \<Rightarrow> process_handle \<Rightarrow> nat \<Rightarrow> world \<Rightarrow> bool \<times> world" where
  "send_signal pf ph sig w =
     (if ph_pidfd ph \<or> (is_alive pf ph w \<and> raw_pid (ph_pid ph))
      then (case act_only (OpSignal (unat (ph_pid ph)) sig) w of (r, w1) \<Rightarrow> (r = None, w1))
      else (False, w))"

text \<open>Opening a handle and killing through it.\<close>

definition kill_pid :: "procfs \<Rightarrow> pid \<Rightarrow> world \<Rightarrow> bool \<times> world" where
  "kill_pid pf pid w =
     (case open_handle pf pid w of None \<Rightarrow> (False, w) | Some ph \<Rightarrow> send_signal pf ph SIGKILL w)"

subsection \<open>Killing shells\<close>

definition in_spared_unit :: "procfs \<Rightarrow> op list \<Rightarrow> pid \<Rightarrow> bytes list \<Rightarrow> bool" where
  "in_spared_unit pf l pid units \<longleftrightarrow>
     units \<noteq> [] \<and> is_some_and (Option.bind (cgroup_of pf l pid) service_unit_from_cgroup) (\<lambda>u. u \<in> set units)"

fun kill_shells_loop :: "procfs \<Rightarrow> (op list \<Rightarrow> pid \<Rightarrow> bool) \<Rightarrow> pid list \<Rightarrow> world \<Rightarrow> pid list \<times> world" where
  "kill_shells_loop pf chosen [] w = ([], w)"
| "kill_shells_loop pf chosen (pid # ps) w =
     (if \<not> chosen (w_log w) pid then kill_shells_loop pf chosen ps w
      else (case kill_pid pf pid w of
              (b, w1) \<Rightarrow> (case kill_shells_loop pf chosen ps w1 of (ks, w2) \<Rightarrow> (if b then pid # ks else ks, w2))))"

definition kill_interactive_shells :: "procfs \<Rightarrow> invocation \<Rightarrow> bytes list \<Rightarrow> world \<Rightarrow> pid list \<times> world" where
  "kill_interactive_shells pf iv spared w =
     kill_shells_loop pf (\<lambda>l pid. pid \<noteq> 1 \<and> \<not> in_invocation iv pid (stat_of pf l pid) \<and> is_interactive_shell pf l pid
       \<and> \<not> in_spared_unit pf l pid spared) (pids pf (w_log w)) w"

definition kill_invoking_shells :: "procfs \<Rightarrow> bytes list \<Rightarrow> world \<Rightarrow> pid list \<times> world" where
  "kill_invoking_shells pf spared w =
     (let iv = current_invocation pf (w_log w) in
      kill_shells_loop pf (\<lambda>l pid. pid \<noteq> pf_own pf
        \<and> (pid \<in> set (inv_ancestry iv) \<or> (inv_sid iv \<noteq> 0 \<and> is_some_and (stat_of pf l pid) (\<lambda>s. st_sid s = inv_sid iv)))
        \<and> is_interactive_shell pf l pid \<and> \<not> in_spared_unit pf l pid spared) (pids pf (w_log w)) w)"

definition kill_all_interactive_shells :: "procfs \<Rightarrow> bytes list \<Rightarrow> world \<Rightarrow> world" where
  "kill_all_interactive_shells pf spared w =
     snd (kill_invoking_shells pf spared (snd (kill_interactive_shells pf (current_invocation pf (w_log w)) spared w)))"

subsection \<open>Killing cgroups\<close>

datatype cgroup = Cgroup "(bytes \<times> cgroup) list"

definition direct_procs :: "procfs \<Rightarrow> op list \<Rightarrow> path \<Rightarrow> pid list" where
  "direct_procs pf l dir =
     (case proc_text pf l (join dir ''cgroup.procs'') of
        None \<Rightarrow> []
      | Some text \<Rightarrow> filter_map (\<lambda>ln. parse_u32 (trim ln)) (lines_of text))"

fun procs :: "procfs \<Rightarrow> op list \<Rightarrow> path \<Rightarrow> cgroup \<Rightarrow> pid list"
  and procs_below :: "procfs \<Rightarrow> op list \<Rightarrow> path \<Rightarrow> (bytes \<times> cgroup) list \<Rightarrow> pid list" where
  "procs pf l dir (Cgroup cs) = direct_procs pf l dir @ procs_below pf l dir cs"
| "procs_below pf l dir [] = []"
| "procs_below pf l dir ((name, c) # cs) = procs pf l (join dir name) c @ procs_below pf l dir cs"

fun kill_each :: "procfs \<Rightarrow> process_handle list \<Rightarrow> world \<Rightarrow> world" where
  "kill_each pf [] w = w"
| "kill_each pf (ph # phs) w = kill_each pf phs (snd (send_signal pf ph SIGKILL w))"

fun kill_rounds :: "nat \<Rightarrow> procfs \<Rightarrow> path \<Rightarrow> cgroup \<Rightarrow> pid list \<Rightarrow> world \<Rightarrow> world" where
  "kill_rounds 0 pf dir c spare w = w"
| "kill_rounds (Suc n) pf dir c spare w =
     (let handles = filter_map (\<lambda>pid. open_handle pf pid w) (filter (\<lambda>pid. pid \<notin> set spare) (procs pf (w_log w) dir c)) in
      if handles = [] then w else kill_rounds n pf dir c spare (kill_each pf handles w))"

text \<open>A write to \<^verbatim>\<open>cgroup.kill\<close>; the cgroup's directory exists, as the walk found it.\<close>

definition cgroup_kill :: "procfs \<Rightarrow> path \<Rightarrow> cgroup \<Rightarrow> pid list \<Rightarrow> world \<Rightarrow> bool \<times> world" where
  "cgroup_kill pf dir c spare w =
     (case act_only (OpRewrite (join dir ''cgroup.kill'') ''1'') w of
        (None, w1) \<Rightarrow> (True, w1)
      | (Some NotFound, w1) \<Rightarrow> (True, kill_rounds 3 pf dir c spare w1)
      | (Some _, w1) \<Rightarrow> (False, w1))"

record kill_report =
  kr_cgroups :: "path list"
  kr_processes :: "pid list"

definition protected_paths :: "procfs \<Rightarrow> op list \<Rightarrow> invocation \<Rightarrow> bytes list" where
  "protected_paths pf l iv =
     to_set (filter_map (\<lambda>pid. Option.bind (cgroup_of pf l pid) v2_path)
       (filter (\<lambda>pid. in_invocation iv pid (stat_of pf l pid)) (pids pf l)))"

definition left_to_the_shutdown :: "bytes \<Rightarrow> bool" where
  "left_to_the_shutdown unit \<longleftrightarrow>
     (\<exists>s\<in>set [''.mount'', ''.swap'', ''.automount'', ''.socket'', ''.device'']. ends_with s unit)
     \<or> (starts_with ''systemd-'' unit \<and> ends_with ''.service'' unit)
     \<or> unit = ''dbus.service'' \<or> unit = ''dbus-broker.service''"

fun kill_direct :: "procfs \<Rightarrow> pid list \<Rightarrow> pid list \<Rightarrow> kill_report \<times> world \<Rightarrow> kill_report \<times> world" where
  "kill_direct pf spare [] st = st"
| "kill_direct pf spare (pid # ps) (rep, w) =
     (if pid \<in> set spare then kill_direct pf spare ps (rep, w)
      else (case kill_pid pf pid w of
              (b, w1) \<Rightarrow> kill_direct pf spare ps (if b then rep\<lparr>kr_processes := kr_processes rep @ [pid]\<rparr> else rep, w1)))"

definition unit_of :: "bytes \<Rightarrow> bytes" where
  "unit_of child = last (split_on slash child)"

fun visit :: "procfs \<Rightarrow> bytes list \<Rightarrow> pid list \<Rightarrow> path \<Rightarrow> bytes \<Rightarrow> (bytes \<times> cgroup) list \<Rightarrow> kill_report \<times> world \<Rightarrow> kill_report \<times> world" where
  "visit pf prot spare dir relative [] st = st"
| "visit pf prot spare dir relative ((name, Cgroup cs) # rest) st =
     (let p = join dir name; child = relative @ [slash] @ utf8_lossy name in
      visit pf prot spare dir relative rest
        (if child = ''/init.scope'' \<or> left_to_the_shutdown (unit_of child) then st
         else if ends_with ''.slice'' (unit_of child) \<and> child \<notin> set prot then visit pf prot spare p child cs st
         else if \<exists>own\<in>set prot. cg_contains child own
         then (case visit pf prot spare p child cs st of
                 (rep, w) \<Rightarrow>
                   if child \<in> set prot then kill_direct pf spare (direct_procs pf (w_log w) p) (rep, w) else (rep, w))
         else (case st of
                 (rep, w) \<Rightarrow>
                   (case cgroup_kill pf p (Cgroup cs) spare w of
                      (b, w1) \<Rightarrow> (if b then rep\<lparr>kr_cgroups := kr_cgroups rep @ [p]\<rparr> else rep, w1)))))"

definition kill_below :: "procfs \<Rightarrow> path \<Rightarrow> bytes \<Rightarrow> cgroup \<Rightarrow> invocation \<Rightarrow> world \<Rightarrow> kill_report \<times> world" where
  "kill_below pf cgroup_root subtree tree iv w =
     (let prot = protected_paths pf (w_log w) iv;
          spare = filter (\<lambda>pid. in_invocation iv pid (stat_of pf (w_log w) pid)) (pids pf (w_log w))
      in case tree of Cgroup cs \<Rightarrow>
           visit pf prot spare (cg_dir cgroup_root subtree) (trim_slashes subtree) cs (\<lparr>kr_cgroups = [], kr_processes = []\<rparr>, w))"

definition kill_userspace :: "procfs \<Rightarrow> path \<Rightarrow> cgroup \<Rightarrow> invocation \<Rightarrow> world \<Rightarrow> kill_report \<times> world" where
  "kill_userspace pf cgroup_root tree iv w = kill_below pf cgroup_root [] tree iv w"

definition populated :: "procfs \<Rightarrow> op list \<Rightarrow> path \<Rightarrow> bool" where
  "populated pf l dir =
     is_some_and (proc_text pf l (join dir ''cgroup.events'')) (\<lambda>t. ''populated 1'' \<in> set (lines_of t))"

section \<open>Lemmas\<close>

text \<open>The directory of a cgroup path below the root of the hierarchy, as the walk builds both.\<close>

inductive cg_at :: "path \<Rightarrow> path \<Rightarrow> bytes \<Rightarrow> bool" for root where
  cg_root: "cg_at root root []"
| cg_child: "cg_at root dir rel \<Longrightarrow> cg_at root (join dir name) (rel @ [slash] @ utf8_lossy name)"

text \<open>What the walk may do: signal a process that is not spared, or kill a cgroup that is none of those
  left alone and holds no protected one.\<close>

definition killable :: "bytes list \<Rightarrow> bytes \<Rightarrow> bool" where
  "killable prot child \<longleftrightarrow>
     child \<noteq> ''/init.scope'' \<and> \<not> left_to_the_shutdown (unit_of child) \<and> (\<forall>own\<in>set prot. \<not> cg_contains child own)"

fun kill_ok :: "path \<Rightarrow> bytes list \<Rightarrow> pid list \<Rightarrow> op \<Rightarrow> bool" where
  "kill_ok root prot spare (OpSignal n sig) = (\<forall>pid\<in>set spare. n \<noteq> unat pid)"
| "kill_ok root prot spare (OpRewrite p b) = (\<exists>dir child. p = join dir ''cgroup.kill'' \<and> cg_at root dir child \<and> killable prot child)"
| "kill_ok root prot spare _ = False"

definition kills :: "path \<Rightarrow> bytes list \<Rightarrow> pid list \<Rightarrow> world \<Rightarrow> world \<Rightarrow> bool" where
  "kills root prot spare w w' \<longleftrightarrow> (\<exists>ops. w_log w' = ops @ w_log w \<and> (\<forall>a\<in>set ops. kill_ok root prot spare a))"

lemma kills_refl [simp]: "kills root prot spare w w"
  by (simp add: kills_def)

lemma kills_trans [trans]:
  assumes "kills root prot spare w w1" "kills root prot spare w1 w2"
  shows "kills root prot spare w w2"
proof -
  obtain a where a: "w_log w1 = a @ w_log w" "\<forall>x\<in>set a. kill_ok root prot spare x" using assms(1) by (auto simp: kills_def)
  obtain b where b: "w_log w2 = b @ w_log w1" "\<forall>x\<in>set b. kill_ok root prot spare x" using assms(2) by (auto simp: kills_def)
  show ?thesis unfolding kills_def using a b by (intro exI [of _ "b @ a"]) auto
qed

lemma act_kills: "kill_ok root prot spare a \<Longrightarrow> act_only a w = (r, w') \<Longrightarrow> kills root prot spare w w'"
  by (auto simp: act_only_def attempt_def kills_def)

lemma send_signal_kills:
  assumes "send_signal pf ph sig w = (b, w')" "ph_pid ph \<notin> set spare"
  shows "kills root prot spare w w'"
proof -
  have "kill_ok root prot spare (OpSignal (unat (ph_pid ph)) sig)" using assms(2) by (auto dest!: arg_cong [of _ _ "of_nat :: nat \<Rightarrow> 32 word"])
  note k = act_kills [OF this]
  show ?thesis using assms(1) by (auto simp: send_signal_def split: if_splits prod.splits intro: k)
qed

lemma open_handle_pid: "open_handle pf pid w = Some ph \<Longrightarrow> ph_pid ph = pid"
  by (auto simp: open_handle_def bind_eq_Some_conv)

lemma kill_pid_kills: "kill_pid pf pid w = (b, w') \<Longrightarrow> pid \<notin> set spare \<Longrightarrow> kills root prot spare w w'"
  by (auto simp: kill_pid_def open_handle_pid split: option.splits intro: send_signal_kills)

lemma kill_each_kills: "\<forall>ph\<in>set phs. ph_pid ph \<notin> set spare \<Longrightarrow> kills root prot spare w (kill_each pf phs w)"
proof (induction phs arbitrary: w)
  case (Cons ph phs)
  obtain b w1 where s: "send_signal pf ph SIGKILL w = (b, w1)" by fastforce
  have "kills root prot spare w w1" by (rule send_signal_kills [OF s]) (use Cons.prems in simp)
  also have "kills root prot spare w1 (kill_each pf phs w1)" using Cons by simp
  finally show ?case using s by simp
qed simp

lemma kill_rounds_kills: "kills root prot spare w (kill_rounds n pf dir c spare w)"
proof (induction n arbitrary: w)
  case (Suc n)
  let ?hs = "filter_map (\<lambda>pid. open_handle pf pid w) (filter (\<lambda>pid. pid \<notin> set spare) (procs pf (w_log w) dir c))"
  have "\<forall>ph\<in>set ?hs. ph_pid ph \<notin> set spare" by (auto simp: set_filter_map open_handle_pid)
  then have "kills root prot spare w (kill_each pf ?hs w)" by (rule kill_each_kills)
  also have "kills root prot spare (kill_each pf ?hs w) (kill_rounds n pf dir c spare (kill_each pf ?hs w))" by (rule Suc)
  finally show ?case by (simp add: Let_def)
qed simp

lemma cgroup_kill_kills:
  assumes "cgroup_kill pf dir c spare w = (b, w')" "cg_at root dir child" "killable prot child"
  shows "kills root prot spare w w'"
proof -
  obtain r w1 where a: "act_only (OpRewrite (join dir ''cgroup.kill'') ''1'') w = (r, w1)" by fastforce
  have "kill_ok root prot spare (OpRewrite (join dir ''cgroup.kill'') ''1'')" using assms(2,3) by auto
  then have k: "kills root prot spare w w1" using a by (rule act_kills)
  then show ?thesis
    using assms(1) a kills_trans [OF k kill_rounds_kills]
    by (auto simp: cgroup_kill_def split: option.splits io_error.splits)
qed

lemma kill_direct_kills: "kill_direct pf spare ps (rep, w) = (rep', w') \<Longrightarrow> kills root prot spare w w'"
proof (induction ps arbitrary: rep w)
  case (Cons pid ps)
  show ?case
  proof (cases "pid \<in> set spare")
    case True
    with Cons show ?thesis by simp
  next
    case False
    obtain b w1 where k: "kill_pid pf pid w = (b, w1)" by fastforce
    have "kills root prot spare w w1" by (rule kill_pid_kills [OF k False])
    also have "kills root prot spare w1 w'" using Cons False k by (auto split: if_splits)
    finally show ?thesis .
  qed
qed simp

lemma visit_kills:
  "cg_at root dir relative \<Longrightarrow> kills root prot spare (snd st) (snd (visit pf prot spare dir relative cs st))"
proof (induction pf prot spare dir relative cs st rule: visit.induct)
  case (2 pf prot spare dir relative name cs rest st)
  let ?p = "join dir name" and ?child = "relative @ [slash] @ utf8_lossy name"
  let ?sub = "visit pf prot spare ?p ?child cs st"
  define mid where "mid =
    (if ?child = ''/init.scope'' \<or> left_to_the_shutdown (unit_of ?child) then st
     else if ends_with ''.slice'' (unit_of ?child) \<and> ?child \<notin> set prot then ?sub
     else if \<exists>own\<in>set prot. cg_contains ?child own
     then (case ?sub of (rep, w) \<Rightarrow>
             if ?child \<in> set prot then kill_direct pf spare (direct_procs pf (w_log w) ?p) (rep, w) else (rep, w))
     else (case st of (rep, w) \<Rightarrow> (case cgroup_kill pf ?p (Cgroup cs) spare w of
             (b, w1) \<Rightarrow> (if b then rep\<lparr>kr_cgroups := kr_cgroups rep @ [?p]\<rparr> else rep, w1))))"
  have at: "cg_at root ?p ?child" using "2.prems" by (rule cg_child)
  have m: "kills root prot spare (snd st) (snd mid)"
  proof (cases "?child = ''/init.scope'' \<or> left_to_the_shutdown (unit_of ?child)")
    case True
    then show ?thesis by (simp add: mid_def)
  next
    case left: False
    show ?thesis
    proof (cases "ends_with ''.slice'' (unit_of ?child) \<and> ?child \<notin> set prot")
      case True
      then show ?thesis using "2.IH"(1) [OF refl refl left True at] left unfolding mid_def by simp
    next
      case slice: False
      show ?thesis
      proof (cases "\<exists>own\<in>set prot. cg_contains ?child own")
        case True
        obtain rep1 w1 where s: "?sub = (rep1, w1)" by fastforce
        have k: "kills root prot spare (snd st) w1" using "2.IH"(2) [OF refl refl left slice True at] s by simp
        have "kills root prot spare w1 (snd (kill_direct pf spare ps (rep1, w1)))" for ps
          by (cases "kill_direct pf spare ps (rep1, w1)") (simp add: kill_direct_kills)
        then show ?thesis using left slice True s k kills_trans [OF k] unfolding mid_def by simp
      next
        case False
        obtain rep w where st: "st = (rep, w)" by fastforce
        obtain b w1 where c: "cgroup_kill pf ?p (Cgroup cs) spare w = (b, w1)" by fastforce
        have "killable prot ?child" using left False by (simp add: killable_def)
        then have "kills root prot spare w w1" by (rule cgroup_kill_kills [OF c at])
        then show ?thesis using left slice False st c unfolding mid_def by auto
      qed
    qed
  qed
  also have "kills root prot spare (snd mid) (snd (visit pf prot spare dir relative rest mid))"
    using "2.IH"(3) [OF refl refl "2.prems"] unfolding mid_def .
  finally show ?case unfolding mid_def visit.simps Let_def .
qed simp

section \<open>Properties\<close>


text \<open>Two services and the invocation's own session.\<close>

definition sample_procfs :: procfs where
  "sample_procfs =
     \<lparr>pf_names = (\<lambda>_. [''1'', ''7'', ''9'']),
      pf_bytes = (\<lambda>_ p. if p = ''/proc/7/stat'' then Some ''7 (nails) R 1 7 7 0 0 0 0 0 0 0 0 0 0 0 0 0 0 0 0 55''
        else if p = ''/proc/7/cgroup'' then Some ''0::/user.slice/s1.scope''
        else if p = ''/proc/9/stat'' then Some ''9 (cat) S 1 9 9 0 0 0 0 0 0 0 0 0 0 0 0 0 0 0 0 60'' else None),
      pf_link = (\<lambda>_ _. None), pf_pidfd = (\<lambda>_ _. True), pf_own = 7\<rparr>"

definition sample_cgroups :: cgroup where
  "sample_cgroups = Cgroup [(''init.scope'', Cgroup []),
     (''system.slice'', Cgroup [(''a.service'', Cgroup []), (''systemd-journald.service'', Cgroup [])]),
     (''user.slice'', Cgroup [(''s1.scope'', Cgroup []), (''s2.scope'', Cgroup [])])]"

definition sample_kill :: "kill_report \<times> world" where
  "sample_kill = kill_userspace sample_procfs ''/sys/fs/cgroup'' sample_cgroups (current_invocation sample_procfs [])
     (guard_world (\<lambda>_. None) (\<lambda>_. None))"


end
