(* ===== verification/Emergency.thy ===== *)
theory Emergency
  imports Transition Processes
begin

text \<open>
  The emergency's hot path, \<^verbatim>\<open>nails-teardown/src/whole_root/emergency.rs\<close>.  Durations are left out of the
  report; its phases are kept by name and order.  The lemmas show that every request to leave ends in an
  enqueued target or in the kernel asked directly, that the soft-reboot is enqueued only over a prepared
  and armed way back, and that the shells die before anything is enqueued.
\<close>

section \<open>Definitions\<close>

datatype finish = FReturn | FReboot | FPoweroff

definition target_of :: "finish \<Rightarrow> bytes" where
  "target_of f = (case f of FReturn \<Rightarrow> ''soft-reboot.target'' | FReboot \<Rightarrow> ''reboot.target'' | FPoweroff \<Rightarrow> ''poweroff.target'')"

datatype side = HiddenSide | DecoySide | NoSide

record em_host =
  em_run :: path
  em_nextroot :: path
  em_runtime_dir :: path
  em_cgroup_root :: path
  em_protected :: "pid list"
  em_act :: bool

definition em_plan_path :: "em_host \<Rightarrow> path" where
  "em_plan_path m = join (em_runtime_dir m) PLAN_NAME"

record hot_report =
  hr_side :: side
  hr_requested :: finish
  hr_dispatched :: "finish option"
  hr_fallback :: "bytes option"
  hr_kernel_power_off :: bool
  hr_deferred :: "(bytes \<times> bool) list"
  hr_kill :: kill_report
  hr_remaining :: "path list"
  hr_phases :: "bytes list"

definition new_report :: "side \<Rightarrow> finish \<Rightarrow> hot_report" where
  "new_report s f =
     \<lparr>hr_side = s, hr_requested = f, hr_dispatched = None, hr_fallback = None, hr_kernel_power_off = False,
      hr_deferred = [], hr_kill = \<lparr>kr_cgroups = [], kr_processes = []\<rparr>, hr_remaining = [], hr_phases = []\<rparr>"

definition phase :: "bytes \<Rightarrow> hot_report \<Rightarrow> hot_report" where
  "phase name rep = rep\<lparr>hr_phases := hr_phases rep @ [name]\<rparr>"

definition found_nothing :: "hot_report \<Rightarrow> bool" where
  "found_nothing rep \<longleftrightarrow> hr_side rep = NoSide"

definition kernel_power_off :: "world \<Rightarrow> bool \<times> world" where
  "kernel_power_off w =
     (let w1 = snd (act_only OpSync w) in case act_only OpKernelPowerOff w1 of (r, w2) \<Rightarrow> (r = None, w2))"

definition enqueue :: "path option \<Rightarrow> finish \<Rightarrow> hot_report \<Rightarrow> world \<Rightarrow> hot_report \<times> world" where
  "enqueue systemctl f rep w =
     (let last_resort = (\<lambda>w. case kernel_power_off w of (b, w1) \<Rightarrow> (rep\<lparr>hr_kernel_power_off := b\<rparr>, w1)) in
      case systemctl of
        None \<Rightarrow> last_resort w
      | Some s \<Rightarrow>
          (case start_target s (target_of f) w of
             (True, w1) \<Rightarrow> (rep\<lparr>hr_dispatched := Some f\<rparr>, w1)
           | (False, w1) \<Rightarrow>
               if f = FPoweroff then last_resort w1
               else (case start_target s (target_of FPoweroff) w1 of
                       (True, w2) \<Rightarrow>
                         (rep\<lparr>hr_fallback := Some (target_of f @ '' could not be enqueued; powering off''),
                              hr_dispatched := Some FPoweroff\<rparr>, w2)
                     | (False, w2) \<Rightarrow> last_resort w2)))"

definition kill_shells :: "procfs \<Rightarrow> em_host \<Rightarrow> hot_report \<Rightarrow> world \<Rightarrow> hot_report \<times> world" where
  "kill_shells pf m rep w =
     (phase ''kill-shells'' rep, if em_act m then kill_all_interactive_shells pf [] w else w)"

text \<open>\<^verbatim>\<open>dispatch\<close> and \<^verbatim>\<open>dispatch_without_plan\<close>, which differ in the known path of the tool.\<close>

definition dispatch :: "host \<Rightarrow> procfs \<Rightarrow> path option \<Rightarrow> em_host \<Rightarrow> finish \<Rightarrow> hot_report \<Rightarrow> world \<Rightarrow> hot_report \<times> world" where
  "dispatch h pf known m f rep w =
     (case kill_shells pf m rep w of
        (rep1, w1) \<Rightarrow>
          (case (if \<not> em_act m then (rep1\<lparr>hr_dispatched := Some f\<rparr>, w1)
                 else enqueue (find_tool h known ''systemctl'') f rep1 w1) of
             (rep2, w2) \<Rightarrow> (phase ''enqueue'' rep2, w2)))"

definition prepare_return :: "host \<Rightarrow> em_host \<Rightarrow> plan \<Rightarrow> hot_report \<Rightarrow> world \<Rightarrow> (finish \<times> hot_report \<times> plan) \<times> world" where
  "prepare_return h m p rep w =
     (if hr_requested rep \<noteq> FReturn then ((hr_requested rep, rep, p), w)
      else
        (case (if em_act m then mount_decoy_root h p (em_nextroot m) (em_run m) w else ((None, p), w)) of
           ((None, p1), w1) \<Rightarrow> ((FReturn, phase ''prepare-return'' rep, p1), w1)
         | ((Some e, p1), w1) \<Rightarrow>
             ((FPoweroff, (phase ''prepare-return'' rep)\<lparr>hr_fallback := Some (show_return_error e @ ''; powering off instead'')\<rparr>, p1), w1)))"

definition arm_return :: "host \<Rightarrow> em_host \<Rightarrow> finish \<Rightarrow> hot_report \<Rightarrow> plan \<Rightarrow> world \<Rightarrow> (finish \<times> hot_report \<times> plan) \<times> world" where
  "arm_return h m f rep p w =
     (if f \<noteq> FReturn then ((f, rep, p), w)
      else
        (case (if em_act m then close_backend_deferred h p w else ([], w)) of
           (deferred, w1) \<Rightarrow>
             (let rep1 = (phase ''close-backend'' rep)\<lparr>hr_deferred := deferred\<rparr> in
              case arm_leave h p (em_plan_path m) w1 of
                ((None, p1), w2) \<Rightarrow> ((FReturn, phase ''arm'' rep1, p1), w2)
              | ((Some e, p1), w2) \<Rightarrow>
                  ((FPoweroff, (phase ''arm'' rep1)\<lparr>hr_fallback := Some (show_return_error e @ ''; powering off instead'')\<rparr>, p1),
                   if em_act m then snd (detach_tree (em_nextroot m) w2) else w2))))"

definition hidden :: "host \<Rightarrow> procfs \<Rightarrow> cgroup \<Rightarrow> plan \<Rightarrow> em_host \<Rightarrow> hot_report \<Rightarrow> world \<Rightarrow> hot_report \<times> world" where
  "hidden h pf tree p m rep w =
     (case prepare_return h m p rep w of
        ((f1, rep1, p1), w1) \<Rightarrow>
     (case arm_return h m f1 rep1 p1 w1 of
        ((f2, rep2, p2), w2) \<Rightarrow>
     (case dispatch h pf (tool_systemctl (p_tools p2)) m f2 rep2 w2 of
        (rep3, w3) \<Rightarrow>
          (case (if \<not> em_act m then (\<lparr>kr_cgroups = [], kr_processes = []\<rparr>, w3)
                 else (let iv = current_invocation pf (w_log w3) in
                       kill_userspace pf (em_cgroup_root m) tree (iv\<lparr>inv_extra := inv_extra iv @ em_protected m\<rparr>) w3)) of
             (k, w4) \<Rightarrow> ((phase ''kill'' rep3)\<lparr>hr_kill := k\<rparr>, w4)))))"

definition signal_owner :: "procfs \<Rightarrow> plan \<Rightarrow> world \<Rightarrow> world" where
  "signal_owner pf p w =
     (case p_owner p of
        None \<Rightarrow> w
      | Some owner \<Rightarrow>
          (let pid = of_nat (owner_pid owner) :: pid; s = stat_of pf (w_log w) pid in
           if \<not> is_some_and s (\<lambda>s. st_start s = owner_start owner) \<or> in_invocation (current_invocation pf (w_log w)) pid s then w
           else (case open_handle pf pid w of
                   None \<Rightarrow> w
                 | Some ph \<Rightarrow> snd (send_signal pf ph SIGTERM w))))"

definition decoy_cleanup :: "host \<Rightarrow> plan \<Rightarrow> em_host \<Rightarrow> world \<Rightarrow> bool \<times> world" where
  "decoy_cleanup h p m w =
     (let w1 = snd (close_backend_deferred h p w);
          (saved, w2) = load_snapshot (join (em_runtime_dir m) SNAPSHOT_NAME) w1;
          kept = kept_of saved;
          (dropins, w3) = remove_dropin (em_run m) kept w2;
          (masked, w4) = remove_masks (em_run m) (p_masks p) (p_boot_masks p) kept w3;
          w5 = restore_settings (p_kernel_settings p) w4
      in (dropins \<or> masked, remove_runtime_dir (em_runtime_dir m) w5))"

definition decoy_side :: "host \<Rightarrow> procfs \<Rightarrow> plan \<Rightarrow> em_host \<Rightarrow> hot_report \<Rightarrow> world \<Rightarrow> (bool \<times> hot_report) \<times> world" where
  "decoy_side h pf p m rep w =
     (let rep1 = phase ''signal-activation'' rep;
          w1 = (if em_act m then signal_owner pf p w else w);
          (rest, w2) = (if em_act m then detach_tree (em_nextroot m) w1 else ([], w1));
          rep2 = (phase ''detach-nextroot'' rep1)\<lparr>hr_remaining := rest\<rparr>;
          (unloaded, w3) = (if em_act m then decoy_cleanup h p m w2 else (False, w2))
      in ((unloaded, phase ''remove-runtime'' rep2), w3))"

definition settle :: "plan \<Rightarrow> em_host \<Rightarrow> bool \<Rightarrow> hot_report \<Rightarrow> world \<Rightarrow> hot_report \<times> world" where
  "settle p m unloaded rep w =
     (if hr_dispatched rep \<noteq> None then (rep, w)
      else
        (phase ''reload'' rep,
         if \<not> em_act m then w
         else
           (let w1 = (if p_run_noexec p then set_noexec (em_run m) True w else w) in
            case tool_systemctl (p_tools p) of
              Some s \<Rightarrow> if unloaded then snd (daemon_reload s w1) else w1
            | None \<Rightarrow> w1)))"

definition side_of :: "host \<Rightarrow> plan option \<Rightarrow> world \<Rightarrow> side" where
  "side_of h plan w =
     (case plan of
        None \<Rightarrow> NoSide
      | Some p \<Rightarrow> if in_hidden_root (case h_live h (w_log w) of Inl _ \<Rightarrow> [] | Inr ms \<Rightarrow> ms) p then HiddenSide else DecoySide)"

text \<open>Ignoring the session's end, \<^verbatim>\<open>survive_session_stop\<close>, changes no state of the model.\<close>

definition run_emergency :: "host \<Rightarrow> procfs \<Rightarrow> cgroup \<Rightarrow> plan option \<Rightarrow> em_host \<Rightarrow> finish \<Rightarrow> world \<Rightarrow> hot_report \<times> world" where
  "run_emergency h pf tree plan m f w =
     (let s = side_of h plan w; rep = new_report s f in
      case plan of
        Some p \<Rightarrow>
          (if s = HiddenSide then hidden h pf tree p m rep w
           else
             (case decoy_side h pf p m rep w of
                ((unloaded, rep1), w1) \<Rightarrow>
                  (case (if f \<noteq> FReturn then dispatch h pf (tool_systemctl (p_tools p)) m f rep1 w1 else (rep1, w1)) of
                     (rep2, w2) \<Rightarrow> settle p m unloaded rep2 w2)))
      | None \<Rightarrow> if f \<noteq> FReturn then dispatch h pf None m f rep w else (rep, w))"

section \<open>Lemmas\<close>

subsection \<open>The log\<close>

text \<open>Between two states the log grew, and an operation was tried.\<close>

definition tried :: "op \<Rightarrow> world \<Rightarrow> world \<Rightarrow> bool" where
  "tried a w w' \<longleftrightarrow> (\<exists>l. w_log w' = l @ w_log w \<and> a \<in> set l)"

definition grew :: "world \<Rightarrow> world \<Rightarrow> bool" where
  "grew w w' \<longleftrightarrow> (\<exists>l. w_log w' = l @ w_log w)"

lemma grew_refl [simp]: "grew w w"
  by (simp add: grew_def)

lemma grew_trans [trans]: "grew w w1 \<Longrightarrow> grew w1 w2 \<Longrightarrow> grew w w2"
  by (fastforce simp: grew_def)

lemma touches_grew: "touches K w w' \<Longrightarrow> grew w w'"
  by (simp add: touches_def grew_def)

lemma kills_grew: "kills root prot spare w w' \<Longrightarrow> grew w w'"
  by (auto simp: kills_def grew_def)

lemma tried_grew: "tried a w w' \<Longrightarrow> grew w w'"
  by (auto simp: tried_def grew_def)

lemma tried_before [trans]: "grew w w1 \<Longrightarrow> tried a w1 w2 \<Longrightarrow> tried a w w2"
  by (fastforce simp: grew_def tried_def)

lemma tried_after [trans]: "tried a w w1 \<Longrightarrow> grew w1 w2 \<Longrightarrow> tried a w w2"
  by (fastforce simp: grew_def tried_def)

lemma act_tried: "act_only a w = (r, w') \<Longrightarrow> tried a w w'"
  by (auto simp: act_only_def attempt_def tried_def)

lemma send_signal_quiet [quiet]: "send_signal pf ph sig w = (r, w') \<Longrightarrow> touches K w0 w \<Longrightarrow> touches K w0 w'"
  by (auto simp: send_signal_def split: if_splits prod.splits; elim quiet)

lemma kill_pid_quiet [quiet]: "kill_pid pf pid w = (r, w') \<Longrightarrow> touches K w0 w \<Longrightarrow> touches K w0 w'"
  by (auto simp: kill_pid_def split: option.splits; elim quiet)

lemma kill_shells_loop_quiet [quiet]: "kill_shells_loop pf c ps w = (r, w') \<Longrightarrow> touches K w0 w \<Longrightarrow> touches K w0 w'"
proof (induction ps arbitrary: w r)
  case (Cons p ps)
  show ?case using Cons.prems by (auto split: if_splits prod.splits; elim quiet Cons.IH)
qed simp

lemma kill_all_shells_quiet: "touches K w (kill_all_interactive_shells pf spared w)"
proof -
  have q: "touches K w0 (snd (kill_shells_loop pf c ps v))" if "touches K w0 v" for c ps v w0
    using kill_shells_loop_quiet [OF _ that] by (cases "kill_shells_loop pf c ps v") simp
  show ?thesis
    unfolding kill_all_interactive_shells_def kill_invoking_shells_def kill_interactive_shells_def Let_def
    by (intro q touches_refl)
qed

subsection \<open>Dispatching\<close>

definition start_op :: "path \<Rightarrow> finish \<Rightarrow> op" where
  "start_op s f = OpTool [s, ''start'', ''--no-block'', ''--job-mode=replace-irreversibly'', ''--'', target_of f]"

lemma start_target_tried: "start_target s (target_of f) w = (b, w') \<Longrightarrow> tried (start_op s f) w w'"
  by (auto simp: start_target_def run_bounded_def start_op_def split: prod.splits dest: act_tried)

text \<open>What a dispatch ends in.\<close>

definition ended :: "finish \<Rightarrow> hot_report \<Rightarrow> world \<Rightarrow> world \<Rightarrow> bool" where
  "ended f rep w w' \<longleftrightarrow>
     (\<exists>s g. hr_dispatched rep = Some g \<and> (g = f \<or> g = FPoweroff) \<and> tried (start_op s g) w w')
     \<or> (hr_dispatched rep = None \<and> tried OpKernelPowerOff w w')"

lemma ended_before: "grew w w1 \<Longrightarrow> ended f rep w1 w2 \<Longrightarrow> ended f rep w w2"
  unfolding ended_def using tried_before by blast

lemma ended_after: "ended f rep w w1 \<Longrightarrow> grew w1 w2 \<Longrightarrow> ended f rep w w2"
  unfolding ended_def using tried_after by blast

lemma kernel_power_off_tried: "kernel_power_off w = (b, w') \<Longrightarrow> tried OpKernelPowerOff w w'"
proof -
  assume k: "kernel_power_off w = (b, w')"
  obtain r1 w1 where 1: "act_only OpSync w = (r1, w1)" by fastforce
  obtain r2 w2 where 2: "act_only OpKernelPowerOff w1 = (r2, w2)" by fastforce
  have "w' = w2" using k 1 2 by (simp add: kernel_power_off_def)
  then show ?thesis using tried_before [OF tried_grew [OF act_tried [OF 1]] act_tried [OF 2]] by simp
qed

lemma enqueue_ended:
  assumes "enqueue s f rep w = (rep', w')" "hr_dispatched rep = None"
  shows "ended f rep' w w'"
proof (cases s)
  case None
  then show ?thesis
    using assms kernel_power_off_tried by (auto simp: enqueue_def Let_def ended_def split: prod.splits)
next
  case (Some x)
  obtain b w1 where s1: "start_target x (target_of f) w = (b, w1)" by fastforce
  obtain c w2 where s2: "start_target x (target_of FPoweroff) w1 = (c, w2)" by fastforce
  note t1 = start_target_tried [OF s1] and t2 = start_target_tried [OF s2]
  have t12: "tried (start_op x FPoweroff) w w2" by (rule tried_before [OF tried_grew [OF t1] t2])
  have k: "tried OpKernelPowerOff w (snd (kernel_power_off w1))" "tried OpKernelPowerOff w (snd (kernel_power_off w2))"
    using tried_before [OF tried_grew [OF t1] kernel_power_off_tried [of w1]]
      tried_before [OF tried_grew [OF t12] kernel_power_off_tried [of w2]] by (metis prod.collapse)+
  consider "b" | "\<not> b" "f \<noteq> FPoweroff" "c" | "\<not> b" "f = FPoweroff" | "\<not> b" "f \<noteq> FPoweroff" "\<not> c" by blast
  then show ?thesis
  proof cases
    case 1
    then have "hr_dispatched rep' = Some f" "w' = w1" using assms(1) Some s1
      by (auto simp: enqueue_def)
    with t1 show ?thesis unfolding ended_def by blast
  next
    case 2
    then have "hr_dispatched rep' = Some FPoweroff" "w' = w2"
      using assms(1) Some s1 s2 by (auto simp: enqueue_def)
    with t12 show ?thesis unfolding ended_def by blast
  next
    case 3
    then have "hr_dispatched rep' = None" "w' = snd (kernel_power_off w1)"
      using assms Some s1 by (auto simp: enqueue_def split: prod.splits)
    with k(1) show ?thesis unfolding ended_def by simp
  next
    case 4
    then have "hr_dispatched rep' = None" "w' = snd (kernel_power_off w2)"
      using assms Some s1 s2 by (auto simp: enqueue_def split: prod.splits)
    with k(2) show ?thesis unfolding ended_def by simp
  qed
qed

lemma dispatch_ended:
  assumes "dispatch h pf known m f rep w = (rep', w')" "hr_dispatched rep = None" "em_act m"
  shows "ended f rep' w w'"
proof -
  let ?w1 = "kill_all_interactive_shells pf [] w"
  obtain rep2 w2 where e: "enqueue (find_tool h known ''systemctl'') f (phase ''kill-shells'' rep) ?w1 = (rep2, w2)" by fastforce
  have r: "rep' = phase ''enqueue'' rep2" "w' = w2"
    using assms(1,3) e by (auto simp: dispatch_def kill_shells_def)
  have "ended f rep2 ?w1 w2" by (rule enqueue_ended [OF e]) (simp add: phase_def assms(2))
  then have "ended f rep2 w w2" by (rule ended_before [OF touches_grew [OF kill_all_shells_quiet]])
  then show ?thesis by (simp add: r ended_def phase_def)
qed

subsection \<open>Preparing\<close>

lemma prepare_return_result:
  assumes "prepare_return h m p rep w = ((f, rep1, p1), w1)" "em_act m"
  shows "grew w w1 \<and> hr_dispatched rep1 = hr_dispatched rep \<and> hr_requested rep1 = hr_requested rep
    \<and> (f = hr_requested rep \<or> f = FPoweroff)
    \<and> (f = FReturn \<longrightarrow> mount_decoy_root h p (em_nextroot m) (em_run m) w = ((None, p1), w1))"
proof (cases "hr_requested rep = FReturn")
  case False
  then show ?thesis using assms by (auto simp: prepare_return_def)
next
  case True
  obtain r p2 w2 where d: "mount_decoy_root h p (em_nextroot m) (em_run m) w = ((r, p2), w2)" by (metis prod.collapse)
  obtain w3 where w3: "touches UNIV w w3" "complete_decoy_root h p (em_nextroot m) (em_run m) w3 = ((r, p2), w2)
     \<or> (r \<noteq> None \<and> p2 = p\<lparr>p_decoy_mounts := forget_ids (p_decoy_mounts p)\<rparr> \<and> w2 = snd (detach_tree (em_nextroot m) w3))"
    using mount_decoy_root_cases [OF d] by blast
  have "touches UNIV w w2"
    using w3(2) complete_decoy_root_quiet [OF _ w3(1)] detach_tree_quiet [OF w3(1)] by blast
  then show ?thesis
    using assms True d touches_grew by (cases r) (auto simp: prepare_return_def phase_def)
qed

lemma arm_return_result:
  assumes "arm_return h m f rep p w = ((f', rep1, p1), w1)" "em_act m"
  shows "grew w w1 \<and> hr_dispatched rep1 = hr_dispatched rep \<and> (f' = f \<or> f' = FPoweroff)
    \<and> (f' = FReturn \<longrightarrow> p1 = p\<lparr>p_armed := Some \<lparr>arm_direction = Leaving, arm_at = h_now h\<rparr>\<rparr>
         \<and> node_at w1 (em_plan_path m) = Some (File (h_plan_text h p1)))"
proof (cases "f = FReturn")
  case False
  then show ?thesis using assms by (auto simp: arm_return_def)
next
  case True
  obtain ds w2 where c: "close_backend_deferred h p w = (ds, w2)" by fastforce
  have t2: "touches UNIV w w2" by (rule close_backend_quiet [OF c touches_refl])
  let ?p = "p\<lparr>p_armed := Some \<lparr>arm_direction = Leaving, arm_at = h_now h\<rparr>\<rparr>"
  obtain r w3 where a: "write_plan h ?p (em_plan_path m) w2 = (r, w3)" by fastforce
  have t3: "touches UNIV w w3"
    by (rule touches_trans [OF t2 touches_mono [OF write_atomic_touches [OF a [unfolded write_plan_def]]]]) simp
  have t4: "touches UNIV w (snd (detach_tree (em_nextroot m) w3))" by (rule detach_tree_quiet [OF t3])
  have d: "r = None \<Longrightarrow> node_at w3 (em_plan_path m) = Some (File (h_plan_text h ?p))"
    using a write_atomic_done by (simp add: write_plan_def)
  show ?thesis
    using assms True c a d touches_grew [OF t3] touches_grew [OF t4]
    by (cases r) (auto simp: arm_return_def arm_leave_def Let_def phase_def)
qed

lemma kill_userspace_grew: "kill_userspace pf root tree iv w = (k, w') \<Longrightarrow> grew w w'"
proof (cases tree)
  case (Cgroup cs)
  let ?prot = "protected_paths pf (w_log w) iv"
  let ?spare = "filter (\<lambda>pid. in_invocation iv pid (stat_of pf (w_log w) pid)) (pids pf (w_log w))"
  let ?st = "(\<lparr>kr_cgroups = [], kr_processes = []\<rparr>, w)"
  assume "kill_userspace pf root tree iv w = (k, w')"
  then have "visit pf ?prot ?spare (join root []) [] cs ?st = (k, w')"
    using Cgroup by (simp add: kill_userspace_def kill_below_def cg_dir_def trim_slashes_def)
  then show ?thesis using kills_grew [OF visit_kills [OF cg_root, of "join root []" ?prot ?spare ?st pf cs]] by simp
qed

lemma hidden_steps:
  assumes "hidden h pf tree p m rep w = (rep', w')" "em_act m"
  obtains f1 rep1 p1 w1 f2 rep2 p2 w2 rep3 w3 where
    "prepare_return h m p rep w = ((f1, rep1, p1), w1)" "arm_return h m f1 rep1 p1 w1 = ((f2, rep2, p2), w2)"
    "dispatch h pf (tool_systemctl (p_tools p2)) m f2 rep2 w2 = (rep3, w3)"
    "hr_dispatched rep' = hr_dispatched rep3" "grew w3 w'"
proof -
  obtain f1 rep1 p1 w1 where 1: "prepare_return h m p rep w = ((f1, rep1, p1), w1)" by (metis prod.collapse)
  obtain f2 rep2 p2 w2 where 2: "arm_return h m f1 rep1 p1 w1 = ((f2, rep2, p2), w2)" by (metis prod.collapse)
  obtain rep3 w3 where 3: "dispatch h pf (tool_systemctl (p_tools p2)) m f2 rep2 w2 = (rep3, w3)" by fastforce
  define iv where "iv = (let iv = current_invocation pf (w_log w3) in iv\<lparr>inv_extra := inv_extra iv @ em_protected m\<rparr>)"
  obtain k w4 where 4: "kill_userspace pf (em_cgroup_root m) tree iv w3 = (k, w4)" by fastforce
  have r: "hr_dispatched rep' = hr_dispatched rep3" "w' = w4"
    using assms 1 2 3 4 by (auto simp: hidden_def Let_def iv_def phase_def)
  have "grew w3 w4" by (rule kill_userspace_grew [OF 4])
  then show thesis using that 1 2 3 r by blast
qed

lemma snd_grew: "(\<And>r w'. res = (r, w') \<Longrightarrow> touches K w w') \<Longrightarrow> grew w (snd res)"
  by (cases res) (simp add: touches_grew)

lemma remove_files_grew: "remove_files run kept fs w = (r, w') \<Longrightarrow> grew w w'"
proof (induction fs arbitrary: w r w')
  case (Cons a fs)
  obtain d n where a: "a = (d, n)" by fastforce
  obtain x w1 where 1: "remove_file (join (join run d) n) w = (x, w1)" by fastforce
  define w2 where "w2 = (if snap_contains kept d then w1 else snd (remove_dir (join run d) w1))"
  have "grew w1 w2" using snd_grew [of "remove_dir (join run d) w1", OF remove_dir_touches] by (simp add: w2_def)
  with touches_grew [OF remove_file_touches [OF 1]] have g: "grew w w2" using grew_trans by blast
  obtain b w3 where 3: "remove_files run kept fs w2 = (b, w3)" by fastforce
  have "w' = w3" using Cons.prems a 1 3 by (auto simp: Let_def w2_def)
  then show ?case using Cons.IH [OF 3] g grew_trans by blast
qed simp

lemma unmask_loop_grew: "unmask_loop run kept dir names w = (r, w') \<Longrightarrow> grew w w'"
proof (induction names arbitrary: w r w')
  case (Cons n names)
  obtain x w1 where 1: "read_link (join run (join dir n)) w = (x, w1)" by fastforce
  obtain y w2 where 2: "remove_file (join run (join dir n)) w1 = (y, w2)" by fastforce
  have g1: "grew w w1" using read_link_touches [OF 1] touches_grew by blast
  have g2: "grew w w2" using g1 touches_grew [OF remove_file_touches [OF 2]] grew_trans by blast
  obtain b0 v0 b1 v1 b2 v2 where v: "unmask_loop run kept dir names w = (b0, v0)" "unmask_loop run kept dir names w1 = (b1, v1)"
    "unmask_loop run kept dir names w2 = (b2, v2)" by fastforce
  have "w' \<in> {v0, v1, v2}"
    using Cons.prems 1 2 v by (auto simp: Let_def split: if_splits sum.splits)
  then show ?case using Cons.IH [OF v(1)] Cons.IH [OF v(2)] Cons.IH [OF v(3)] g1 g2 grew_trans by blast
qed simp

lemma remove_masks_grew: "remove_masks run ms bs kept w = (r, w') \<Longrightarrow> grew w w'"
proof -
  assume m: "remove_masks run ms bs kept w = (r, w')"
  obtain b1 w1 where 1: "unmask_loop run kept RUNTIME_UNIT_DIR ms w = (b1, w1)" by fastforce
  obtain b2 w2 where 2: "unmask_loop run kept RUNTIME_CONTROL_DIR bs w1 = (b2, w2)" by fastforce
  have g: "grew w w2" using unmask_loop_grew [OF 1] unmask_loop_grew [OF 2] grew_trans by blast
  have "grew w2 (snd (remove_dir (join run RUNTIME_CONTROL_DIR) w2))" by (rule snd_grew) (rule remove_dir_touches)
  then show ?thesis using m 1 2 g grew_trans by (auto simp: remove_masks_def split: if_splits)
qed

lemma restore_settings_grew: "grew w (restore_settings ss w)"
proof (induction ss arbitrary: w)
  case (Cons s ss)
  obtain v w1 where 1: "current_setting (ks_path s) w = (v, w1)" by fastforce
  have g: "grew w w1" using touches_grew [OF current_setting_quiet [OF 1 touches_refl]] .
  have "grew w1 (snd (rewrite_file True (ks_path s) b w1))" for b by (rule snd_grew) (rule rewrite_file_touches)
  then have "grew w (snd (rewrite_file True (ks_path s) b w1))" for b using g grew_trans by blast
  note grew_trans [OF this Cons.IH] grew_trans [OF g Cons.IH]
  then show ?case using 1 by auto
qed simp

lemma remove_runtime_dir_grew: "grew w (remove_runtime_dir dir w)"
proof -
  have d: "grew w (snd (detach_tree dir w))" by (rule touches_grew [OF detach_tree_quiet [OF touches_refl]])
  have "grew v (snd (remove_dir_all dir v))" for v by (rule snd_grew) (rule remove_dir_all_touches)
  then show ?thesis using d grew_trans by (auto simp: remove_runtime_dir_def split: prod.splits)
qed

lemma decoy_cleanup_grew: "decoy_cleanup h p m w = (r, w') \<Longrightarrow> grew w w'"
proof -
  assume c: "decoy_cleanup h p m w = (r, w')"
  obtain x w1 where 1: "close_backend_deferred h p w = (x, w1)" by fastforce
  obtain s w2 where 2: "load_snapshot (join (em_runtime_dir m) SNAPSHOT_NAME) w1 = (s, w2)" by fastforce
  obtain b3 w3 where 3: "remove_dropin (em_run m) (kept_of s) w2 = (b3, w3)" by fastforce
  obtain b4 w4 where 4: "remove_masks (em_run m) (p_masks p) (p_boot_masks p) (kept_of s) w3 = (b4, w4)" by fastforce
  have "grew w w1" by (rule touches_grew [OF close_backend_quiet [OF 1 touches_refl]])
  also have "grew w1 w2"
    using 2 read_file_touches touches_grew by (fastforce simp: load_snapshot_def split: prod.splits sum.splits)
  also have "grew w2 w3" using 3 remove_files_grew by (simp add: remove_dropin_def)
  also have "grew w3 w4" by (rule remove_masks_grew [OF 4])
  also have "grew w4 (restore_settings (p_kernel_settings p) w4)" by (rule restore_settings_grew)
  also have "grew \<dots> (remove_runtime_dir (em_runtime_dir m) \<dots>)" by (rule remove_runtime_dir_grew)
  finally show ?thesis using c 1 2 3 4 by (auto simp: decoy_cleanup_def Let_def)
qed

lemma signal_owner_grew: "grew w (signal_owner pf p w)"
proof -
  have "grew w (snd (send_signal pf ph sig w))" for ph sig
    by (rule snd_grew) (rule send_signal_quiet [OF _ touches_refl])
  then show ?thesis by (auto simp: signal_owner_def Let_def split: option.splits)
qed

lemma decoy_side_grew: "decoy_side h pf p m rep w = ((u, rep1), w1) \<Longrightarrow> grew w w1 \<and> hr_dispatched rep1 = hr_dispatched rep"
proof -
  assume d: "decoy_side h pf p m rep w = ((u, rep1), w1)"
  let ?w = "if em_act m then signal_owner pf p w else w"
  obtain rest w2 where 2: "(if em_act m then detach_tree (em_nextroot m) ?w else ([], ?w)) = (rest, w2)" by fastforce
  obtain b w3 where 3: "(if em_act m then decoy_cleanup h p m w2 else (False, w2)) = (b, w3)" by fastforce
  have "grew w ?w" using signal_owner_grew by simp
  also have "grew ?w w2"
    using 2 touches_grew [OF detach_tree_quiet [OF touches_refl]] by (auto split: if_splits) (metis snd_conv)
  also have "grew w2 w3" using 3 decoy_cleanup_grew by (auto split: if_splits)
  finally show ?thesis using d 2 3 by (auto simp: decoy_side_def Let_def phase_def split: if_splits prod.splits)
qed

lemma settle_grew: "settle p m u rep w = (rep', w') \<Longrightarrow> grew w w' \<and> hr_dispatched rep' = hr_dispatched rep"
proof -
  assume s: "settle p m u rep w = (rep', w')"
  have n: "grew w (set_noexec (em_run m) True w)" unfolding set_noexec_def by (rule touches_grew [OF act_quiet_snd [OF touches_refl]])
  have "grew v (snd (daemon_reload x v))" for x v
    unfolding daemon_reload_def by (rule snd_grew) (rule run_bounded_quiet [OF _ touches_refl])
  then show ?thesis
    using s n grew_trans by (auto simp: settle_def Let_def phase_def split: if_splits option.splits)
qed

lemma ended_finish: "ended f2 rep w w' \<Longrightarrow> f2 = f \<or> f2 = FPoweroff \<Longrightarrow> ended f rep w w'"
  unfolding ended_def by blast

lemma hidden_ended:
  assumes "hidden h pf tree p m rep w = (rep', w')" "em_act m" "hr_dispatched rep = None"
  shows "ended (hr_requested rep) rep' w w'"
proof -
  obtain f1 rep1 p1 w1 f2 rep2 p2 w2 rep3 w3 where s:
    "prepare_return h m p rep w = ((f1, rep1, p1), w1)" "arm_return h m f1 rep1 p1 w1 = ((f2, rep2, p2), w2)"
    "dispatch h pf (tool_systemctl (p_tools p2)) m f2 rep2 w2 = (rep3, w3)"
    "hr_dispatched rep' = hr_dispatched rep3" "grew w3 w'" by (rule hidden_steps [OF assms(1,2)])
  note r1 = prepare_return_result [OF s(1) assms(2)] and r2 = arm_return_result [OF s(2) assms(2)]
  have d: "hr_dispatched rep2 = None" using r1 r2 assms(3) by simp
  have g: "grew w w2" using r1 r2 grew_trans by blast
  have f: "f2 = hr_requested rep \<or> f2 = FPoweroff" using r1 r2 by auto
  have "ended (hr_requested rep) rep3 w w'"
    by (rule ended_finish [OF ended_after [OF ended_before [OF g dispatch_ended [OF s(3) d assms(2)]] s(5)] f])
  then show ?thesis by (simp add: ended_def s(4))
qed

section \<open>Properties\<close>



text \<open>A session whose root is the overlay of the plan, on a host that starts targets.\<close>

definition session_mounts :: "mount_entry list" where
  "session_mounts = [sample_entry\<lparr>mount_point := ''/'', m_fstype := ''overlay'', super_opts := ''lowerdir=/d,upperdir=/mnt/root/upper,workdir=/mnt/root/work''\<rparr>]"

definition session_host :: host where
  "session_host = sample_host\<lparr>h_live := \<lambda>_. Inr session_mounts\<rparr>"

definition em_system :: em_host where
  "em_system = \<lparr>em_run = ''/run'', em_nextroot = NEXTROOT, em_runtime_dir = RUNTIME_DIR, em_cgroup_root = ''/sys/fs/cgroup'',
     em_protected = [], em_act = True\<rparr>"

definition sample_emergency :: "hot_report \<times> world" where
  "sample_emergency = run_emergency session_host sample_procfs sample_cgroups (Some sample_plan) em_system FReturn transition_world"

lemma sample_emergency_ran:
  "run_emergency session_host sample_procfs sample_cgroups (Some sample_plan) em_system FReturn transition_world
     = (fst sample_emergency, snd sample_emergency)" "em_act em_system"
  by (simp_all add: sample_emergency_def em_system_def)

lemma sample_side: "side_of session_host (Some sample_plan) transition_world = HiddenSide"
  by code_simp

lemma sample_dispatched: "hr_dispatched (fst sample_emergency) = Some FReturn"
  by code_simp



end
