(* ===== verification/Entry.thy ===== *)
theory Entry
  imports Transition Processes
begin

text \<open>
  Preparing the entry into the hidden root, \<^verbatim>\<open>nails-session/src/session/entry.rs\<close>, with the mounts it makes in
  the next root (\<^verbatim>\<open>nails-teardown/src/whole_root/nextroot.rs\<close>), \<^verbatim>\<open>way_back.rs\<close>, \<^verbatim>\<open>network_state.rs\<close>, \<^verbatim>\<open>systemd.rs\<close>
  and \<^verbatim>\<open>units.rs\<close>.  A step is a function of the world that gives an error or a value; \<open>bnd\<close> is the \<^verbatim>\<open>?\<close> of the
  sources.  What the kernel answers when a path is looked up inside another root is the record
  \<open>kernel_view\<close>; the trait \<^verbatim>\<open>EntryHost\<close> is the record \<open>entry_host\<close>, and its implementation is
  \<open>real_entry_host\<close>, whose runs of nix, and the persona's files, are operations the host may refuse.

  The lemmas show that a failed entry leaves nothing mounted at the next root, that a prepared one has its
  plan armed on disk with every unit of a decoy disk masked or its mount put in place, and that the plan's
  way back is checked before it is armed.
\<close>

section \<open>Definitions\<close>

subsection \<open>Steps that can fail\<close>

datatype session_error =
  NIo path io_error
| NInvalidState bytes
| NPreFlightCheckFailed "(bytes \<times> bytes \<times> bytes option) list"
| NCancelled

type_synonym 'a step = "world \<Rightarrow> (session_error + 'a) \<times> world"

definition ok :: "'a \<Rightarrow> 'a step" where "ok x w = (Inr x, w)"
definition fails :: "session_error \<Rightarrow> 'a step" where "fails e w = (Inl e, w)"

definition bnd :: "'a step \<Rightarrow> ('a \<Rightarrow> 'b step) \<Rightarrow> 'b step" where
  "bnd m f w = (case m w of (Inl e, w1) \<Rightarrow> (Inl e, w1) | (Inr x, w1) \<Rightarrow> f x w1)"

abbreviation seq :: "unit step \<Rightarrow> 'b step \<Rightarrow> 'b step" where
  "seq m n \<equiv> bnd m (\<lambda>_. n)"

text \<open>\<^verbatim>\<open>map_err(|e| io(path, e))\<close> on the operations of the host, and an operation whose result is dropped.\<close>

definition io_at :: "path \<Rightarrow> (world \<Rightarrow> io_error option \<times> world) \<Rightarrow> unit step" where
  "io_at p f w = (case f w of (None, w1) \<Rightarrow> (Inr (), w1) | (Some e, w1) \<Rightarrow> (Inl (NIo p e), w1))"

definition lifted :: "(world \<Rightarrow> 'a \<times> world) \<Rightarrow> 'a step" where
  "lifted f w = (case f w of (x, w1) \<Rightarrow> (Inr x, w1))"

definition effect :: "(world \<Rightarrow> world) \<Rightarrow> unit step" where
  "effect f w = (Inr (), f w)"

subsection \<open>The kernel's answers\<close>

record kernel_view =
  kv_mountinfo :: "op list \<Rightarrow> bytes option"
  kv_noexec :: "op list \<Rightarrow> path \<Rightarrow> io_error + bool"
  kv_real_root :: "op list \<Rightarrow> path \<Rightarrow> io_error + path"
  kv_real :: "op list \<Rightarrow> path \<Rightarrow> path \<Rightarrow> io_error + path"
  kv_read :: "op list \<Rightarrow> path \<Rightarrow> path \<Rightarrow> io_error + bytes"
  kv_space :: "op list \<Rightarrow> path \<Rightarrow> io_error + nat \<times> nat"
  kv_cancelled :: "op list \<Rightarrow> bool"
  kv_net_text :: "network_record \<Rightarrow> bytes"

definition checkpoint :: "kernel_view \<Rightarrow> unit step" where
  "checkpoint kv w = (if kv_cancelled kv (w_log w) then (Inl NCancelled, w) else (Inr (), w))"

subsection \<open>Mounts in the next root\<close>

definition bind_read_only :: "path \<Rightarrow> path \<Rightarrow> world \<Rightarrow> io_error option \<times> world" where
  "bind_read_only source target w =
     (case bind_mount source target w of
        (Some e, w1) \<Rightarrow> (Some e, w1)
      | (None, w1) \<Rightarrow>
          (case act_only (OpRemountReadOnly target) w1 of
             (None, w2) \<Rightarrow> (None, w2)
           | (Some e, w2) \<Rightarrow> (Some e, snd (act_only (OpDetach target) w2))))"

definition bad_layer :: "path list \<Rightarrow> bytes" where
  "bad_layer ps =
     (case find (\<lambda>p. escape_overlay_path p = None) ps of None \<Rightarrow> [] | Some p \<Rightarrow> utf8_lossy p @ '' cannot be an overlay layer'')"

definition mount_overlay :: "path \<Rightarrow> path \<Rightarrow> path \<Rightarrow> path \<Rightarrow> world \<Rightarrow> io_error option \<times> world" where
  "mount_overlay lower upper work target w =
     (case overlay_data lower upper work of
        None \<Rightarrow> (Some (InvalidInput (bad_layer [lower, upper, work])), w)
      | Some data \<Rightarrow> mount_dev ''overlay'' ''overlay'' (Some data) target w)"

definition overlay_over :: "path \<Rightarrow> path \<Rightarrow> path \<Rightarrow> path \<Rightarrow> path \<Rightarrow> world \<Rightarrow> io_error option \<times> world" where
  "overlay_over source helper upper work target w =
     (case create_dir_all helper w of
        (Some e, w1) \<Rightarrow> (Some e, w1)
      | (None, w1) \<Rightarrow>
     (case bind_read_only source helper w1 of
        (Some e, w2) \<Rightarrow> (Some e, w2)
      | (None, w2) \<Rightarrow>
     (case mount_overlay helper upper work target w2 of
        (r, w3) \<Rightarrow> (r, snd (remove_dir helper (snd (act_only (OpDetach helper) w3)))))))"

definition make_private :: "path \<Rightarrow> world \<Rightarrow> io_error option \<times> world" where
  "make_private target w = act_only (OpPrivate target) w"

text \<open>\<^verbatim>\<open>canonical_in_root\<close>: the longest prefix that resolves inside the root, with the rest appended.  A
  component other than a name ends the walk.\<close>

fun canonical_loop :: "kernel_view \<Rightarrow> op list \<Rightarrow> path \<Rightarrow> path \<Rightarrow> path \<Rightarrow> component list \<Rightarrow> bytes list \<Rightarrow> path" where
  "canonical_loop kv l root root_real p [] tail = p"
| "canonical_loop kv l root root_real p (c # cs) tail =
     (case kv_real kv l root (path_of (rev (c # cs))) of
        Inr real \<Rightarrow>
          foldl join (join ''/'' (case path_strip_prefix root_real real of Some rest \<Rightarrow> rest | None \<Rightarrow> real)) tail
      | Inl _ \<Rightarrow> (case c of Normal name \<Rightarrow> canonical_loop kv l root root_real p cs (name # tail) | _ \<Rightarrow> p))"

definition canonical_in_root :: "kernel_view \<Rightarrow> op list \<Rightarrow> path \<Rightarrow> path \<Rightarrow> path" where
  "canonical_in_root kv l root p =
     (if \<not> is_absolute p then p
      else (case kv_real_root kv l root of
              Inl _ \<Rightarrow> p
            | Inr root_real \<Rightarrow> canonical_loop kv l root root_real p (rev (components p)) []))"

text \<open>\<^verbatim>\<open>create_dir_all_in_root\<close>: each missing directory is made below the one opened before it.\<close>

fun create_in_root :: "path \<Rightarrow> path \<Rightarrow> bytes list \<Rightarrow> world \<Rightarrow> io_error option \<times> world" where
  "create_in_root root current [] w = (None, w)"
| "create_in_root root current (name # names) w =
     (let below = join current name in
      case act_only (OpOpenInRoot root below) w of
        (None, w1) \<Rightarrow> create_in_root root below names w1
      | (Some NotFound, w1) \<Rightarrow>
          (case act_only (OpMkdirAt root below) w1 of
             (Some e, w2) \<Rightarrow> (Some e, w2)
           | (None, w2) \<Rightarrow>
               (case act_only (OpOpenInRoot root below) w2 of
                  (Some e, w3) \<Rightarrow> (Some e, w3)
                | (None, w3) \<Rightarrow> create_in_root root below names w3))
      | (Some e, w1) \<Rightarrow> (Some e, w1))"

definition plain_names :: "path \<Rightarrow> bytes list option" where
  "plain_names p =
     (if \<forall>c\<in>set (components p). (case c of RootDir \<Rightarrow> True | Normal _ \<Rightarrow> True | _ \<Rightarrow> False)
      then Some (filter_map (\<lambda>c. case c of Normal n \<Rightarrow> Some n | _ \<Rightarrow> None) (components p)) else None)"

definition create_dir_all_in_root :: "path \<Rightarrow> path \<Rightarrow> world \<Rightarrow> io_error option \<times> world" where
  "create_dir_all_in_root root p w =
     (case plain_names p of
        None \<Rightarrow> (Some (InvalidInput (''not a plain path: '' @ utf8_lossy p)), w)
      | Some names \<Rightarrow>
          (case act_only (OpOpenInRoot root ''/'') w of
             (Some e, w1) \<Rightarrow> (Some e, w1)
           | (None, w1) \<Rightarrow> create_in_root root ''/'' names w1))"

definition real_in_root :: "kernel_view \<Rightarrow> path \<Rightarrow> path \<Rightarrow> path \<Rightarrow> path step" where
  "real_in_root kv shown root p w =
     (case kv_real kv (w_log w) root p of Inl e \<Rightarrow> (Inl (NIo shown e), w) | Inr q \<Rightarrow> (Inr q, w))"

definition target_in_nextroot :: "kernel_view \<Rightarrow> sys_paths \<Rightarrow> path \<Rightarrow> path step" where
  "target_in_nextroot kv ps target =
     (let nextroot = paths_nextroot ps; shown = in_nextroot ps target in
      seq (io_at shown (create_dir_all_in_root nextroot target))
     (bnd (real_in_root kv shown nextroot target) (\<lambda>real.
      seq (io_at nextroot (act_only (OpOpenInRoot nextroot ''/'')))
     (bnd (real_in_root kv nextroot nextroot ''/'') (\<lambda>root.
      if \<not> path_starts_with real root
      then fails (NInvalidState (utf8_lossy shown @ '' resolves to '' @ utf8_lossy real @ '', outside the next root''))
      else ok real)))))"

subsection \<open>The units of a root\<close>

definition SOFT_REBOOT_UNITS :: "bytes list" where
  "SOFT_REBOOT_UNITS = [''soft-reboot.target'', ''systemd-soft-reboot.service'']"

definition UNIT_DIRS :: "path list" where
  "UNIT_DIRS = [''etc/systemd/system'', ''run/systemd/system'', ''usr/lib/systemd/system'', ''lib/systemd/system'']"

definition unit_in_root :: "path \<Rightarrow> bytes \<Rightarrow> world \<Rightarrow> bool \<times> world" where
  "unit_in_root root unit w = any_in_root root (map (\<lambda>dir. join (join ''/'' dir) unit) UNIT_DIRS) w"

fun units_in_root :: "path \<Rightarrow> bytes list \<Rightarrow> world \<Rightarrow> bytes list \<times> world" where
  "units_in_root root [] w = ([], w)"
| "units_in_root root (u # us) w =
     (case unit_in_root root u w of
        (b, w1) \<Rightarrow> (case units_in_root root us w1 of (out, w2) \<Rightarrow> (if b then u # out else out, w2)))"

definition missing_soft_reboot_units :: "path \<Rightarrow> world \<Rightarrow> bytes list \<times> world" where
  "missing_soft_reboot_units root w =
     (case units_in_root root SOFT_REBOOT_UNITS w of (here, w1) \<Rightarrow> (filter (\<lambda>u. u \<notin> set here) SOFT_REBOOT_UNITS, w1))"

text \<open>The session's own units, \<^verbatim>\<open>units.rs\<close>: \<open>watch\<close> and \<open>guard\<close> are what the configuration asks for.\<close>

definition WATCH_UNIT :: bytes where "WATCH_UNIT = ''overlay-runtime-monitor.service''"
definition SLEEP_GUARD_UNIT_NAME :: bytes where "SLEEP_GUARD_UNIT_NAME = ''overlay-runtime-power''"

definition session_unit :: "bytes \<Rightarrow> bytes \<Rightarrow> bytes \<Rightarrow> runtime_unit" where
  "session_unit name description argument =
     \<lparr>ru_name = name,
      ru_content = ''[Unit]'' @ [newline] @ ''Description='' @ description @ [newline, newline] @ ''[Service]'' @ [newline]
        @ ''ExecStart='' @ utf8_lossy (join RUNTIME_DIR BINARY_NAME) @ '' '' @ argument @ [newline]
        @ ''Restart=no'' @ [newline] @ ''StandardOutput=null'' @ [newline] @ ''StandardError=null'' @ [newline]
        @ ''LimitCORE=0'' @ [newline],
      ru_wanted_by = [''multi-user.target'']\<rparr>"

definition session_units :: "bool \<Rightarrow> bool \<Rightarrow> runtime_unit list" where
  "session_units watch guards =
     (if watch then [session_unit WATCH_UNIT ''Overlay runtime monitor'' ''watch''] else [])
     @ (if guards then [session_unit (SLEEP_GUARD_UNIT_NAME @ ''.service'') ''Overlay runtime power policy'' ''sleep-guard''] else [])"

subsection \<open>The host of an entry\<close>

record entry_host =
  eh_reload :: "unit step"
  eh_build :: "bytes \<Rightarrow> path \<Rightarrow> path \<Rightarrow> path step"
  eh_keep :: "path \<Rightarrow> path \<Rightarrow> path \<Rightarrow> unit step"
  eh_activate :: "path \<Rightarrow> path \<Rightarrow> unit step"
  eh_stop_commands :: "bytes \<Rightarrow> bytes step"
  eh_failed :: "world \<Rightarrow> bytes list \<times> world"
  eh_settings :: "world \<Rightarrow> kernel_setting list \<times> world"

definition with_systemctl :: "host \<Rightarrow> (path \<Rightarrow> 'a step) \<Rightarrow> 'a step" where
  "with_systemctl h f =
     (case find_tool h None ''systemctl'' of None \<Rightarrow> fails (NInvalidState ''systemctl not found'') | Some s \<Rightarrow> f s)"

definition host_run :: "bytes list \<Rightarrow> bytes step" where
  "host_run args w =
     (case act_only (OpHost args) w of
        (Some e, w1) \<Rightarrow> (Inl (NInvalidState (show_io_error e)), w1)
      | (None, w1) \<Rightarrow> (Inr (w_reply w1 (w_log w1)), w1))"

definition real_entry_host :: "host \<Rightarrow> entry_host" where
  "real_entry_host h =
     \<lparr>eh_reload = with_systemctl h (\<lambda>s w. case daemon_reload s w of
          (True, w1) \<Rightarrow> (Inr (), w1)
        | (False, w1) \<Rightarrow> (Inl (NInvalidState ''systemctl daemon-reload failed''), w1)),
      eh_build = (\<lambda>builder store_root cache. host_run [''build'', builder, store_root, cache]),
      eh_keep = (\<lambda>store_root system rec. bnd (host_run [''keep'', store_root, system, rec]) (\<lambda>_. ok ())),
      eh_activate = (\<lambda>root system. bnd (host_run [''activate'', root, system]) (\<lambda>_. ok ())),
      eh_stop_commands = (\<lambda>unit. with_systemctl h (\<lambda>s w.
        case run_output s [''show'', ''--property=ExecStop'', ''--value'', unit] w of
          (Some out, w1) \<Rightarrow> (Inr out, w1)
        | (None, w1) \<Rightarrow> (Inl (NInvalidState (''systemctl show '' @ unit @ '' failed'')), w1))),
      eh_failed = (\<lambda>w. case find_tool h None ''systemctl'' of
          None \<Rightarrow> ([], w)
        | Some s \<Rightarrow> (case failed_units s w of (us, w1) \<Rightarrow> (case us of None \<Rightarrow> [] | Some out \<Rightarrow> out, w1))),
      eh_settings = read_settings HELPER_PATHS\<rparr>"

subsection \<open>What an entry is built from\<close>

record entry_inputs =
  in_volume :: path
  in_decoy_root :: decoy_root
  in_nixos :: bool
  in_builder :: "bytes option"
  in_binary :: path
  in_config_toml :: "bytes option"
  in_session_units :: "runtime_unit list"
  in_backend :: "bytes list"
  in_fresh_home :: bool
  in_operator_home :: "path option"
  in_rebuild_space_mb :: nat
  in_read_only_disks :: bool
  in_accepted_decoy_storage :: "bytes option"

record entry =
  en_plan :: plan
  en_decisions :: "decision list"
  en_warnings :: "bytes list"

definition mount_subvol :: "mount_entry \<Rightarrow> bytes option" where
  "mount_subvol m = find_map (strip_prefix ''subvol='') (split_on (CHR '','') (super_opts m) @ split_on (CHR '','') (mount_opts m))"

definition decoy_root_of :: "mount_entry list \<Rightarrow> path \<Rightarrow> session_error + decoy_root" where
  "decoy_root_of es root =
     (case top_mount_at es root of
        None \<Rightarrow> Inl (NInvalidState ''the root is not a mount point'')
      | Some m \<Rightarrow>
          if \<not> path_starts_with (m_source m) ''/dev/''
          then Inl (NInvalidState (''the decoy root ('' @ m_fstype m @ '' on '' @ utf8_lossy (m_source m)
                 @ '') is not on a block device; a RAM or overlay root cannot be mounted again for the way back''))
          else if m_fstype m \<in> {''zfs'', ''overlay'', ''tmpfs'', ''squashfs'', ''erofs''}
          then Inl (NInvalidState (''a '' @ m_fstype m @ '' decoy root is not supported by the whole-root session''))
          else if path_eq (m_root m) ''/''
          then Inr \<lparr>dr_source = m_source m, dr_fstype = m_fstype m, dr_data = None\<rparr>
          else if m_fstype m = ''btrfs'' \<and> mount_subvol m = Some (utf8_lossy (m_root m))
          then Inr \<lparr>dr_source = m_source m, dr_fstype = m_fstype m, dr_data = Some (''subvol='' @ utf8_lossy (m_root m))\<rparr>
          else Inl (NInvalidState (''the decoy root is a bind of '' @ utf8_lossy (m_root m) @ '' on '' @ utf8_lossy (m_source m))))"

subsection \<open>Layers and inits\<close>

definition match_attributes :: "path \<Rightarrow> path \<Rightarrow> unit step" where
  "match_attributes dir like =
     seq (io_at like (act_only (OpStat like)))
    (seq (io_at dir (\<lambda>w. act_only (OpChmod dir (and (w_mode w (w_log w)) 0xFFF)) w))
         (io_at dir (act_only (OpChown dir like))))"

definition make_layer :: "path \<Rightarrow> path \<Rightarrow> path \<Rightarrow> unit step" where
  "make_layer upper work like =
     seq (io_at upper (create_dir_all upper))
    (seq (io_at work (create_dir_all work))
    (seq (io_at work (act_only (OpChmod work 0x1C0)))
         (match_attributes upper like)))"

definition FHS_INITS :: "path list" where
  "FHS_INITS = [''/usr/lib/systemd/systemd'', ''/lib/systemd/systemd'']"

fun first_init :: "path \<Rightarrow> path list \<Rightarrow> world \<Rightarrow> path option \<times> world" where
  "first_init root [] w = (None, w)"
| "first_init root (i # is) w =
     (case precheck root i w of (None, w1) \<Rightarrow> (Some i, w1) | (Some _, w1) \<Rightarrow> first_init root is w1)"

definition fhs_init :: "path \<Rightarrow> world \<Rightarrow> path \<times> world" where
  "fhs_init root w =
     (case first_init root FHS_INITS w of (r, w1) \<Rightarrow> (case r of None \<Rightarrow> ''/usr/lib/systemd/systemd'' | Some i \<Rightarrow> i, w1))"

definition NIXOS_INIT :: path where "NIXOS_INIT = ''/run/current-system/systemd/lib/systemd/systemd''"

definition decoy_system :: "host \<Rightarrow> path \<Rightarrow> path option" where
  "decoy_system h run =
     (case h_canonicalize h (join run ''current-system'') of
        None \<Rightarrow> None
      | Some p \<Rightarrow> if path_starts_with p ''/nix/store'' then Some p else None)"

definition kernel_of :: "path \<Rightarrow> path \<Rightarrow> world \<Rightarrow> path option \<times> world" where
  "kernel_of store_root system w =
     (case read_link (join (below_root store_root system) ''kernel'') w of
        (Inl _, w1) \<Rightarrow> (None, w1)
      | (Inr p, w1) \<Rightarrow> (Some p, w1))"

subsection \<open>Undoing an entry\<close>

definition rollback :: "host \<Rightarrow> sys_paths \<Rightarrow> world \<Rightarrow> path list \<times> world" where
  "rollback h ps w =
     (let (content, w1) = read_to_string (paths_plan ps) w;
          plan = (case load_plan (h_plan_version h) (h_plan_reader h) content of Inl _ \<Rightarrow> None | Inr p \<Rightarrow> Some p);
          (saved, w2) = load_snapshot (join (paths_runtime ps) SNAPSHOT_NAME) w1;
          kept = kept_of saved;
          (remaining, w3) = detach_tree (paths_nextroot ps) w2;
          w4 = snd (remove_dropin (paths_run ps) kept w3);
          w5 = (case plan of
                  None \<Rightarrow> w4
                | Some p \<Rightarrow> restore_settings (p_kernel_settings p)
                              (snd (remove_masks (paths_run ps) (p_masks p) (p_boot_masks p) kept w4)));
          w6 = remove_runtime_dir (paths_runtime ps) w5
      in (remaining, if is_some_and plan p_run_noexec then set_noexec (paths_run ps) True w6 else w6))"

subsection \<open>The runtime directory and the plan\<close>

definition record_network :: "kernel_view \<Rightarrow> host \<Rightarrow> path \<Rightarrow> path \<Rightarrow> world \<Rightarrow> world" where
  "record_network kv h run out w =
     (case capture (h_net h) SYS_CLASS_NET PROC_HOSTNAME ''/etc/hostname'' run w of
        (r, w1) \<Rightarrow>
          (case write_atomic out (kv_net_text kv r) w1 of
             (None, w2) \<Rightarrow> w2
           | (Some _, w2) \<Rightarrow> snd (remove_file out w2)))"

fun write_each :: "path \<Rightarrow> (bytes \<times> bytes) list \<Rightarrow> unit step" where
  "write_each dir [] = ok ()"
| "write_each dir ((name, b) # fs) = seq (io_at (join dir name) (write_atomic (join dir name) b)) (write_each dir fs)"

definition copy_file :: "path \<Rightarrow> path \<Rightarrow> world \<Rightarrow> io_error option \<times> world" where
  "copy_file source target w =
     (case read_file source w of (Inl e, w1) \<Rightarrow> (Some e, w1) | (Inr b, w1) \<Rightarrow> rewrite_file True target b w1)"

definition read_or_empty :: "path \<Rightarrow> world \<Rightarrow> bytes \<times> world" where
  "read_or_empty p w = (case read_file p w of (Inl _, w1) \<Rightarrow> ([], w1) | (Inr b, w1) \<Rightarrow> (b, w1))"

definition CONFIG_COPY_NAME :: bytes where "CONFIG_COPY_NAME = ''settings.toml''"

definition write_runtime :: "kernel_view \<Rightarrow> host \<Rightarrow> sys_paths \<Rightarrow> entry_inputs \<Rightarrow> snapshot \<Rightarrow> unit step" where
  "write_runtime kv h ps i snap =
     (let runtime = paths_runtime ps in
      seq (io_at runtime (create_dir_all runtime))
     (seq (io_at runtime (act_only (OpChmod runtime 0x1C0)))
     (bnd (lifted (read_or_empty (join (paths_run ps) UTAB))) (\<lambda>saved.
      bnd (lifted (\<lambda>w. (case kv_mountinfo kv (w_log w) of None \<Rightarrow> [] | Some text \<Rightarrow> text, w))) (\<lambda>info.
      seq (write_each runtime
             [(SNAPSHOT_NAME, to_text snap), (UTAB_NAME, saved), (UTAB_MOUNTS_NAME, named_mounts saved info)])
     (seq (effect (record_network kv h (paths_run ps) (join runtime NET_RECORD_NAME)))
     (seq (io_at (binary_copy ps) (copy_file (in_binary i) (binary_copy ps)))
     (seq (io_at (binary_copy ps) (act_only (OpChmod (binary_copy ps) 0x1C0)))
          (case in_config_toml i of
             None \<Rightarrow> ok ()
           | Some toml \<Rightarrow> write_each runtime [(CONFIG_COPY_NAME, toml)])))))))))"

definition owner_of :: "host \<Rightarrow> procfs \<Rightarrow> op list \<Rightarrow> plan_owner option" where
  "owner_of h pf l =
     map_option (\<lambda>s. \<lparr>owner_pid = h_pid h, owner_start = st_start s\<rparr>) (stat_of pf l (of_nat (h_pid h)))"

definition skeleton :: "host \<Rightarrow> procfs \<Rightarrow> sys_paths \<Rightarrow> entry_inputs \<Rightarrow> layout \<Rightarrow> world \<Rightarrow> plan \<times> world" where
  "skeleton h pf ps i l w =
     (let owner = owner_of h pf (w_log w);
          (decoy, w1) = (if in_nixos i then (\<lparr>rs_init = NIXOS_INIT, rs_system = decoy_system h (paths_run ps)\<rparr>, w)
                         else (case fhs_init (paths_root ps) w of (p, w1) \<Rightarrow> (\<lparr>rs_init = p, rs_system = None\<rparr>, w1)))
      in (\<lparr>p_version = PLAN_VERSION, p_hidden_root = in_volume i, p_hidden_dev = None,
           p_accepted_decoy_storage = in_accepted_decoy_storage i, p_upper = layout_upper l, p_work = layout_work l,
           p_owner = owner, p_decoy_root = in_decoy_root i, p_decoy = decoy, p_hidden = decoy,
           p_policy_mounts = [], p_masks = [], p_boot_masks = [], p_session_units = in_session_units i,
           p_backend = in_backend i,
           p_tools = \<lparr>tool_systemctl = Option.bind (find_tool h None ''systemctl'') (h_canonicalize h),
                      tool_dmsetup = Option.bind (find_tool h None ''dmsetup'') (h_canonicalize h)\<rparr>,
           p_armed = None, p_entered_at = None, p_run_noexec = False, p_carried = [], p_decoy_mounts = [],
           p_read_only_disks = in_read_only_disks i, p_failed_at_entry = [], p_kernel_settings = []\<rparr>, w1))"

definition hidden_dev :: "host \<Rightarrow> mount_entry list \<Rightarrow> path \<Rightarrow> bytes option" where
  "hidden_dev h mounts hidden_root = map_option m_dev (top_mount_at mounts (canonical_at h hidden_root))"

definition run_is_noexec :: "kernel_view \<Rightarrow> mount_entry list \<Rightarrow> path \<Rightarrow> op list \<Rightarrow> bool" where
  "run_is_noexec kv mounts run l \<longleftrightarrow>
     is_mount_point mounts run \<and> (case kv_noexec kv l run of Inl _ \<Rightarrow> False | Inr b \<Rightarrow> b)"

definition build_runtime ::
    "kernel_view \<Rightarrow> host \<Rightarrow> procfs \<Rightarrow> entry_host \<Rightarrow> sys_paths \<Rightarrow> entry_inputs \<Rightarrow> mount_entry list \<Rightarrow> plan step" where
  "build_runtime kv h pf eh ps i mounts =
     bnd (lifted (take_snapshot (paths_run ps))) (\<lambda>snap.
     seq (write_runtime kv h ps i snap)
    (bnd (lifted (skeleton h pf ps i \<lparr>hidden_root_of = in_volume i\<rparr>)) (\<lambda>p.
     bnd (lifted (eh_failed eh)) (\<lambda>failed.
     bnd (lifted (eh_settings eh)) (\<lambda>settings.
     bnd (lifted (\<lambda>w. (run_is_noexec kv mounts (paths_run ps) (w_log w), w))) (\<lambda>noexec.
       let p1 = p\<lparr>p_hidden_dev := hidden_dev h mounts (in_volume i), p_failed_at_entry := failed,
                 p_kernel_settings := settings, p_run_noexec := noexec\<rparr> in
       seq (io_at (paths_plan ps) (write_plan h p1 (paths_plan ps)))
      (seq (if noexec then io_at (paths_run ps) (act_only (OpSetNoexec (paths_run ps) False)) else ok ())
           (ok p1))))))))"

fun check_stop_guards :: "entry_host \<Rightarrow> bytes list \<Rightarrow> unit step" where
  "check_stop_guards eh [] = ok ()"
| "check_stop_guards eh (unit # units) =
     bnd (eh_stop_commands eh unit) (\<lambda>stop.
       if trim stop \<noteq> []
       then fails (NPreFlightCheckFailed
         [(''stop-guard'', unit @ '' would still run a stop command during the switch ('' @ trim stop
             @ ''): a drop-in that sorts after /run/systemd/system/'' @ unit @ ''.d/'' @ STOP_GUARD_NAME
             @ '' sets ExecStop= again, and that stop undoes what the switch needs'',
           Some (''Remove the ExecStop= from that drop-in (`systemctl cat '' @ unit @ ''` shows where it is) and activate again''))])
       else check_stop_guards eh units)"

definition dropin_binary :: "sys_paths \<Rightarrow> path" where
  "dropin_binary ps = (if is_system ps then binary_copy ps else join RUNTIME_DIR BINARY_NAME)"

definition guards_hold :: "entry_host \<Rightarrow> unit step" where
  "guards_hold eh = seq (eh_reload eh) (check_stop_guards eh (filter (\<lambda>u. \<not> is_unit_prefix u) STOP_GUARDED_UNITS))"

subsection \<open>The root overlay and the fstab policy\<close>

definition relative_mounts :: "mount_entry list \<Rightarrow> path \<Rightarrow> mount_entry list" where
  "relative_mounts mounts root =
     filter_map (\<lambda>m. map_option (\<lambda>rest. m\<lparr>mount_point := join ''/'' rest\<rparr>) (path_strip_prefix root (mount_point m))) mounts"

definition home_upper :: "layout \<Rightarrow> mount_entry list \<Rightarrow> path \<Rightarrow> path" where
  "home_upper l mounts home =
     (let mnt = (case max_by_key (\<lambda>m. length (components (mount_point m)))
                        (filter (\<lambda>m. path_starts_with home (mount_point m)) mounts) of
                   None \<Rightarrow> ''/'' | Some m \<Rightarrow> mount_point m)
      in if path_eq mnt ''/'' then in_upper l home
         else join (fst (mount_layers l mnt)) (case path_strip_prefix mnt home of None \<Rightarrow> home | Some rest \<Rightarrow> rest))"

definition fresh_home :: "kernel_view \<Rightarrow> sys_paths \<Rightarrow> entry_inputs \<Rightarrow> layout \<Rightarrow> mount_entry list \<Rightarrow> unit step" where
  "fresh_home kv ps i l mounts =
     (case in_operator_home i of
        None \<Rightarrow> fails (NInvalidState ''persona mode fresh-home needs the operator (run through sudo)'')
      | Some passwd_home \<Rightarrow> (\<lambda>w.
          let home = canonical_in_root kv (w_log w) (paths_root ps) passwd_home in
          bnd (host_run [''fresh-home'', home_upper l mounts home, paths_decoy ps home]) (\<lambda>_. ok ()) w))"

definition build_root :: "kernel_view \<Rightarrow> sys_paths \<Rightarrow> entry_inputs \<Rightarrow> layout \<Rightarrow> mount_entry list \<Rightarrow> unit step" where
  "build_root kv ps i l mounts =
     seq (if in_fresh_home i then fresh_home kv ps i l mounts else ok ())
    (seq (make_layer (layout_upper l) (layout_work l) (paths_root ps))
    (seq (io_at (paths_nextroot ps) (create_dir_all (paths_nextroot ps)))
         (io_at (paths_nextroot ps)
            (overlay_over (paths_root ps) (join (paths_runtime ps) ''lower'') (layout_upper l) (layout_work l) (paths_nextroot ps)))))"

definition read_fstab :: "kernel_view \<Rightarrow> path \<Rightarrow> bytes step" where
  "read_fstab kv root w =
     (case kv_read kv (w_log w) root ''/etc/fstab'' of
        Inr b \<Rightarrow> (Inr b, w)
      | Inl NotFound \<Rightarrow> (Inr [], w)
      | Inl e \<Rightarrow> (Inl (NIo (join root ''etc/fstab'') e), w))"

definition resolved_entry :: "kernel_view \<Rightarrow> op list \<Rightarrow> path \<Rightarrow> fstab_entry \<Rightarrow> fstab_entry" where
  "resolved_entry kv l root e =
     (if is_absolute (fs_file e) then e\<lparr>fs_file := canonical_in_root kv l root (fs_file e)\<rparr> else e)"

definition resolved_fstab :: "kernel_view \<Rightarrow> op list \<Rightarrow> path \<Rightarrow> bytes \<Rightarrow> fstab_entry list" where
  "resolved_fstab kv l root b = map (resolved_entry kv l root) (parse_fstab (utf8_lossy b))"

definition is_refuse :: "decision \<Rightarrow> bool" where
  "is_refuse d = (case d of Refuse _ _ \<Rightarrow> True | _ \<Rightarrow> False)"

definition decide_fstab :: "kernel_view \<Rightarrow> bytes \<Rightarrow> mount_entry list \<Rightarrow> path \<Rightarrow> path \<Rightarrow> decision list step" where
  "decide_fstab kv b mounts hidden_root root w =
     (let ds = decide_all (resolved_fstab kv (w_log w) root b) mounts hidden_root in
      case find is_refuse ds of
        Some (Refuse target reason) \<Rightarrow> (Inl (NInvalidState (''fstab entry '' @ utf8_lossy target @ '': '' @ reason)), w)
      | _ \<Rightarrow> (Inr ds, w))"

definition placed_by :: "decision \<Rightarrow> policy_mount option" where
  "placed_by d =
     (case d of
        ReadOnlyBind t \<Rightarrow> Some \<lparr>pm_target = t, pm_kind = KindReadOnlyBind\<rparr>
      | Overlay t \<Rightarrow> Some \<lparr>pm_target = t, pm_kind = KindOverlay\<rparr>
      | _ \<Rightarrow> None)"

definition wanted_mounts :: "decision list \<Rightarrow> path \<Rightarrow> path list \<Rightarrow> policy_mount list" where
  "wanted_mounts ds hidden_root made =
     sort_key (\<lambda>m. length (components (pm_target m)))
       (filter (\<lambda>m. \<not> (\<exists>t\<in>set made. path_eq t (pm_target m)))
         (filter_map placed_by ds @ [\<lparr>pm_target = hidden_root, pm_kind = KindHiddenVolume\<rparr>]))"

definition place_mount :: "kernel_view \<Rightarrow> sys_paths \<Rightarrow> layout \<Rightarrow> nat \<Rightarrow> policy_mount \<Rightarrow> unit step" where
  "place_mount kv ps l index m =
     (let source = (if pm_kind m = KindHiddenVolume then pm_target m else paths_decoy ps (pm_target m)) in
      bnd (target_in_nextroot kv ps (pm_target m)) (\<lambda>target.
        case pm_kind m of
          KindReadOnlyBind \<Rightarrow> io_at target (bind_read_only source target)
        | KindHiddenVolume \<Rightarrow> io_at target (bind_mount source target)
        | KindOverlay \<Rightarrow>
            (let (upper, work) = mount_layers l (pm_target m) in
             seq (make_layer upper work source)
            (seq (io_at target (overlay_over source (join (paths_runtime ps) (''lower-'' @ show_nat index)) upper work target))
                 (io_at target (make_private target))))))"

fun place_all :: "kernel_view \<Rightarrow> sys_paths \<Rightarrow> layout \<Rightarrow> nat \<Rightarrow> policy_mount list \<Rightarrow> unit step" where
  "place_all kv ps l index [] = ok ()"
| "place_all kv ps l index (m # ms) = seq (place_mount kv ps l index m) (place_all kv ps l (Suc index) ms)"

definition apply_mounts :: "kernel_view \<Rightarrow> sys_paths \<Rightarrow> layout \<Rightarrow> decision list \<Rightarrow> path \<Rightarrow> path list \<Rightarrow> policy_mount list step" where
  "apply_mounts kv ps l ds hidden_root made =
     (let wanted = wanted_mounts ds hidden_root made in
      seq (place_all kv ps l (length made) wanted) (ok wanted))"

text \<open>The plan as it grows, with every fstab entry the hidden systemd may read.\<close>

record building =
  bg_plan :: plan
  bg_fstab :: "fstab_entry list"
  bg_decisions :: "decision list"
  bg_warnings :: "bytes list"

definition build_policy :: "kernel_view \<Rightarrow> sys_paths \<Rightarrow> entry_inputs \<Rightarrow> layout \<Rightarrow> mount_entry list \<Rightarrow> plan \<Rightarrow> building step" where
  "build_policy kv ps i l mounts p =
     bnd (read_fstab kv (paths_root ps)) (\<lambda>b.
     bnd (decide_fstab kv b mounts (in_volume i) (paths_root ps)) (\<lambda>ds.
     bnd (apply_mounts kv ps l ds (in_volume i) []) (\<lambda>placed.
       ok \<lparr>bg_plan = p\<lparr>p_policy_mounts := placed\<rparr>, bg_fstab = parse_fstab (utf8_lossy b), bg_decisions = ds, bg_warnings = []\<rparr>)))"

subsection \<open>The hidden system\<close>

definition ensure_build_space :: "kernel_view \<Rightarrow> path \<Rightarrow> nat \<Rightarrow> unit step" where
  "ensure_build_space kv upper floor_mb w =
     (case kv_space kv (w_log w) upper of
        Inl e \<Rightarrow> (Inl (NIo upper e), w)
      | Inr (blocks, frsize) \<Rightarrow>
          (let available_mb = min (blocks * frsize) (2 ^ 64 - 1) div (1024 * 1024) in
           if available_mb < floor_mb
           then (Inl (NInvalidState (''the hidden volume has '' @ show_nat available_mb
                  @ '' MB free; the hidden NixOS build needs '' @ show_nat floor_mb @ '' MB (rebuild_space_mb)'')), w)
           else (Inr (), w)))"

definition kernel_warning :: bytes where
  "kernel_warning = ''the hidden NixOS system was built for another kernel; kernel modules come from the running (decoy) kernel''"

definition kernel_warnings :: "path \<Rightarrow> path \<Rightarrow> path option \<Rightarrow> world \<Rightarrow> bytes list \<times> world" where
  "kernel_warnings nextroot system decoy w =
     (case decoy of
        None \<Rightarrow> ([], w)
      | Some d \<Rightarrow>
          (case kernel_of nextroot system w of (k1, w1) \<Rightarrow>
          (case kernel_of nextroot d w1 of (k2, w2) \<Rightarrow> (if k1 \<noteq> k2 then [kernel_warning] else [], w2))))"

text \<open>Two decisions are the same one when they are of one kind, at one path, with the same text.\<close>

fun same_decision :: "decision \<Rightarrow> decision \<Rightarrow> bool" where
  "same_decision (ReadOnlyBind s) (ReadOnlyBind t) = path_eq s t"
| "same_decision (Overlay s) (Overlay t) = path_eq s t"
| "same_decision (Mask s us r) (Mask t vs q) = (path_eq s t \<and> us = vs \<and> r = q)"
| "same_decision (Leave s r) (Leave t q) = (path_eq s t \<and> r = q)"
| "same_decision (Refuse s r) (Refuse t q) = (path_eq s t \<and> r = q)"
| "same_decision _ _ = False"

definition merge_decisions :: "decision list \<Rightarrow> decision list \<Rightarrow> decision list" where
  "merge_decisions ds hidden =
     foldl (\<lambda>acc d. if \<exists>x\<in>set acc. same_decision x d then acc else acc @ [d]) ds hidden"

definition build_system ::
    "kernel_view \<Rightarrow> entry_host \<Rightarrow> sys_paths \<Rightarrow> entry_inputs \<Rightarrow> layout \<Rightarrow> mount_entry list \<Rightarrow> bytes \<Rightarrow> building \<Rightarrow> building step" where
  "build_system kv eh ps i l mounts builder bg =
     (let nextroot = paths_nextroot ps; p = bg_plan bg in
      seq (ensure_build_space kv (layout_upper l) (in_rebuild_space_mb i))
     (bnd (eh_build eh builder nextroot (layout_cache l)) (\<lambda>system.
      seq (checkpoint kv)
     (seq (eh_keep eh nextroot system (store_kept l))
     (seq (checkpoint kv)
     (seq (eh_activate eh nextroot system)
     (seq (checkpoint kv)
     (bnd (lifted (kernel_warnings nextroot system (rs_system (p_decoy p)))) (\<lambda>ws.
      bnd (read_fstab kv nextroot) (\<lambda>b.
      bnd (decide_fstab kv b mounts (in_volume i) nextroot) (\<lambda>hidden.
      bnd (apply_mounts kv ps l hidden (in_volume i) (map pm_target (p_policy_mounts p))) (\<lambda>added.
        ok \<lparr>bg_plan = p\<lparr>p_hidden := \<lparr>rs_init = NIXOS_INIT, rs_system = Some system\<rparr>,
                       p_policy_mounts := p_policy_mounts p @ added\<rparr>,
            bg_fstab = bg_fstab bg @ parse_fstab (utf8_lossy b),
            bg_decisions = merge_decisions (bg_decisions bg) hidden,
            bg_warnings = bg_warnings bg @ ws\<rparr>))))))))))))"

definition build_hidden ::
    "kernel_view \<Rightarrow> entry_host \<Rightarrow> sys_paths \<Rightarrow> entry_inputs \<Rightarrow> layout \<Rightarrow> mount_entry list \<Rightarrow> building \<Rightarrow> building step" where
  "build_hidden kv eh ps i l mounts bg =
     (case in_builder i of
        Some builder \<Rightarrow> build_system kv eh ps i l mounts builder bg
      | None \<Rightarrow>
          if in_nixos i then ok bg
          else bnd (lifted (fhs_init (paths_nextroot ps))) (\<lambda>init.
                 ok (bg\<lparr>bg_plan := (bg_plan bg)\<lparr>p_hidden := (p_hidden (bg_plan bg))\<lparr>rs_init := init\<rparr>\<rparr>\<rparr>)))"

subsection \<open>Masks, the way back and the armed plan\<close>

definition write_persona_masks :: "sys_paths \<Rightarrow> entry_inputs \<Rightarrow> world \<Rightarrow> world" where
  "write_persona_masks ps i w =
     (case in_operator_home i of
        None \<Rightarrow> w
      | Some home \<Rightarrow> snd (act_only (OpHost [''persona-masks'', paths_nextroot ps, home]) w))"

definition build_masks :: "sys_paths \<Rightarrow> entry_inputs \<Rightarrow> building \<Rightarrow> building step" where
  "build_masks ps i bg =
     (let ms = masks (bg_fstab bg) (bg_decisions bg) in
      bnd (lifted (units_in_root (paths_nextroot ps) BOOT_WRITER_UNITS)) (\<lambda>boot.
      seq (effect (write_persona_masks ps i))
          (ok (bg\<lparr>bg_plan := (bg_plan bg)\<lparr>p_masks := ms, p_boot_masks := filter (\<lambda>u. u \<notin> set ms) boot\<rparr>\<rparr>))))"

definition carry :: "path \<Rightarrow> path \<Rightarrow> path \<Rightarrow> world \<Rightarrow> io_error option \<times> world" where
  "carry source at_real at_in_nextroot w =
     (case create_dir_all at_real w of
        (Some e, w1) \<Rightarrow> (Some e, w1)
      | (None, w1) \<Rightarrow> bind_read_only source at_in_nextroot w1)"

definition carry_one :: "kernel_view \<Rightarrow> host \<Rightarrow> sys_paths \<Rightarrow> layout \<Rightarrow> mount_entry list \<Rightarrow> path \<Rightarrow> carried_mount step" where
  "carry_one kv h ps l mounts target =
     (let at = layout_carried l target in
      bnd (target_in_nextroot kv ps at) (\<lambda>place.
      seq (io_at place (carry (paths_decoy ps target) at place))
          (\<lambda>w. case h_live h (w_log w) of
             Inl e \<Rightarrow> (Inl (NIo ''/proc/self/mountinfo'' e), w)
           | Inr live \<Rightarrow>
               (let held = top_mount_at live place in
                (Inr \<lparr>cm_target = target, cm_at = at,
                      cm_read_only = is_some_and (top_mount_at mounts target) read_only,
                      cm_dev = map_option m_dev held, cm_root = map_option m_root held\<rparr>, w)))))"

fun carry_all :: "kernel_view \<Rightarrow> host \<Rightarrow> sys_paths \<Rightarrow> layout \<Rightarrow> mount_entry list \<Rightarrow> path list \<Rightarrow> carried_mount list step" where
  "carry_all kv h ps l mounts [] = ok []"
| "carry_all kv h ps l mounts (t # ts) =
     bnd (carry_one kv h ps l mounts t) (\<lambda>c. bnd (carry_all kv h ps l mounts ts) (\<lambda>cs. ok (c # cs)))"

text \<open>\<^verbatim>\<open>way_back::keep\<close> with its effects: the targets are carried, then the copy of \<^verbatim>\<open>utab\<close> is read and the rest
  is the computation \<^const>\<open>keep\<close>.\<close>

definition keep_step ::
    "kernel_view \<Rightarrow> host \<Rightarrow> sys_paths \<Rightarrow> layout \<Rightarrow> fstab_entry list \<Rightarrow> mount_entry list \<Rightarrow> plan \<Rightarrow> (bytes list \<times> plan) step" where
  "keep_step kv h ps l fstab mounts p =
     (let canonical = h_canonicalize h (hidden_root_of l);
          hidden = hidden_in_decoy ps canonical (hidden_root_of l) in
      bnd (carry_all kv h ps l mounts (carry_targets (p_policy_mounts p) (initrd_ram_filesystems fstab mounts hidden))) (\<lambda>cs.
      bnd (lifted (read_or_empty (join (paths_runtime ps) UTAB_NAME))) (\<lambda>saved.
        (case keep ps l canonical (\<lambda>_. Inr cs) saved p fstab mounts of
           (Inl e, p1) \<Rightarrow> fails (NIo [] e)
         | (Inr ws, p1) \<Rightarrow> ok (ws, p1)))))"

definition apostrophes :: bytes where "apostrophes = [CHR 0x27, CHR 0x27]"

definition NIXOS_UNITS_SNIPPET :: bytes where
  "NIXOS_UNITS_SNIPPET = join_with [newline]
     [''systemd.units.'' @ quote @ ''soft-reboot.target'' @ quote @ ''.text = '' @ apostrophes,
      ''  [Unit]'',
      ''  Description=Reboot System Userspace'',
      ''  DefaultDependencies=no'',
      ''  Requires=systemd-soft-reboot.service'',
      ''  After=systemd-soft-reboot.service'',
      ''  AllowIsolate=yes'',
      ''  JobTimeoutSec=30min'',
      ''  JobTimeoutAction=soft-reboot-force'',
      apostrophes @ '';'',
      ''systemd.units.'' @ quote @ ''systemd-soft-reboot.service'' @ quote @ ''.text = '' @ apostrophes,
      ''  [Unit]'',
      ''  Description=Reboot System Userspace'',
      ''  DefaultDependencies=no'',
      ''  Requires=shutdown.target umount.target final.target'',
      ''  After=shutdown.target umount.target final.target'',
      ''  SuccessAction=soft-reboot-force'',
      apostrophes @ '';'']"

definition units_present :: "path \<Rightarrow> unit step" where
  "units_present root =
     bnd (lifted (missing_soft_reboot_units root)) (\<lambda>missing.
       if missing \<noteq> []
       then fails (NInvalidState (''the hidden root cannot leave again: it lacks '' @ join_with '' and '' missing
              @ ''. The hidden configuration needs the soft-reboot units; on NixOS add:'' @ [newline] @ NIXOS_UNITS_SNIPPET))
       else ok ())"

definition init_passes :: "path \<Rightarrow> path \<Rightarrow> unit step" where
  "init_passes root init w =
     (case precheck root init w of
        (Some e, w1) \<Rightarrow> (Inl (NInvalidState (show_precheck_error e)), w1)
      | (None, w1) \<Rightarrow> (Inr (), w1))"

definition build_way_back ::
    "kernel_view \<Rightarrow> host \<Rightarrow> sys_paths \<Rightarrow> layout \<Rightarrow> fstab_entry list \<Rightarrow> mount_entry list \<Rightarrow> building \<Rightarrow> building step" where
  "build_way_back kv h ps l decoy_fstab mounts bg =
     (let nextroot = paths_nextroot ps in
      bnd (keep_step kv h ps l decoy_fstab mounts (bg_plan bg)) (\<lambda>(ws, p).
      seq (io_at nextroot (bind_mount (paths_run ps) (in_nextroot ps ''/run'')))
     (seq (io_at nextroot (make_below_private h nextroot))
     (seq (init_passes nextroot (init_before_repoint (p_hidden p)))
     (seq (units_present nextroot)
          (ok (bg\<lparr>bg_plan := p, bg_warnings := bg_warnings bg @ ws\<rparr>)))))))"

definition arm_entry :: "kernel_view \<Rightarrow> host \<Rightarrow> sys_paths \<Rightarrow> building \<Rightarrow> entry step" where
  "arm_entry kv h ps bg =
     (let p = (bg_plan bg)\<lparr>p_armed := Some \<lparr>arm_direction = Enter, arm_at = h_now h\<rparr>\<rparr> in
      seq (checkpoint kv)
     (seq (io_at (paths_plan ps) (write_plan h p (paths_plan ps)))
          (ok \<lparr>en_plan = p, en_decisions = bg_decisions bg, en_warnings = bg_warnings bg\<rparr>)))"

subsection \<open>The entry\<close>

text \<open>\<^verbatim>\<open>build\<close> from the reload after the drop-in on; the drop-in is there for all of it.\<close>

definition build_after_dropin ::
    "kernel_view \<Rightarrow> host \<Rightarrow> entry_host \<Rightarrow> sys_paths \<Rightarrow> entry_inputs \<Rightarrow> mount_entry list \<Rightarrow> plan \<Rightarrow> entry step" where
  "build_after_dropin kv h eh ps i mounts p =
     (let l = \<lparr>hidden_root_of = in_volume i\<rparr>; decoy_mounts = relative_mounts mounts (paths_root ps) in
      seq (guards_hold eh)
     (seq (checkpoint kv)
     (seq (build_root kv ps i l decoy_mounts)
     (bnd (build_policy kv ps i l decoy_mounts p) (\<lambda>bg.
      seq (checkpoint kv)
     (bnd (build_hidden kv eh ps i l decoy_mounts bg) (\<lambda>bg1.
      bnd (build_masks ps i bg1) (\<lambda>bg2.
      bnd (build_way_back kv h ps l (bg_fstab bg) decoy_mounts bg2) (arm_entry kv h ps)))))))))"

definition already_populated :: "sys_paths \<Rightarrow> entry_inputs \<Rightarrow> bytes" where
  "already_populated ps i =
     utf8_lossy (paths_nextroot ps) @ '' is already populated; run `sudo '' @ utf8_lossy (in_binary i) @ '' recover` first''"

definition build ::
    "kernel_view \<Rightarrow> host \<Rightarrow> procfs \<Rightarrow> entry_host \<Rightarrow> sys_paths \<Rightarrow> entry_inputs \<Rightarrow> world \<Rightarrow> ((session_error + entry) \<times> bool) \<times> world" where
  "build kv h pf eh ps i w =
     (case h_live h (w_log w) of
        Inl e \<Rightarrow> ((Inl (NIo ''/proc/self/mountinfo'' e), False), w)
      | Inr mounts \<Rightarrow>
          if is_mount_point mounts (paths_nextroot ps) then ((Inl (NInvalidState (already_populated ps i)), False), w)
          else (case build_runtime kv h pf eh ps i mounts w of
                  (Inl e, w1) \<Rightarrow> ((Inl e, False), w1)
                | (Inr p, w1) \<Rightarrow>
                    (case install_dropin (paths_run ps) (dropin_binary ps) w1 of
                       (Inl e, w2) \<Rightarrow> ((Inl (NIo (paths_run ps) e), False), w2)
                     | (Inr _, w2) \<Rightarrow> (case build_after_dropin kv h eh ps i mounts p w2 of (r, w3) \<Rightarrow> ((r, True), w3)))))"

definition prepare ::
    "kernel_view \<Rightarrow> host \<Rightarrow> procfs \<Rightarrow> entry_host \<Rightarrow> sys_paths \<Rightarrow> entry_inputs \<Rightarrow> entry step" where
  "prepare kv h pf eh ps i w =
     (case build kv h pf eh ps i w of
        ((Inr en, dropin), w1) \<Rightarrow> (Inr en, w1)
      | ((Inl e, dropin), w1) \<Rightarrow>
          (let w2 = snd (rollback h ps w1);
               w3 = (if dropin then snd (eh_reload eh w2) else w2)
           in (Inl (if kv_cancelled kv (w_log w3) then NCancelled else e), w3)))"

section \<open>Lemmas\<close>

subsection \<open>Steps keep the host\<close>

text \<open>A step changes files and grows the log; what the host answers to a log is the same before and after.\<close>

definition hosted :: "(world \<Rightarrow> 'a \<times> world) \<Rightarrow> bool" where
  "hosted m \<longleftrightarrow> (\<forall>w. touches UNIV w (snd (m w)))"

named_theorems hosted_intros

lemma hostedI: "(\<And>w r w'. m w = (r, w') \<Longrightarrow> touches UNIV w w') \<Longrightarrow> hosted m"
  by (metis hosted_def prod.collapse)

lemma hostedD: "hosted m \<Longrightarrow> m w = (r, w') \<Longrightarrow> touches UNIV w w'"
  by (metis hosted_def snd_conv)

lemma hosted_mono: "(\<And>w r w'. m w = (r, w') \<Longrightarrow> touches (K w) w w') \<Longrightarrow> hosted m"
  by (rule hostedI) (metis touches_mono subset_UNIV)

lemma hosted_steps [hosted_intros]:
  "hosted (ok x)" "hosted (fails e)" "hosted (checkpoint kv)" "hosted (read_fstab kv root)"
  "hosted (decide_fstab kv b ms h root)" "hosted (real_in_root kv s root p)" "hosted (ensure_build_space kv u n)"
  by (auto simp: hosted_def ok_def fails_def checkpoint_def read_fstab_def decide_fstab_def real_in_root_def
      ensure_build_space_def Let_def split: sum.splits io_error.splits option.splits decision.splits)

lemma hosted_bnd [hosted_intros]:
  assumes "hosted m" "\<And>x. hosted (f x)"
  shows "hosted (bnd m f)"
proof (rule hostedI)
  fix w r w' assume b: "bnd m f w = (r, w')"
  obtain r1 w1 where m: "m w = (r1, w1)" by fastforce
  have 1: "touches UNIV w w1" by (rule hostedD [OF assms(1) m])
  show "touches UNIV w w'"
  proof (cases r1)
    case (Inl e)
    then show ?thesis using b m 1 by (simp add: bnd_def)
  next
    case (Inr x)
    then have "f x w1 = (r, w')" using b m by (simp add: bnd_def)
    then show ?thesis using hostedD [OF assms(2)] touches_trans [OF 1] by blast
  qed
qed

lemma hosted_io_at [hosted_intros]: "hosted f \<Longrightarrow> hosted (io_at p f)"
  by (auto simp: hosted_def io_at_def split: prod.splits option.splits) (metis snd_conv)+

lemma hosted_lifted [hosted_intros]: "hosted f \<Longrightarrow> hosted (lifted f)"
  by (auto simp: hosted_def lifted_def split: prod.splits) (metis snd_conv)

lemma hosted_effect [hosted_intros]: "(\<And>w. touches UNIV w (f w)) \<Longrightarrow> hosted (effect f)"
  by (simp add: hosted_def effect_def)

lemma hosted_if [hosted_intros]: "hosted a \<Longrightarrow> hosted b \<Longrightarrow> hosted (if c then a else b)"
  by simp

lemma hosted_option [hosted_intros]: "hosted a \<Longrightarrow> (\<And>x. hosted (f x)) \<Longrightarrow> hosted (case v of None \<Rightarrow> a | Some x \<Rightarrow> f x)"
  by (cases v) simp_all

lemma hosted_look [hosted_intros]: "hosted (\<lambda>w. (f w, w))"
  by (simp add: hosted_def)

lemma hosted_world [hosted_intros]:
  "hosted (act_only a)" "hosted (create_dir_all p)" "hosted (write_atomic p b)" "hosted (read_file p)"
  "hosted (rewrite_file c p b)" "hosted (remove_file p)" "hosted (remove_dir p)" "hosted (read_link p)" "hosted (lstat p)"
  by (auto intro: hosted_mono act_only_touches [THEN conjunct1] create_dir_all_touches write_atomic_touches
      read_file_touches [THEN conjunct1] rewrite_file_touches remove_file_touches remove_dir_touches
      read_link_touches [THEN conjunct1] lstat_touches [THEN conjunct1])

lemma hosted_mounts [hosted_intros]:
  "hosted (bind_mount s t)" "hosted (mount_dev s f d t)" "hosted (precheck root p)" "hosted (any_in_root root ps)"
  "hosted (make_below_private h p)" "hosted (detach_tree p)" "hosted (read_to_string p)" "hosted (run_bounded s args)"
  "hosted (run_output s args)"
  by (auto intro!: hostedI simp: detach_tree_def elim!: bind_mount_quiet mount_dev_quiet precheck_quiet any_in_root_quiet
      make_below_private_quiet detach_rounds_quiet read_to_string_quiet run_bounded_quiet run_output_quiet)

text \<open>The same on a chain of operations, each on the state the one before it left.\<close>

lemma hosted_chain: "hosted m \<Longrightarrow> m w = (r, w') \<Longrightarrow> touches UNIV w0 w \<Longrightarrow> touches UNIV w0 w'"
  by (rule touches_trans [OF _ hostedD])

lemma hosted_snd: "hosted m \<Longrightarrow> touches UNIV w0 w \<Longrightarrow> touches UNIV w0 (snd (m w))"
  by (simp add: hosted_def) (metis touches_trans)

lemmas world_chain = hosted_world [THEN hosted_chain] hosted_mounts [THEN hosted_chain]
lemmas world_snd = hosted_world [THEN hosted_snd] hosted_mounts [THEN hosted_snd]

lemma hosted_bind_read_only [hosted_intros]: "hosted (bind_read_only s t)"
  by (rule hostedI, auto simp: bind_read_only_def split: prod.splits option.splits;
      (rule world_snd)?; (elim world_chain)?; simp)

lemma hosted_mount_overlay [hosted_intros]: "hosted (mount_overlay l u k t)"
  by (rule hostedI, auto simp: mount_overlay_def split: option.splits; (elim world_chain)?; simp)

lemma hosted_overlay_over [hosted_intros]: "hosted (overlay_over s p u k t)"
  by (rule hostedI, auto simp: overlay_over_def split: prod.splits option.splits; (rule world_snd)?; (rule world_snd)?;
      (elim world_chain hosted_chain [OF hosted_bind_read_only] hosted_chain [OF hosted_mount_overlay])?; simp)

lemma hosted_make_private [hosted_intros]: "hosted (make_private t)"
  using hosted_world(1) by (simp add: hosted_def make_private_def)

lemma hosted_carry [hosted_intros]: "hosted (carry s a t)"
  by (rule hostedI, auto simp: carry_def split: prod.splits option.splits;
      (elim world_chain hosted_chain [OF hosted_bind_read_only])?; simp)

lemma hosted_create_in_root [hosted_intros]: "hosted (create_in_root root cur names)"
proof (rule hostedI)
  fix w r w' assume "create_in_root root cur names w = (r, w')"
  then show "touches UNIV w w'"
  proof (induction names arbitrary: cur w r)
    case (Cons n names)
    then obtain e1 w1 where 1: "act_only (OpOpenInRoot root (join cur n)) w = (e1, w1)" by fastforce
    obtain e2 w2 where 2: "act_only (OpMkdirAt root (join cur n)) w1 = (e2, w2)" by fastforce
    obtain e3 w3 where 3: "act_only (OpOpenInRoot root (join cur n)) w2 = (e3, w3)" by fastforce
    have t: "touches UNIV w w1" "touches UNIV w w2" "touches UNIV w w3"
      using 1 2 3 by (auto elim!: world_chain)
    show ?case using Cons.prems 1 2 3 t
      by (auto simp: Let_def split: option.splits io_error.splits dest!: Cons.IH intro: touches_trans)
  qed simp
qed

lemma hosted_create_dir_all_in_root [hosted_intros]: "hosted (create_dir_all_in_root root p)"
  by (rule hostedI, auto simp: create_dir_all_in_root_def split: prod.splits option.splits;
      (elim world_chain hosted_chain [OF hosted_create_in_root])?; simp)

lemma hosted_target_in_nextroot [hosted_intros]: "hosted (target_in_nextroot kv ps t)"
  unfolding target_in_nextroot_def Let_def by (intro hosted_intros)

lemma hosted_host_run [hosted_intros]: "hosted (host_run args)"
  by (rule hostedI, auto simp: host_run_def split: prod.splits option.splits; (elim world_chain)?; simp)

lemma hosted_make_layer [hosted_intros]: "hosted (make_layer u k p)"
proof -
  have "hosted (\<lambda>w. act_only (OpChmod d (m w)) w)" for d m
    using hosted_world(1) by (simp add: hosted_def)
  then show ?thesis unfolding make_layer_def match_attributes_def by (intro hosted_intros)
qed

lemma hosted_units_in_root [hosted_intros]: "hosted (units_in_root root us)"
proof (rule hostedI)
  fix w r w' assume "units_in_root root us w = (r, w')"
  then show "touches UNIV w w'"
    by (induction us arbitrary: w r)
      (auto simp: unit_in_root_def split: prod.splits dest!: hostedD [OF hosted_mounts(4)] intro: touches_trans)
qed

lemma hosted_first_init: "hosted (first_init root is)"
proof (rule hostedI)
  fix w r w' assume "first_init root is w = (r, w')"
  then show "touches UNIV w w'"
    by (induction "is" arbitrary: w)
      (auto split: prod.splits option.splits dest!: hostedD [OF hosted_mounts(3)] intro: touches_trans)
qed

lemma hosted_inits [hosted_intros]: "hosted (fhs_init root)" "hosted (missing_soft_reboot_units root)" "hosted (init_passes root p)"
  by (rule hostedI, auto simp: fhs_init_def missing_soft_reboot_units_def init_passes_def split: prod.splits option.splits;
      (elim world_chain hosted_chain [OF hosted_first_init] hosted_chain [OF hosted_units_in_root])?; simp)+

lemma hosted_reads [hosted_intros]: "hosted (kernel_of root p)" "hosted (copy_file s t)" "hosted (read_or_empty p)"
  by (rule hostedI, auto simp: kernel_of_def copy_file_def read_or_empty_def split: prod.splits sum.splits;
      (elim world_chain)?; simp)+

lemma collect_run_same_tree:
  "collect_run run rel depth acc w = (r, w') \<Longrightarrow> same_tree w w'"
  "collect_run_each run rel depth names acc w = (r, w') \<Longrightarrow> same_tree w w'"
proof (induction run rel depth acc w and run rel depth names acc w arbitrary: r w' and r w' rule: collect_run_collect_run_each.induct)
  case (1 run rel depth acc w)
  then show ?case
    by (auto simp: collect_run.simps [of run rel] Let_def split: prod.splits sum.splits node.splits if_splits
        dest!: same_tree_reads read_link_same_tree intro: same_tree_trans)
next
  case (3 run rel depth name names acc w)
  then show ?case by (auto split: prod.splits sum.splits intro: same_tree_trans)
qed simp_all

lemma snapshot_run_loop_same_tree: "snapshot_run_loop run ds acc w = (r, w') \<Longrightarrow> same_tree w w'"
  by (induction ds arbitrary: acc w)
    (auto simp: same_tree_refl simp del: collect_run.simps split: prod.splits sum.splits
      dest!: collect_run_same_tree intro: same_tree_trans)

lemma same_tree_moved: "same_tree w w' \<Longrightarrow> touches UNIV w w'"
  using same_tree_quiet touches_refl by blast

lemma hosted_same_tree: "(\<And>w r w'. m w = (r, w') \<Longrightarrow> same_tree w w') \<Longrightarrow> hosted m"
  by (rule hostedI) (rule same_tree_moved)

lemma hosted_record_network [hosted_intros]: "touches UNIV w (record_network kv h run out w)"
proof -
  have c: "hosted (capture nv a b c d)" for nv a b c d
  proof (rule hostedI)
    fix w r w' assume "capture nv a b c d w = (r, w')"
    then obtain h w1 e w2 es where s: "read_hostname b w = (h, w1)" "lstat c w1 = (e, w2)" "snapshot_run d w2 = (es, w')"
      by (auto simp: capture_def split: prod.splits)
    have "touches UNIV w2 w'" using snapshot_run_loop_same_tree s(3) by (metis same_tree_moved snapshot_run_def)
    then show "touches UNIV w w'"
      using touches_trans [OF touches_trans [OF read_hostname_touches [OF s(1)]]] lstat_touches [OF s(2)] by blast
  qed
  show ?thesis
    by (auto simp: record_network_def split: prod.splits option.splits; (rule world_snd)?;
        (elim world_chain hosted_chain [OF c])?; simp)
qed

lemma hosted_take_snapshot [hosted_intros]: "hosted (take_snapshot run)"
  by (rule hosted_same_tree) (auto simp: take_snapshot_def split: prod.splits dest: list_run_same_tree)

lemma hosted_write_each [hosted_intros]: "hosted (write_each dir fs)"
  by (induction dir fs rule: write_each.induct) (simp_all add: hosted_intros)

lemma hosted_write_runtime [hosted_intros]: "hosted (write_runtime kv h ps i snap)"
  unfolding write_runtime_def Let_def by (intro hosted_intros)

lemma hosted_skeleton [hosted_intros]: "hosted (skeleton h pf ps i l)"
  by (rule hostedI, auto simp: skeleton_def Let_def split: prod.splits if_splits;
      (elim hosted_chain [OF hosted_inits(1)])?; simp)

lemma hosted_plan [hosted_intros]: "hosted (write_plan h p f)"
  using hosted_world(3) by (simp add: hosted_def write_plan_def)

lemma hosted_install_dropin [hosted_intros]: "hosted (install_dropin run binary)"
proof -
  have f: "hosted (install_files run fs)" for fs
  proof (rule hostedI)
    fix w r w' assume "install_files run fs w = (r, w')"
    then show "touches UNIV w w'"
      by (induction run fs w rule: install_files.induct)
        (auto split: prod.splits option.splits dest!: hostedD [OF hosted_world(2)] hostedD [OF hosted_world(3)] intro: touches_trans)
  qed
  show ?thesis by (rule hostedI, auto simp: install_dropin_def split: prod.splits option.splits; (elim hosted_chain [OF f])?; simp)
qed

lemma hosted_build_root [hosted_intros]: "hosted (build_root kv ps i l ms)"
proof -
  have "hosted (fresh_home kv ps i l ms)"
  proof (cases "in_operator_home i")
    case None
    then show ?thesis by (simp add: fresh_home_def hosted_steps(2))
  next
    case (Some p)
    have "hosted (bnd (host_run args) (\<lambda>_. ok ()))" for args by (intro hosted_intros)
    then show ?thesis using Some by (simp add: fresh_home_def hosted_def Let_def)
  qed
  then show ?thesis unfolding build_root_def by (intro hosted_intros)
qed

lemma hosted_apply_mounts [hosted_intros]: "hosted (apply_mounts kv ps l ds h made)"
proof -
  have "hosted (place_mount kv ps l n m)" for n m
    unfolding place_mount_def Let_def
    by (intro hosted_bnd hosted_target_in_nextroot) (auto split: policy_mount_kind.split prod.split intro: hosted_intros)
  then have "hosted (place_all kv ps l n ms)" for n ms
    by (induction ms arbitrary: n) (simp_all add: hosted_intros)
  then show ?thesis unfolding apply_mounts_def Let_def by (intro hosted_intros)
qed

lemma hosted_build_policy [hosted_intros]: "hosted (build_policy kv ps i l ms p)"
  unfolding build_policy_def by (intro hosted_intros)

lemma hosted_kernel_warnings [hosted_intros]: "hosted (kernel_warnings root s d)"
  by (rule hostedI, auto simp: kernel_warnings_def split: prod.splits option.splits; (elim hosted_chain [OF hosted_reads(1)])?; simp)

lemma hosted_build_masks [hosted_intros]: "hosted (build_masks ps i bg)"
proof -
  have "touches UNIV w (write_persona_masks ps i w)" for w
    by (auto simp: write_persona_masks_def split: option.split intro: world_snd)
  then show ?thesis unfolding build_masks_def Let_def by (intro hosted_intros)
qed

lemma hosted_carry_all [hosted_intros]: "hosted (carry_all kv h ps l ms ts)"
proof -
  have "hosted (carry_one kv h ps l ms t)" for t
    unfolding carry_one_def Let_def
    by (intro hosted_intros) (auto simp: hosted_def split: sum.splits)
  then show ?thesis by (induction ts) (simp_all add: hosted_intros)
qed

lemma hosted_keep_step [hosted_intros]: "hosted (keep_step kv h ps l es ms p)"
  unfolding keep_step_def Let_def
  by (intro hosted_bnd hosted_carry_all hosted_lifted hosted_reads) (auto split: prod.split sum.split intro: hosted_intros)

lemma hosted_build_way_back [hosted_intros]: "hosted (build_way_back kv h ps l es ms bg)"
  unfolding build_way_back_def units_present_def Let_def
  by (intro hosted_bnd hosted_keep_step) (auto split: prod.split intro!: hosted_intros)

lemma hosted_arm_entry [hosted_intros]: "hosted (arm_entry kv h ps bg)"
  unfolding arm_entry_def Let_def by (intro hosted_intros)

subsection \<open>Operations that make no mount\<close>

text \<open>Only the calls that mount, and the runs of nix and the persona's files, can add a mount point.\<close>

definition adds_mount :: "op \<Rightarrow> bool" where
  "adds_mount a = (case a of OpMount _ _ _ _ \<Rightarrow> True | OpBind _ _ \<Rightarrow> True | OpHost _ \<Rightarrow> True | _ \<Rightarrow> False)"

definition mounts_only :: "world \<Rightarrow> bool" where
  "mounts_only w \<longleftrightarrow> (\<forall>l a. \<not> adds_mount a \<longrightarrow> mset (w_points w (a # l)) \<subseteq># mset (w_points w l))"

definition unmounting :: "world \<Rightarrow> world \<Rightarrow> bool" where
  "unmounting w w' \<longleftrightarrow> w_points w' = w_points w \<and> (\<exists>l. w_log w' = l @ w_log w \<and> (\<forall>a\<in>set l. \<not> adds_mount a))"

named_theorems unmounting_intros

lemma unmounting_refl [simp]: "unmounting w w"
  by (simp add: unmounting_def)

lemma unmounting_trans [trans]: "unmounting w w1 \<Longrightarrow> unmounting w1 w2 \<Longrightarrow> unmounting w w2"
  by (fastforce simp: unmounting_def)

lemma unmounting_points:
  assumes "unmounting w w'" "mounts_only w"
  shows "mset (w_points w' (w_log w')) \<subseteq># mset (w_points w (w_log w))"
proof -
  obtain l where l: "w_log w' = l @ w_log w" "\<forall>a\<in>set l. \<not> adds_mount a" "w_points w' = w_points w"
    using assms(1) by (auto simp: unmounting_def)
  have "mset (w_points w (l @ w_log w)) \<subseteq># mset (w_points w (w_log w))"
    using l(2)
  proof (induction l)
    case (Cons a l)
    then have "mset (w_points w (a # (l @ w_log w))) \<subseteq># mset (w_points w (l @ w_log w))"
      using assms(2) by (simp add: mounts_only_def)
    then show ?case using Cons subset_mset.order_trans by fastforce
  qed simp
  then show ?thesis using l by simp
qed

lemma unmounting_under:
  assumes "unmounting w w'" "mounts_only w" "points_under p w = []"
  shows "points_under p w' = []"
  using set_mset_mono [OF unmounting_points [OF assms(1,2)]] assms(3)
  by (auto simp: points_under_def filter_empty_conv)

lemma unmounting_file_ops:
  "read_file p w = (r1, w') \<Longrightarrow> unmounting w w'"
  "read_link p w = (r2, w') \<Longrightarrow> unmounting w w'"
  "remove_file p w = (r3, w') \<Longrightarrow> unmounting w w'"
  "remove_dir p w = (r3, w') \<Longrightarrow> unmounting w w'"
  "remove_dir_all p w = (r3, w') \<Longrightarrow> unmounting w w'"
  "rewrite_file c p b w = (r3, w') \<Longrightarrow> unmounting w w'"
  by (auto simp: read_file_def read_link_def remove_file_def remove_dir_def remove_dir_all_def rewrite_file_def begun_def
      attempt_def unmounting_def adds_mount_def put_def drop_key_def drop_tree_def
      split: option.splits node.splits if_splits)

lemma unmounting_act: "act_only a w = (r, w') \<Longrightarrow> \<not> adds_mount a \<Longrightarrow> unmounting w w'"
  by (auto simp: act_only_def attempt_def unmounting_def)

lemma unmounting_snd:
  "(\<And>r w'. m w = (r, w') \<Longrightarrow> unmounting w w') \<Longrightarrow> unmounting w (snd (m w))"
  by (cases "m w") simp

lemma unmounting_detach: "unmounting w (snd (detach_tree p w))"
proof -
  have loop: "detach_loop ms w = (r, w') \<Longrightarrow> unmounting w w'" for ms w r w'
    by (induction ms arbitrary: w r)
      (auto simp: adds_mount_def split: prod.splits option.splits if_splits dest!: unmounting_act intro: unmounting_trans)
  have "detach_rounds n p w = (r, w') \<Longrightarrow> unmounting w w'" for n w r w'
    by (induction n arbitrary: w)
      (auto simp: detach_under_def split: prod.splits if_splits dest!: loop intro: unmounting_trans)
  then show ?thesis unfolding detach_tree_def by (rule unmounting_snd)
qed

lemma unmounting_remove_files: "remove_files run kept fs w = (r, w') \<Longrightarrow> unmounting w w'"
proof (induction fs arbitrary: w r)
  case (Cons f fs)
  obtain dir name where f: "f = (dir, name)" by fastforce
  obtain r1 w1 where 1: "remove_file (join (join run dir) name) w = (r1, w1)" by fastforce
  let ?w2 = "if snap_contains kept dir then w1 else snd (remove_dir (join run dir) w1)"
  have 2: "unmounting w1 ?w2" by (auto intro!: unmounting_snd dest: unmounting_file_ops)
  obtain b w3 where 3: "remove_files run kept fs ?w2 = (b, w3)" by fastforce
  have "w' = w3" using Cons.prems f 1 3 by simp
  then show ?case using unmounting_trans [OF unmounting_trans [OF unmounting_file_ops(3) [OF 1] 2]] Cons.IH 3 by simp
qed simp

lemma unmounting_unmask_loop: "unmask_loop run kept dir ns w = (r, w') \<Longrightarrow> unmounting w w'"
  by (induction run kept dir ns w arbitrary: r rule: unmask_loop.induct)
    (auto simp: Let_def split: prod.splits sum.splits if_splits dest!: unmounting_file_ops intro: unmounting_trans)

lemma unmounting_restore_settings: "unmounting w (restore_settings ss w)"
proof (induction ss arbitrary: w)
  case (Cons s ss)
  obtain v w1 where c: "current_setting (ks_path s) w = (v, w1)" by fastforce
  have "unmounting w w1"
    using c by (auto simp: current_setting_def read_to_string_def split: prod.splits sum.splits if_splits dest!: unmounting_file_ops(1))
  moreover have "unmounting w1 (restore_settings ss (snd (rewrite_file x p b w1)))" for x p b
    by (rule unmounting_trans [OF unmounting_snd Cons.IH]) (rule unmounting_file_ops)
  ultimately show ?case using c Cons.IH by (auto intro: unmounting_trans)
qed simp

lemma unmounting_rollback: "unmounting (snd (detach_tree (paths_nextroot ps) v)) (snd (rollback h ps w))"
  if "v = snd (load_snapshot (join (paths_runtime ps) SNAPSHOT_NAME) (snd (read_to_string (paths_plan ps) w)))"
proof -
  obtain c w1 where 1: "read_to_string (paths_plan ps) w = (c, w1)" by fastforce
  obtain saved w2 where 2: "load_snapshot (join (paths_runtime ps) SNAPSHOT_NAME) w1 = (saved, w2)" by fastforce
  obtain rem w3 where 3: "detach_tree (paths_nextroot ps) w2 = (rem, w3)" by fastforce
  define plan where "plan = (case load_plan (h_plan_version h) (h_plan_reader h) c of Inl _ \<Rightarrow> None | Inr p \<Rightarrow> Some p)"
  define w4 where "w4 = snd (remove_dropin (paths_run ps) (kept_of saved) w3)"
  define w5 where "w5 = (case plan of None \<Rightarrow> w4
      | Some p \<Rightarrow> restore_settings (p_kernel_settings p)
                   (snd (remove_masks (paths_run ps) (p_masks p) (p_boot_masks p) (kept_of saved) w4)))"
  define w6 where "w6 = remove_runtime_dir (paths_runtime ps) w5"
  have r: "snd (rollback h ps w) = (if is_some_and plan p_run_noexec then set_noexec (paths_run ps) True w6 else w6)"
    unfolding w6_def w5_def plan_def w4_def rollback_def Let_def by (simp add: 1 2 3)
  have u4: "unmounting w3 w4"
    unfolding w4_def remove_dropin_def by (rule unmounting_snd) (rule unmounting_remove_files)
  have m: "unmounting x (snd (remove_masks run ms bs k x))" for x run ms bs k
    by (auto simp: remove_masks_def split: prod.split intro!: unmounting_snd
        dest!: unmounting_unmask_loop intro: unmounting_trans dest: unmounting_file_ops)
  have u5: "unmounting w4 w5"
    unfolding w5_def by (auto split: option.split intro: unmounting_trans [OF m unmounting_restore_settings])
  have u6: "unmounting w5 w6"
  proof -
    obtain rest x where d: "detach_tree (paths_runtime ps) w5 = (rest, x)" by fastforce
    have "unmounting w5 x" using unmounting_detach [of w5 "paths_runtime ps"] d by simp
    moreover have "unmounting x (snd (remove_dir_all (paths_runtime ps) x))"
      by (rule unmounting_snd) (rule unmounting_file_ops)
    ultimately show ?thesis using d unmounting_trans unfolding w6_def remove_runtime_dir_def by auto
  qed
  have "unmounting w6 (set_noexec (paths_run ps) True w6)"
    unfolding set_noexec_def by (rule unmounting_snd) (erule unmounting_act, simp add: adds_mount_def)
  then have "unmounting w3 (snd (rollback h ps w))"
    using unmounting_trans [OF unmounting_trans [OF u4 u5] u6] r by (auto intro: unmounting_trans)
  then show ?thesis using that 1 2 3 by simp
qed

lemma mounts_only_touches: "touches K w w' \<Longrightarrow> mounts_only w' = mounts_only w"
  by (simp add: mounts_only_def touches_def)

lemma rollback_mounts_only: "mounts_only w \<Longrightarrow> mounts_only (snd (rollback h ps w))"
proof -
  assume w: "mounts_only w"
  define v where "v = snd (load_snapshot (join (paths_runtime ps) SNAPSHOT_NAME) (snd (read_to_string (paths_plan ps) w)))"
  have "touches UNIV w v"
    unfolding v_def load_snapshot_def
    by (auto split: prod.split sum.split elim!: world_chain intro!: world_snd)
  then have "mounts_only v" using w mounts_only_touches by blast
  then show ?thesis
    using unmounting_rollback [OF v_def] unmounting_detach [of v] by (simp add: unmounting_def mounts_only_def)
qed

lemma rollback_empties:
  assumes "detaches w" "mounts_only w"
  shows "points_under (paths_nextroot ps) (snd (rollback h ps w)) = []"
proof -
  define v where "v = snd (load_snapshot (join (paths_runtime ps) SNAPSHOT_NAME) (snd (read_to_string (paths_plan ps) w)))"
  have "touches UNIV w v"
    unfolding v_def load_snapshot_def
    by (auto split: prod.split sum.split elim!: world_chain intro!: world_snd)
  then have v: "detaches v" "mounts_only (snd (detach_tree (paths_nextroot ps) v))"
    using assms detaches_touches mounts_only_touches detach_tree_quiet by blast+
  show ?thesis
    by (rule unmounting_under [OF unmounting_rollback [OF v_def] v(2)]) (use detach_tree_empties [OF v(1)] detach_tree_report in metis)
qed

subsection \<open>Successful steps\<close>

lemma bnd_Inr: "bnd m f w = (Inr y, w') \<longleftrightarrow> (\<exists>x w1. m w = (Inr x, w1) \<and> f x w1 = (Inr y, w'))"
  by (auto simp: bnd_def split: prod.splits sum.splits)

lemma io_at_Inr: "io_at p f w = (Inr u, w') \<longleftrightarrow> f w = (None, w')"
  by (auto simp: io_at_def split: prod.splits option.splits)

lemma lifted_Inr: "lifted f w = (Inr x, w') \<longleftrightarrow> f w = (x, w')"
  by (auto simp: lifted_def split: prod.splits)

lemma plain_Inr:
  "ok x w = (Inr y, w') \<longleftrightarrow> y = x \<and> w' = w"
  "fails e w \<noteq> (Inr y, w')"
  "effect f w = (Inr u, w') \<longleftrightarrow> w' = f w"
  by (auto simp: ok_def fails_def effect_def)

lemmas step_Inr = bnd_Inr io_at_Inr lifted_Inr plain_Inr

text \<open>The mounts a list of decisions calls for are all among those put in place.\<close>

lemma set_wanted_mounts:
  "m \<in> set (wanted_mounts ds h made) \<longleftrightarrow>
     ((\<exists>d\<in>set ds. placed_by d = Some m) \<or> m = \<lparr>pm_target = h, pm_kind = KindHiddenVolume\<rparr>)
     \<and> \<not> (\<exists>t\<in>set made. path_eq t (pm_target m))"
  by (auto simp: wanted_mounts_def set_filter_map)

lemma placed_by_decide:
  assumes "placed_by (decide e ms h) = Some m"
  shows "\<not> path_starts_with (pm_target m) h" "pm_kind m \<noteq> KindHiddenVolume"
  using assms by (auto simp: placed_by_def decide_def mask_entry_def Let_def split: if_splits option.splits decision.splits)

lemma same_decision_placed:
  "same_decision x d \<Longrightarrow> placed_by d = Some m \<Longrightarrow> \<exists>m'. placed_by x = Some m' \<and> path_eq (pm_target m') (pm_target m) \<and> pm_kind m' = pm_kind m"
  by (cases x; cases d) (auto simp: placed_by_def)

lemma same_decision_masked: "same_decision x d \<Longrightarrow> decision_masked_units x = decision_masked_units d"
  by (cases x; cases d) auto

text \<open>A decision up to the spelling of its path.\<close>

fun decision_key :: "decision \<Rightarrow> nat \<times> key \<times> bytes list \<times> bytes" where
  "decision_key (ReadOnlyBind t) = (0, components t, [], [])"
| "decision_key (Overlay t) = (1, components t, [], [])"
| "decision_key (Mask t us r) = (2, components t, us, r)"
| "decision_key (Leave t r) = (3, components t, [], r)"
| "decision_key (Refuse t r) = (4, components t, [], r)"

lemma same_decision_iff: "same_decision x d \<longleftrightarrow> decision_key x = decision_key d"
  by (cases x; cases d) (auto simp: path_eq_def)

lemma same_decision_refl: "same_decision d d"
  by (simp add: same_decision_iff)

lemma merge_decisions_has:
  "set ds \<subseteq> set (merge_decisions ds hs) \<and> (\<forall>d\<in>set hs. \<exists>x\<in>set (merge_decisions ds hs). same_decision x d)"
proof (induction hs rule: rev_induct)
  case (snoc d hs)
  then show ?case unfolding merge_decisions_def using same_decision_refl by auto
qed (simp add: merge_decisions_def)

text \<open>The plan puts in place what the decisions call for, outside the hidden volume's own mount.\<close>

definition places_all :: "plan \<Rightarrow> path \<Rightarrow> decision list \<Rightarrow> bool" where
  "places_all p h ds \<longleftrightarrow>
     (\<forall>d\<in>set ds. \<forall>m. placed_by d = Some m \<longrightarrow>
        (\<exists>m'\<in>set (p_policy_mounts p). path_eq (pm_target m') (pm_target m) \<and> pm_kind m' \<noteq> KindHiddenVolume))
     \<and> (\<forall>m\<in>set (p_policy_mounts p). pm_kind m = KindHiddenVolume \<longrightarrow> pm_target m = h)"

lemma places_all_wanted:
  assumes "places_all p h old" "\<forall>d\<in>set ds. \<exists>e. d = decide e ms h" "set new \<subseteq> set old \<union> set ds"
  shows "places_all (q\<lparr>p_policy_mounts := p_policy_mounts p @ wanted_mounts ds h (map pm_target (p_policy_mounts p))\<rparr>) h new"
proof -
  let ?made = "map pm_target (p_policy_mounts p)"
  have "\<exists>m'\<in>set (p_policy_mounts p @ wanted_mounts ds h ?made). path_eq (pm_target m') (pm_target m) \<and> pm_kind m' \<noteq> KindHiddenVolume"
    if d: "d \<in> set ds" "placed_by d = Some m" for d m
  proof -
    obtain e where e: "d = decide e ms h" using assms(2) d(1) by blast
    have k: "pm_kind m \<noteq> KindHiddenVolume" "\<not> path_starts_with (pm_target m) h" using placed_by_decide d(2) e by blast+
    show ?thesis
    proof (cases "\<exists>t\<in>set ?made. path_eq t (pm_target m)")
      case True
      then obtain m' where m': "m' \<in> set (p_policy_mounts p)" "path_eq (pm_target m') (pm_target m)" by auto
      then have "pm_kind m' \<noteq> KindHiddenVolume"
        using assms(1) k(2) path_starts_with_eq_left [of "pm_target m'" "pm_target m"] path_starts_with_refl
        unfolding places_all_def by metis
      with m' show ?thesis by auto
    next
      case False
      then have "m \<in> set (wanted_mounts ds h ?made)" using d by (auto simp: set_wanted_mounts)
      with k(1) show ?thesis using path_eq_refl by (metis Un_iff set_append)
    qed
  qed
  moreover have "\<forall>m\<in>set (wanted_mounts ds h ?made). pm_kind m = KindHiddenVolume \<longrightarrow> pm_target m = h"
    using assms(2) placed_by_decide(2) by (fastforce simp: set_wanted_mounts)
  ultimately show ?thesis using assms(1,3) unfolding places_all_def by (auto 0 3)
qed

lemma merge_decisions_subset: "set (merge_decisions ds hs) \<subseteq> set ds \<union> set hs"
  by (induction hs rule: rev_induct) (auto simp: merge_decisions_def)

lemma decide_fstab_Inr:
  assumes "decide_fstab kv b ms h root w = (Inr ds, w')"
  shows "w' = w" "ds = decide_all (resolved_fstab kv (w_log w) root b) ms h"
    and "\<forall>e\<in>set (resolved_fstab kv (w_log w) root b). \<not> is_refuse (decide e ms h)"
proof -
  let ?ds = "decide_all (resolved_fstab kv (w_log w) root b) ms h"
  have "find is_refuse ?ds = None"
  proof (rule ccontr)
    assume "find is_refuse ?ds \<noteq> None"
    then obtain d where d: "find is_refuse ?ds = Some d" by blast
    then have "is_refuse d" using find_SomeD by fast
    then obtain s r where "d = Refuse s r" by (auto simp: is_refuse_def split: decision.splits)
    with d assms show False by (simp add: decide_fstab_def)
  qed
  note none = this
  show "w' = w" "ds = ?ds" using assms none by (auto simp: decide_fstab_def Let_def)
  show "\<forall>e\<in>set (resolved_fstab kv (w_log w) root b). \<not> is_refuse (decide e ms h)"
    using none by (auto simp: find_None_iff decide_all_set)
qed

definition fstab_bytes :: "kernel_view \<Rightarrow> op list \<Rightarrow> path \<Rightarrow> bytes" where
  "fstab_bytes kv l root = (case kv_read kv l root ''/etc/fstab'' of Inl _ \<Rightarrow> [] | Inr b \<Rightarrow> b)"

lemma read_fstab_Inr: "read_fstab kv root w = (Inr b, w') \<Longrightarrow> w' = w \<and> b = fstab_bytes kv (w_log w) root"
  by (auto simp: read_fstab_def fstab_bytes_def split: sum.splits io_error.splits)

text \<open>The entries of a root's fstab as they resolve there at a log.\<close>

definition fstab_at :: "kernel_view \<Rightarrow> op list \<Rightarrow> path \<Rightarrow> fstab_entry list" where
  "fstab_at kv l root = resolved_fstab kv l root (fstab_bytes kv l root)"

text \<open>A list of decisions answers a root's fstab: each entry has its decision among them, and none is refused.\<close>

definition answers :: "kernel_view \<Rightarrow> op list \<Rightarrow> path \<Rightarrow> mount_entry list \<Rightarrow> path \<Rightarrow> decision list \<Rightarrow> bool" where
  "answers kv l root ms h ds \<longleftrightarrow>
     (\<forall>e\<in>set (fstab_at kv l root). \<not> is_refuse (decide e ms h) \<and> (\<exists>x\<in>set ds. same_decision x (decide e ms h)))"

lemma apply_mounts_Inr: "apply_mounts kv ps l ds h made w = (Inr ms, w') \<Longrightarrow> ms = wanted_mounts ds h made"
  by (auto simp: apply_mounts_def Let_def step_Inr)

lemma build_policy_Inr:
  assumes "build_policy kv ps i l ms p w = (Inr bg, w')"
  shows "answers kv (w_log w) (paths_root ps) ms (in_volume i) (bg_decisions bg)"
    and "places_all (bg_plan bg) (in_volume i) (bg_decisions bg)"
    and "bg_fstab bg = parse_fstab (utf8_lossy (fstab_bytes kv (w_log w) (paths_root ps)))"
    and "set (bg_decisions bg) = (\<lambda>e. decide e ms (in_volume i)) ` set (fstab_at kv (w_log w) (paths_root ps))"
proof -
  let ?h = "in_volume i" and ?b = "fstab_bytes kv (w_log w) (paths_root ps)"
  obtain ds where ds: "decide_fstab kv ?b ms ?h (paths_root ps) w = (Inr ds, w)"
    and bg: "bg_decisions bg = ds" "bg_plan bg = p\<lparr>p_policy_mounts := wanted_mounts ds ?h []\<rparr>" "bg_fstab bg = parse_fstab (utf8_lossy ?b)"
  proof -
    obtain w1 b ds placed where s: "read_fstab kv (paths_root ps) w = (Inr b, w1)"
      "decide_fstab kv b ms ?h (paths_root ps) w1 = (Inr ds, w1)" "placed = wanted_mounts ds ?h []"
      "bg = \<lparr>bg_plan = p\<lparr>p_policy_mounts := placed\<rparr>, bg_fstab = parse_fstab (utf8_lossy b), bg_decisions = ds, bg_warnings = []\<rparr>"
      using assms by (auto simp: build_policy_def step_Inr dest!: apply_mounts_Inr) (metis decide_fstab_Inr(1))
    then show ?thesis using that read_fstab_Inr [OF s(1)] by simp
  qed
  have d: "ds = decide_all (fstab_at kv (w_log w) (paths_root ps)) ms ?h"
    using decide_fstab_Inr(2) [OF ds] by (simp add: fstab_at_def)
  show "answers kv (w_log w) (paths_root ps) ms ?h (bg_decisions bg)"
    using decide_fstab_Inr(3) [OF ds] same_decision_refl
    unfolding answers_def bg d by (auto simp: fstab_at_def decide_all_set)
  show "places_all (bg_plan bg) ?h (bg_decisions bg)"
    using places_all_wanted [of "p\<lparr>p_policy_mounts := []\<rparr>" ?h "[]" ds ms ds p]
    unfolding bg by (auto simp: places_all_def [of "p\<lparr>p_policy_mounts := []\<rparr>"] d decide_all_set)
  show "bg_fstab bg = parse_fstab (utf8_lossy ?b)" by (rule bg)
  show "set (bg_decisions bg) = (\<lambda>e. decide e ms ?h) ` set (fstab_at kv (w_log w) (paths_root ps))"
    by (simp add: bg d decide_all_set)
qed

lemma answers_mono:
  assumes "answers kv l root ms h ds" "\<forall>d\<in>set ds. \<exists>x\<in>set ds'. same_decision x d"
  shows "answers kv l root ms h ds'"
  unfolding answers_def
proof
  fix e assume "e \<in> set (fstab_at kv l root)"
  then obtain y where y: "\<not> is_refuse (decide e ms h)" "y \<in> set ds" "same_decision y (decide e ms h)"
    using assms(1) by (auto simp: answers_def)
  then obtain x where "x \<in> set ds'" "same_decision x y" using assms(2) by blast
  then show "\<not> is_refuse (decide e ms h) \<and> (\<exists>x\<in>set ds'. same_decision x (decide e ms h))"
    using y by (auto simp: same_decision_iff)
qed

text \<open>What building the hidden system, or taking the decoy's, leaves of the policy.\<close>

lemma build_hidden_Inr:
  assumes "build_hidden kv eh ps i l ms bg w = (Inr bg1, w')" "places_all (bg_plan bg) (in_volume i) (bg_decisions bg)"
  shows "places_all (bg_plan bg1) (in_volume i) (bg_decisions bg1)"
    and "set (bg_decisions bg) \<subseteq> set (bg_decisions bg1)" "set (bg_fstab bg) \<subseteq> set (bg_fstab bg1)"
    and "in_builder i \<noteq> None \<Longrightarrow> \<exists>k. (\<exists>ops. w_log w' = ops @ k)
           \<and> answers kv k (paths_nextroot ps) ms (in_volume i) (bg_decisions bg1)"
    and "p_session_units (bg_plan bg1) = p_session_units (bg_plan bg)"
proof -
  let ?h = "in_volume i" and ?root = "paths_nextroot ps" and ?p = "bg_plan bg"
  have *: "places_all (bg_plan bg1) ?h (bg_decisions bg1) \<and> set (bg_decisions bg) \<subseteq> set (bg_decisions bg1)
    \<and> set (bg_fstab bg) \<subseteq> set (bg_fstab bg1) \<and> p_session_units (bg_plan bg1) = p_session_units ?p
    \<and> (in_builder i \<noteq> None \<longrightarrow> (\<exists>k. (\<exists>ops. w_log w' = ops @ k) \<and> answers kv k ?root ms ?h (bg_decisions bg1)))"
  proof (cases "in_builder i")
    case None
    then show ?thesis using assms by (auto simp: build_hidden_def step_Inr places_all_def split: if_splits)
  next
    case (Some builder)
    obtain b w1 hs w2 system ws where s: "read_fstab kv ?root w1 = (Inr b, w2)" "decide_fstab kv b ms ?h ?root w2 = (Inr hs, w2)"
      "apply_mounts kv ps l hs ?h (map pm_target (p_policy_mounts ?p)) w2 = (Inr (wanted_mounts hs ?h (map pm_target (p_policy_mounts ?p))), w')"
      "bg1 = \<lparr>bg_plan = ?p\<lparr>p_hidden := \<lparr>rs_init = NIXOS_INIT, rs_system = Some system\<rparr>,
           p_policy_mounts := p_policy_mounts ?p @ wanted_mounts hs ?h (map pm_target (p_policy_mounts ?p))\<rparr>,
           bg_fstab = bg_fstab bg @ parse_fstab (utf8_lossy b),
           bg_decisions = merge_decisions (bg_decisions bg) hs, bg_warnings = bg_warnings bg @ ws\<rparr>"
      using assms(1) Some unfolding build_hidden_def build_system_def Let_def
      by (auto simp: step_Inr) (metis apply_mounts_Inr decide_fstab_Inr(1))
    note r = read_fstab_Inr [OF s(1)]
    have hs: "hs = decide_all (fstab_at kv (w_log w2) ?root) ms ?h" "\<forall>e\<in>set (fstab_at kv (w_log w2) ?root). \<not> is_refuse (decide e ms ?h)"
      using decide_fstab_Inr(2,3) [OF s(2)] r by (simp_all add: fstab_at_def)
    note mg = merge_decisions_has [of "bg_decisions bg" hs]
    have "answers kv (w_log w2) ?root ms ?h (bg_decisions bg1)"
      using mg hs unfolding answers_def s(4) by (auto simp: decide_all_set)
    moreover have "\<exists>ops. w_log w' = ops @ w_log w2"
      using hostedD [OF hosted_apply_mounts s(3)] by (simp add: touches_def)
    moreover have "places_all (bg_plan bg1) ?h (bg_decisions bg1)"
      using places_all_wanted [OF assms(2) _ merge_decisions_subset, of hs ms "?p\<lparr>p_hidden := \<lparr>rs_init = NIXOS_INIT, rs_system = Some system\<rparr>\<rparr>"]
      by (auto simp: s(4) hs(1) decide_all_set)
    moreover have "set (bg_decisions bg) \<subseteq> set (bg_decisions bg1)" "set (bg_fstab bg) \<subseteq> set (bg_fstab bg1)"
      "p_session_units (bg_plan bg1) = p_session_units ?p"
      using mg s(4) by auto
    ultimately show ?thesis by blast
  qed
  show "places_all (bg_plan bg1) ?h (bg_decisions bg1)" "set (bg_decisions bg) \<subseteq> set (bg_decisions bg1)"
    "set (bg_fstab bg) \<subseteq> set (bg_fstab bg1)" "p_session_units (bg_plan bg1) = p_session_units ?p"
    using * by blast+
  assume "in_builder i \<noteq> None"
  then show "\<exists>k. (\<exists>ops. w_log w' = ops @ k) \<and> answers kv k ?root ms ?h (bg_decisions bg1)" using * by blast
qed

lemma build_masks_Inr:
  assumes "build_masks ps i bg w = (Inr bg1, w')"
  shows "p_masks (bg_plan bg1) = masks (bg_fstab bg) (bg_decisions bg)" "bg_decisions bg1 = bg_decisions bg"
    "p_policy_mounts (bg_plan bg1) = p_policy_mounts (bg_plan bg)" "p_session_units (bg_plan bg1) = p_session_units (bg_plan bg)"
  using assms by (auto simp: build_masks_def Let_def step_Inr)

lemma build_way_back_Inr:
  assumes "build_way_back kv h ps l es ms bg w = (Inr bg1, w')"
  shows "p_masks (bg_plan bg1) = p_masks (bg_plan bg)" "bg_decisions bg1 = bg_decisions bg"
    "p_policy_mounts (bg_plan bg1) = p_policy_mounts (bg_plan bg)" "p_session_units (bg_plan bg1) = p_session_units (bg_plan bg)"
    and "\<exists>w1 w2. precheck (paths_nextroot ps) (init_before_repoint (p_hidden (bg_plan bg1))) w1 = (None, w2)
           \<and> missing_soft_reboot_units (paths_nextroot ps) w2 = ([], w')"
proof -
  obtain ws p w1 w2 w3 w4 where s: "keep_step kv h ps l es ms (bg_plan bg) w = (Inr (ws, p), w1)"
    "init_passes (paths_nextroot ps) (init_before_repoint (p_hidden p)) w3 = (Inr (), w4)"
    "units_present (paths_nextroot ps) w4 = (Inr (), w')" "bg1 = bg\<lparr>bg_plan := p, bg_warnings := bg_warnings bg @ ws\<rparr>"
    using assms by (auto simp: build_way_back_def Let_def step_Inr)
  have k: "p_masks p = p_masks (bg_plan bg)" "p_policy_mounts p = p_policy_mounts (bg_plan bg)" "p_session_units p = p_session_units (bg_plan bg)"
    using s(1) by (auto simp: keep_step_def keep_def Let_def step_Inr split: prod.splits sum.splits)
  show "p_masks (bg_plan bg1) = p_masks (bg_plan bg)" "bg_decisions bg1 = bg_decisions bg"
    "p_policy_mounts (bg_plan bg1) = p_policy_mounts (bg_plan bg)" "p_session_units (bg_plan bg1) = p_session_units (bg_plan bg)"
    using s(4) k by simp_all
  have "precheck (paths_nextroot ps) (init_before_repoint (p_hidden p)) w3 = (None, w4)"
    using s(2) by (auto simp: init_passes_def split: prod.splits option.splits)
  moreover have "missing_soft_reboot_units (paths_nextroot ps) w4 = ([], w')"
    using s(3) by (auto simp: units_present_def step_Inr split: if_splits)
  ultimately show "\<exists>w1 w2. precheck (paths_nextroot ps) (init_before_repoint (p_hidden (bg_plan bg1))) w1 = (None, w2)
           \<and> missing_soft_reboot_units (paths_nextroot ps) w2 = ([], w')"
    using s(4) by auto
qed

lemma arm_entry_Inr:
  assumes "arm_entry kv h ps bg w = (Inr en, w')"
  shows "en_plan en = (bg_plan bg)\<lparr>p_armed := Some \<lparr>arm_direction = Enter, arm_at = h_now h\<rparr>\<rparr>" "en_decisions en = bg_decisions bg"
    and "node_at w' (paths_plan ps) = Some (File (h_plan_text h (en_plan en)))"
  using assms by (auto simp: arm_entry_def Let_def step_Inr checkpoint_def write_plan_def split: if_splits dest: write_atomic_done)

lemma arm_entry_log:
  assumes "arm_entry kv h ps bg w = (Inr en, w')"
  shows "w_log w' = OpWrite (paths_plan ps) (h_plan_text h (en_plan en)) # w_log w"
  using assms
  by (auto simp: arm_entry_def Let_def step_Inr checkpoint_def write_plan_def write_atomic_def attempt_def put_def
      split: if_splits prod.splits option.splits)

subsection \<open>The services of an entry\<close>

text \<open>What \<^verbatim>\<open>build\<close> and \<^verbatim>\<open>prepare\<close> rely on of an implementation of \<^verbatim>\<open>EntryHost\<close>: it reaches the host through
  logged operations only, and a reload of systemd mounts nothing.\<close>

locale entry_services =
  fixes eh :: entry_host
  assumes hosted_reload: "hosted (eh_reload eh)"
    and hosted_nix: "hosted (eh_build eh b s c)" "hosted (eh_keep eh s p r)" "hosted (eh_activate eh root p)"
    and hosted_stop: "hosted (eh_stop_commands eh u)"
    and hosted_looks: "hosted (eh_failed eh)" "hosted (eh_settings eh)"
    and reload_unmounting: "unmounting w (snd (eh_reload eh w))"
begin

lemma hosted_check_stop_guards: "hosted (check_stop_guards eh us)"
  by (induction us) (auto intro!: hosted_intros hosted_stop)

lemma hosted_guards_hold: "hosted (guards_hold eh)"
  unfolding guards_hold_def by (intro hosted_intros hosted_reload hosted_check_stop_guards)

lemma hosted_build_runtime: "hosted (build_runtime kv h pf eh ps i ms)"
  unfolding build_runtime_def Let_def by (intro hosted_intros hosted_looks)

lemma hosted_build_hidden: "hosted (build_hidden kv eh ps i l ms bg)"
  unfolding build_hidden_def build_system_def Let_def by (intro hosted_intros hosted_nix)

lemma hosted_build_after_dropin: "hosted (build_after_dropin kv h eh ps i ms p)"
  unfolding build_after_dropin_def Let_def
  by (intro hosted_intros hosted_guards_hold hosted_build_hidden)

lemma hosted_build: "hosted (build kv h pf eh ps i)"
proof (rule hostedI)
  fix w r w' assume b: "build kv h pf eh ps i w = (r, w')"
  show "touches UNIV w w'"
    using b hostedD [OF hosted_build_runtime] hostedD [OF hosted_install_dropin] hostedD [OF hosted_build_after_dropin]
    by (fastforce simp: build_def split: sum.splits if_splits prod.splits intro: touches_trans)
qed

text \<open>A failed entry is undone: whatever it had mounted at the next root is detached.\<close>

lemma failed_entry_undone:
  assumes "prepare kv h pf eh ps i w = (Inl e, w')" "detaches w" "mounts_only w"
  shows "points_under (paths_nextroot ps) w' = []"
proof -
  obtain e1 dropin w1 where b: "build kv h pf eh ps i w = ((Inl e1, dropin), w1)"
    using assms(1) by (auto simp: prepare_def split: prod.splits sum.splits)
  have t: "touches UNIV w w1" by (rule hostedD [OF hosted_build b])
  let ?w2 = "snd (rollback h ps w1)"
  have d: "detaches w1" "mounts_only w1" using assms(2,3) detaches_touches [OF t] mounts_only_touches [OF t] by simp_all
  have 2: "points_under (paths_nextroot ps) ?w2 = []" by (rule rollback_empties [OF d])
  have w': "w' = (if dropin then snd (eh_reload eh ?w2) else ?w2)"
    using assms(1) b by (auto simp: prepare_def Let_def)
  have "mounts_only ?w2"
    by (rule rollback_mounts_only [OF d(2)])
  then show ?thesis using w' 2 unmounting_under [OF reload_unmounting] by auto
qed

end

lemma hosted_with_systemctl: "(\<And>s. hosted (f s)) \<Longrightarrow> hosted (with_systemctl h f)"
  by (auto simp: with_systemctl_def intro: hosted_intros split: option.split)

lemma hosted_read_settings: "hosted (read_settings ps)"
proof (induction ps)
  case (Cons p ps)
  show ?case
    by (rule hostedI)
      (auto split: prod.splits option.splits dest!: hostedD [OF Cons.IH] current_setting_quiet [OF _ touches_refl] intro: touches_trans)
qed (simp add: hosted_def)

lemma hosted_services:
  "hosted (\<lambda>w. case v of None \<Rightarrow> ([], w)
     | Some s \<Rightarrow> (case failed_units s w of (us, w1) \<Rightarrow> (case us of None \<Rightarrow> [] | Some out \<Rightarrow> out, w1)))"
  "hosted (\<lambda>w. case daemon_reload s w of (True, w1) \<Rightarrow> (Inr (), w1) | (False, w1) \<Rightarrow> (Inl e, w1))"
  "hosted (\<lambda>w. case run_output s args w of (Some out, w1) \<Rightarrow> (Inr out, w1) | (None, w1) \<Rightarrow> (Inl e, w1))"
  by (rule hostedI; auto simp: failed_units_def daemon_reload_def split: prod.splits bool.splits option.splits
      elim!: hosted_mounts [THEN hostedD])+

interpretation real: entry_services "real_entry_host h" for h
proof (unfold_locales, goal_cases)
  case (8 w)
  show ?case
    by (auto simp: real_entry_host_def with_systemctl_def fails_def daemon_reload_def run_bounded_def act_only_def attempt_def
        unmounting_def adds_mount_def split: option.splits prod.splits bool.splits)
qed (auto simp: real_entry_host_def intro!: hosted_intros hosted_with_systemctl hosted_services hosted_read_settings
    split: option.split)

subsection \<open>Prepared entries\<close>

lemma prepare_Inr:
  assumes "prepare kv h pf eh ps i w = (Inr en, w')"
  obtains ms p w1 q w2 where "h_live h (w_log w) = Inr ms" "\<not> is_mount_point ms (paths_nextroot ps)"
    "build_runtime kv h pf eh ps i ms w = (Inr p, w1)" "install_dropin (paths_run ps) (dropin_binary ps) w1 = (Inr q, w2)"
    "build_after_dropin kv h eh ps i ms p w2 = (Inr en, w')"
  using assms by (auto simp: prepare_def build_def Let_def split: prod.splits sum.splits if_splits)

lemma build_after_dropin_Inr:
  assumes "build_after_dropin kv h eh ps i ms p w = (Inr en, w')"
  obtains w1 bg w2 w3 bg1 w4 bg2 w5 bg3 w6 where
    "build_policy kv ps i \<lparr>hidden_root_of = in_volume i\<rparr> (relative_mounts ms (paths_root ps)) p w1 = (Inr bg, w2)"
    "checkpoint kv w2 = (Inr (), w3)"
    "build_hidden kv eh ps i \<lparr>hidden_root_of = in_volume i\<rparr> (relative_mounts ms (paths_root ps)) bg w3 = (Inr bg1, w4)"
    "build_masks ps i bg1 w4 = (Inr bg2, w5)"
    "build_way_back kv h ps \<lparr>hidden_root_of = in_volume i\<rparr> (bg_fstab bg) (relative_mounts ms (paths_root ps)) bg2 w5 = (Inr bg3, w6)"
    "arm_entry kv h ps bg3 w6 = (Inr en, w')"
  using assms unfolding build_after_dropin_def Let_def step_Inr
  by (elim exE conjE) (rule that; simp)

lemma prepared_plan_armed:
  assumes "prepare kv h pf eh ps i w = (Inr en, w')"
  shows "p_armed (en_plan en) = Some \<lparr>arm_direction = Enter, arm_at = h_now h\<rparr>"
    and "node_at w' (paths_plan ps) = Some (File (h_plan_text h (en_plan en)))"
proof -
  from assms obtain bg v where a: "arm_entry kv h ps bg v = (Inr en, w')" by (elim prepare_Inr build_after_dropin_Inr)
  show "p_armed (en_plan en) = Some \<lparr>arm_direction = Enter, arm_at = h_now h\<rparr>" using arm_entry_Inr(1) [OF a] by simp
  show "node_at w' (paths_plan ps) = Some (File (h_plan_text h (en_plan en)))" by (rule arm_entry_Inr(3) [OF a])
qed

text \<open>The session's own units go into the plan as they were given.\<close>

lemma prepared_session_units:
  assumes "prepare kv h pf eh ps i w = (Inr en, w')"
  shows "p_session_units (en_plan en) = in_session_units i"
proof -
  from assms obtain ms p w1 w2 where r: "build_runtime kv h pf eh ps i ms w = (Inr p, w1)"
    "build_after_dropin kv h eh ps i ms p w2 = (Inr en, w')" by (elim prepare_Inr)
  have p: "p_session_units p = in_session_units i"
    using r(1) by (auto simp: build_runtime_def Let_def step_Inr skeleton_def split: if_splits prod.splits)
  from r(2) show ?thesis
  proof (rule build_after_dropin_Inr)
    fix v1 bg v2 v3 bg1 v4 bg2 v5 bg3 v6
    let ?l = "\<lparr>hidden_root_of = in_volume i\<rparr>" and ?ms = "relative_mounts ms (paths_root ps)"
    assume s: "build_policy kv ps i ?l ?ms p v1 = (Inr bg, v2)" "build_hidden kv eh ps i ?l ?ms bg v3 = (Inr bg1, v4)"
      "build_masks ps i bg1 v4 = (Inr bg2, v5)" "build_way_back kv h ps ?l (bg_fstab bg) ?ms bg2 v5 = (Inr bg3, v6)"
      "arm_entry kv h ps bg3 v6 = (Inr en, w')"
    have "p_session_units (bg_plan bg) = p_session_units p" using s(1) by (auto simp: build_policy_def step_Inr)
    then show ?thesis
      using build_hidden_Inr(5) [OF s(2) build_policy_Inr(2) [OF s(1)]] build_masks_Inr(4) [OF s(3)] build_way_back_Inr(4) [OF s(4)]
        arm_entry_Inr(1) [OF s(5)] p by simp
  qed
qed

text \<open>What the plan's masks and mounts do with an entry that lies on a disk of the decoy's.\<close>

definition shut :: "plan \<Rightarrow> mount_entry list \<Rightarrow> fstab_entry \<Rightarrow> bool" where
  "shut p ms e \<longleftrightarrow>
     (\<exists>m\<in>set (p_policy_mounts p). path_eq (pm_target m) (fs_file e) \<and> pm_kind m \<noteq> KindHiddenVolume)
     \<or> mount_unit (fs_file e) \<in> set (p_masks p)
     \<or> is_noauto e \<and> mounted_at ms (fs_file e) = None"

lemma answered_shut:
  assumes "answers kv k root ms hr ds" "places_all p hr ds" "set (masks es ds) \<subseteq> set (p_masks p)"
    and "e \<in> set (fstab_at kv k root)" "on_decoy_disk hr e"
  shows "shut p ms e"
proof -
  obtain x where x: "\<not> is_refuse (decide e ms hr)" "x \<in> set ds" "same_decision x (decide e ms hr)"
    using assms(1,4) by (auto simp: answers_def)
  have "plain_absolute (fs_file e)"
    using x(1) assms(5) by (auto simp: decide_def is_refuse_def on_decoy_disk_def Let_def split: if_splits)
  from decide_on_disk [OF assms(5) this, of ms]
  consider (place) "places (fs_file e) (decide e ms hr)" | (mask) why where "decide e ms hr = mask_entry e why"
    | (never) "is_noauto e \<and> mounted_at ms (fs_file e) = None" by blast
  then show ?thesis
  proof cases
    case place
    then obtain m where m: "placed_by (decide e ms hr) = Some m" "path_eq (pm_target m) (fs_file e)"
      by (cases "decide e ms hr") (auto simp: placed_by_def)
    obtain m' where "placed_by x = Some m'" "path_eq (pm_target m') (pm_target m)"
      using same_decision_placed [OF x(3) m(1)] by blast
    then show ?thesis using assms(2) x(2) m(2) by (fastforce simp: places_all_def shut_def path_eq_def)
  next
    case mask
    have "mount_unit (fs_file e) \<in> set (decision_masked_units x)"
      using same_decision_masked [OF x(3)] mask by (simp add: mask_entry_def)
    then show ?thesis using x(2) assms(3) by (auto simp: shut_def set_masks)
  next
    case never
    then show ?thesis by (simp add: shut_def)
  qed
qed

lemma prepared_shut:
  assumes "prepare kv h pf (real_entry_host h) ps i w = (Inr en, w')" "h_live h (w_log w) = Inr ms"
    and "root = paths_root ps \<or> root = paths_nextroot ps \<and> in_builder i \<noteq> None"
  shows "\<exists>k. (\<exists>ops. w_log w' = ops @ k) \<and>
           (\<forall>e\<in>set (fstab_at kv k root). on_decoy_disk (in_volume i) e \<longrightarrow> shut (en_plan en) (relative_mounts ms (paths_root ps)) e)"
proof -
  let ?ms = "relative_mounts ms (paths_root ps)" and ?eh = "real_entry_host h" and ?hr = "in_volume i"
  let ?l = "\<lparr>hidden_root_of = in_volume i\<rparr>"
  obtain p w1 where d: "build_after_dropin kv h ?eh ps i ms p w1 = (Inr en, w')"
    using assms(1,2) by (auto elim!: prepare_Inr)
  from d obtain w2 bg w3 w4 bg1 w5 bg2 w6 bg3 w7 where s:
    "build_policy kv ps i ?l ?ms p w2 = (Inr bg, w3)" "checkpoint kv w3 = (Inr (), w4)"
    "build_hidden kv ?eh ps i ?l ?ms bg w4 = (Inr bg1, w5)" "build_masks ps i bg1 w5 = (Inr bg2, w6)"
    "build_way_back kv h ps ?l (bg_fstab bg) ?ms bg2 w6 = (Inr bg3, w7)" "arm_entry kv h ps bg3 w7 = (Inr en, w')"
    by (rule build_after_dropin_Inr)
  have t: "touches UNIV w5 w'" "touches UNIV w2 w'"
    using hostedD [OF hosted_build_policy s(1)] hostedD [OF hosted_steps(3) s(2)] hostedD [OF real.hosted_build_hidden s(3)]
      hostedD [OF hosted_build_masks s(4)] hostedD [OF hosted_build_way_back s(5)] hostedD [OF hosted_arm_entry s(6)]
    by (meson touches_trans)+
  note pol = build_policy_Inr [OF s(1)] and hid = build_hidden_Inr [OF s(3) build_policy_Inr(2) [OF s(1)]]
  have pl: "p_policy_mounts (en_plan en) = p_policy_mounts (bg_plan bg1)" "p_masks (en_plan en) = masks (bg_fstab bg1) (bg_decisions bg1)"
    using build_masks_Inr [OF s(4)] build_way_back_Inr(1,3) [OF s(5)] arm_entry_Inr(1) [OF s(6)] by simp_all
  have places: "places_all (en_plan en) ?hr (bg_decisions bg1)" using hid(1) by (simp add: places_all_def pl(1))
  have "\<exists>k. (\<exists>ops. w_log w' = ops @ k) \<and> answers kv k root ?ms ?hr (bg_decisions bg1)"
  proof (cases "root = paths_root ps")
    case True
    have "answers kv (w_log w2) (paths_root ps) ?ms ?hr (bg_decisions bg1)"
      by (rule answers_mono [OF pol(1)]) (use hid(2) same_decision_refl in blast)
    then show ?thesis using t(2) True by (auto simp: touches_def)
  next
    case False
    then obtain k ops where k: "w_log w5 = ops @ k" "answers kv k root ?ms ?hr (bg_decisions bg1)"
      using hid(4) assms(3) by auto
    moreover obtain later where "w_log w' = later @ w_log w5" using t(1) by (auto simp: touches_def)
    ultimately have "w_log w' = (later @ ops) @ k" by simp
    with k(2) show ?thesis by blast
  qed
  then obtain k where k: "\<exists>ops. w_log w' = ops @ k" "answers kv k root ?ms ?hr (bg_decisions bg1)" by blast
  have "\<forall>e\<in>set (fstab_at kv k root). on_decoy_disk ?hr e \<longrightarrow> shut (en_plan en) ?ms e"
  proof (intro ballI impI)
    fix e assume "e \<in> set (fstab_at kv k root)" "on_decoy_disk ?hr e"
    then show "shut (en_plan en) ?ms e" by (rule answered_shut [OF k(2) places eq_refl [OF arg_cong [OF pl(2) [symmetric], of set]]])
  qed
  with k(1) show ?thesis by blast
qed

subsection \<open>A host to enter from\<close>

text \<open>A decoy whose fstab names a second disk, not mounted now; the hidden volume is at \<^verbatim>\<open>/h\<close>.\<close>

definition entry_fstab :: bytes where
  "entry_fstab = ''/dev/sdb1 /s ext4 rw''"

definition entry_view :: kernel_view where
  "entry_view =
     \<lparr>kv_mountinfo = (\<lambda>_. None), kv_noexec = (\<lambda>_ _. Inr False), kv_real_root = (\<lambda>_. Inr),
      kv_real = (\<lambda>_ root p. Inr (below_root root p)),
      kv_read = (\<lambda>_ _ p. if p = ''/etc/fstab'' then Inr entry_fstab else Inl NotFound),
      kv_space = (\<lambda>_ _. Inr (1, 1)), kv_cancelled = (\<lambda>_. False), kv_net_text = (\<lambda>_. ''{}'')\<rparr>"

definition entry_mounts :: "mount_entry list" where
  "entry_mounts = [sample_entry\<lparr>mount_point := ''/''\<rparr>, sample_entry\<lparr>mount_point := ''/h''\<rparr>]"

definition entry_sample_host :: host where
  "entry_sample_host = sample_host\<lparr>h_live := \<lambda>_. Inr entry_mounts, h_now := 100\<rparr>"

definition sample_inputs :: entry_inputs where
  "sample_inputs =
     \<lparr>in_volume = ''/h'', in_decoy_root = p_decoy_root sample_plan, in_nixos = False, in_builder = None,
      in_binary = ''/nails'', in_config_toml = None, in_session_units = [], in_backend = [], in_fresh_home = False,
      in_operator_home = None, in_rebuild_space_mb = 0, in_read_only_disks = False, in_accepted_decoy_storage = None\<rparr>"

definition entry_world :: "(op list \<Rightarrow> io_error option) \<Rightarrow> world" where
  "entry_world fault =
     \<lparr>w_fs = [(key_of ''/run'', Dir), (key_of ''/nails'', File ''ELF''), (key_of ''/h'', Dir)],
      w_log = [], w_fault = fault, w_dev = (\<lambda>_. 0), w_torn = (\<lambda>_ _. False), w_short = (\<lambda>_. None),
      w_points = (\<lambda>l. foldr (\<lambda>a ps. case a of OpDetach q \<Rightarrow> remove1 q ps | OpMount _ _ _ q \<Rightarrow> q # ps | OpBind _ q \<Rightarrow> q # ps | _ \<Rightarrow> ps) l []),
      w_mode = (\<lambda>_. 0x81ED), w_reply = (\<lambda>_. [])\<rparr>"

definition refused_open :: "op list \<Rightarrow> io_error option" where
  "refused_open l = (case l of OpOpenInRoot _ _ # _ \<Rightarrow> Some TimedOut | _ \<Rightarrow> None)"

lemma entry_world_laws:
  assumes "\<And>q l. fault (OpDetach q # l) = None"
  shows "detaches (entry_world fault)" "mounts_only (entry_world fault)"
proof -
  have "mset (remove1 q ps) \<subseteq># mset ps" for q :: path and ps by simp
  then show "mounts_only (entry_world fault)"
    by (auto simp: mounts_only_def entry_world_def adds_mount_def split: op.splits)
  show "detaches (entry_world fault)" using assms by (auto simp: detaches_def entry_world_def)
qed

abbreviation sample_entered :: "(op list \<Rightarrow> io_error option) \<Rightarrow> (session_error + entry) \<times> world" where
  "sample_entered fault \<equiv> prepare entry_view entry_sample_host sample_procfs (real_entry_host entry_sample_host)
     system_paths sample_inputs (entry_world fault)"

definition sample_side :: root_side where
  "sample_side = \<lparr>rs_init = ''/usr/lib/systemd/systemd'', rs_system = None\<rparr>"

lemma sample_entered_done:
  obtains en w' where "sample_entered (\<lambda>_. None) = (Inr en, w')" "p_masks (en_plan en) = [''s.mount'']" "p_hidden (en_plan en) = sample_side"
proof -
  have "case sample_entered (\<lambda>_. None) of
      (Inr en, _) \<Rightarrow> p_masks (en_plan en) = [''s.mount''] \<and> p_hidden (en_plan en) = sample_side | _ \<Rightarrow> False" by code_simp
  then show ?thesis using that
    by (cases "sample_entered (\<lambda>_. None)"; cases "fst (sample_entered (\<lambda>_. None))") auto
qed

section \<open>Properties\<close>



text \<open>C14: a prepared entry shuts the decoy's disks.  For the decoy's fstab, and for the hidden system's when one was
  built, as it stood and resolved when it was read: each of its entries that lies on a disk of the decoy's has a
  mount of the policy put in its place, or its mount unit is masked, or it is \<^verbatim>\<open>noauto\<close> and not mounted, where
  the mounts are those of the kernel's table when the entry began.\<close>

theorem prepared_entry_shuts_disks:
  assumes "prepare kv h pf (real_entry_host h) ps i w = (Inr en, w')" "h_live h (w_log w) = Inr ms"
    and "root = paths_root ps \<or> root = paths_nextroot ps \<and> in_builder i \<noteq> None"
  shows "\<exists>k ops. w_log w' = ops @ k \<and>
    (\<forall>e\<in>set (fstab_at kv k root). on_decoy_disk (in_volume i) e \<longrightarrow>
       (\<exists>m\<in>set (p_policy_mounts (en_plan en)). path_eq (pm_target m) (fs_file e) \<and> pm_kind m \<noteq> KindHiddenVolume)
       \<or> mount_unit (fs_file e) \<in> set (p_masks (en_plan en))
       \<or> is_noauto e \<and> mounted_at (relative_mounts ms (paths_root ps)) (fs_file e) = None)"
  using prepared_shut [OF assms] unfolding shut_def by blast

theorem prepared_entry_shuts_disks_witness:
  "\<exists>en w' k ops. sample_entered (\<lambda>_. None) = (Inr en, w') \<and> w_log w' = ops @ k \<and>
    (\<forall>e\<in>set (fstab_at entry_view k (paths_root system_paths)). on_decoy_disk ''/h'' e \<longrightarrow>
       (\<exists>m\<in>set (p_policy_mounts (en_plan en)). path_eq (pm_target m) (fs_file e) \<and> pm_kind m \<noteq> KindHiddenVolume)
       \<or> mount_unit (fs_file e) \<in> set (p_masks (en_plan en))
       \<or> is_noauto e \<and> mounted_at (relative_mounts entry_mounts (paths_root system_paths)) (fs_file e) = None)"
proof -
  obtain en w' where e: "sample_entered (\<lambda>_. None) = (Inr en, w')" by (rule sample_entered_done)
  have "h_live entry_sample_host (w_log (entry_world (\<lambda>_. None))) = Inr entry_mounts" "in_volume sample_inputs = ''/h''"
    by (simp_all add: entry_sample_host_def sample_inputs_def)
  with prepared_entry_shuts_disks [OF e this(1) disjI1 [OF refl]] e show ?thesis by auto
qed




definition linked_fstab :: bytes where
  "linked_fstab = ''/dev/sdb1 /l ext4 x-systemd.automount''"

definition linked_view :: kernel_view where
  "linked_view = entry_view\<lparr>kv_real := \<lambda>_ root p. Inr (if p = ''/l'' then ''/s'' else p)\<rparr>"


end
