(* ===== verification/Safe_Root.thy ===== *)
theory Safe_Root
  imports Run_Scrub
begin

text \<open>
  \<^verbatim>\<open>nails-base/src/filesystem/safe_path.rs\<close>: path resolution beneath the hidden volume's root.  A directory handle is
  the key of the directory it is open on.  \<open>openat2\<close> is the kernel's call with the flags the source always gives it
  (\<^verbatim>\<open>RESOLVE_BENEATH\<close>, \<^verbatim>\<open>RESOLVE_NO_SYMLINKS\<close>, \<^verbatim>\<open>RESOLVE_NO_MAGICLINKS\<close>): it walks the tree one name at a time and refuses
  a link wherever it meets one.  What the host refuses for reasons of its own (a kernel without the call among them)
  is \<open>w_fault\<close>, as for every operation of the world.

  The lemmas show that no operation changes anything outside the root, that what a write leaves is reached through
  directories alone, and that a write is all or nothing.
\<close>

section \<open>Definitions\<close>

subsection \<open>The kernel's calls\<close>

definition put_key :: "key \<Rightarrow> node \<Rightarrow> world \<Rightarrow> world" where
  "put_key k n w = w\<lparr>w_fs := AList.update k n (w_fs w)\<rparr>"

definition cut_key :: "key \<Rightarrow> world \<Rightarrow> world" where
  "cut_key k w = w\<lparr>w_fs := AList.delete k (w_fs w)\<rparr>"

record open_how =
  oh_directory :: bool
  oh_create :: bool
  oh_excl :: bool
  oh_write :: bool
  oh_path :: bool

abbreviation how_none :: open_how where
  "how_none \<equiv> \<lparr>oh_directory = False, oh_create = False, oh_excl = False, oh_write = False, oh_path = False\<rparr>"

fun walk_names :: "tree \<Rightarrow> key \<Rightarrow> bytes list \<Rightarrow> io_error + key" where
  "walk_names fs k [] = Inr k"
| "walk_names fs k (n # ns) =
     (case map_of fs (k @ [Normal n]) of
        None \<Rightarrow> Inl NotFound
      | Some Dir \<Rightarrow> walk_names fs (k @ [Normal n]) ns
      | Some (Link _) \<Rightarrow> Inl FilesystemLoop
      | Some _ \<Rightarrow> Inl NotADirectory)"

text \<open>The last name of a path: \<open>dirs\<close> says that the path's text ends in a slash, which asks for a directory.\<close>

definition open_leaf :: "key \<Rightarrow> open_how \<Rightarrow> bool \<Rightarrow> world \<Rightarrow> (io_error + key) \<times> world" where
  "open_leaf k how dirs w =
     (case map_of (w_fs w) k of
        None \<Rightarrow>
          if \<not> oh_create how then (Inl NotFound, w)
          else if dirs then (Inl IsADirectory, w)
          else (Inr k, put_key k (File []) w)
      | Some (Link _) \<Rightarrow> (Inl (if oh_create how \<and> oh_excl how then AlreadyExists else FilesystemLoop), w)
      | Some Dir \<Rightarrow>
          (if oh_create how \<and> oh_excl how then Inl AlreadyExists
           else if oh_create how \<or> oh_write how then Inl IsADirectory else Inr k, w)
      | Some (File _) \<Rightarrow>
          (if oh_create how \<and> oh_excl how then Inl AlreadyExists
           else if oh_directory how \<or> dirs then Inl NotADirectory else Inr k, w)
      | Some Socket \<Rightarrow>
          (if oh_create how \<and> oh_excl how then Inl AlreadyExists
           else if oh_directory how \<or> dirs then Inl NotADirectory
           else if oh_path how then Inr k else Inl (OtherError ''ENXIO: No such device or address''), w))"

definition names_of :: "path \<Rightarrow> bytes list" where
  "names_of p = filter_map (\<lambda>c. case c of Normal n \<Rightarrow> Some n | _ \<Rightarrow> None) (components p)"

definition wants_dir :: "path \<Rightarrow> bool" where
  "wants_dir p \<longleftrightarrow> suffix ''/'' p \<or> suffix ''/.'' p"

text \<open>The call on a path without \<^verbatim>\<open>..\<close> and not absolute; \<^verbatim>\<open>safe_components\<close> lets no other path come to it, and the
  kernel's refusal of those is its \<^verbatim>\<open>EXDEV\<close>.\<close>

definition openat2 :: "key \<Rightarrow> path \<Rightarrow> open_how \<Rightarrow> world \<Rightarrow> (io_error + key) \<times> world" where
  "openat2 fd p how w =
     (case attempt (OpOpenBelow (path_of fd) p) w of
        (Some e, w1) \<Rightarrow> (Inl e, w1)
      | (None, w1) \<Rightarrow>
          if p = [] then (Inl NotFound, w1)
          else if RootDir \<in> set (components p) \<or> ParentDir \<in> set (components p)
          then (Inl (OtherError ''EXDEV: Invalid cross-device link''), w1)
          else if names_of p = [] then
            (if oh_create how \<and> oh_excl how then Inl AlreadyExists
             else if oh_create how \<or> oh_write how then Inl IsADirectory else Inr fd, w1)
          else (case walk_names (w_fs w1) fd (butlast (names_of p)) of
                  Inl e \<Rightarrow> (Inl e, w1)
                | Inr d \<Rightarrow> open_leaf (d @ [Normal (last (names_of p))]) how (wants_dir p) w1))"

definition mkdirat :: "key \<Rightarrow> bytes \<Rightarrow> world \<Rightarrow> io_error option \<times> world" where
  "mkdirat fd name w =
     (let k = fd @ [Normal name] in
      case attempt (OpMkdirAt (path_of fd) name) w of
        (Some e, w1) \<Rightarrow> (Some e, w1)
      | (None, w1) \<Rightarrow> if map_of (w_fs w1) k \<noteq> None then (Some AlreadyExists, w1) else (None, put_key k Dir w1))"

definition unlinkat :: "bool \<Rightarrow> key \<Rightarrow> bytes \<Rightarrow> world \<Rightarrow> io_error option \<times> world" where
  "unlinkat dir fd name w =
     (let k = fd @ [Normal name] in
      case attempt (if dir then OpRemoveDir (path_of k) else OpRemoveFile (path_of k)) w of
        (Some e, w1) \<Rightarrow> (Some e, w1)
      | (None, w1) \<Rightarrow>
          (case map_of (w_fs w1) k of
             None \<Rightarrow> (Some NotFound, w1)
           | Some Dir \<Rightarrow>
               if \<not> dir then (Some IsADirectory, w1)
               else if \<exists>(k', _)\<in>set (w_fs w1). below_key k k' then (Some DirectoryNotEmpty, w1)
               else (None, cut_key k w1)
           | Some _ \<Rightarrow> if dir then (Some NotADirectory, w1) else (None, cut_key k w1)))"

definition renameat :: "key \<Rightarrow> bytes \<Rightarrow> bytes \<Rightarrow> world \<Rightarrow> io_error option \<times> world" where
  "renameat fd from to w =
     (let a = fd @ [Normal from]; b = fd @ [Normal to] in
      case attempt (OpRename (path_of a) (path_of b)) w of
        (Some e, w1) \<Rightarrow> (Some e, w1)
      | (None, w1) \<Rightarrow>
          (case map_of (w_fs w1) a of
             None \<Rightarrow> (Some NotFound, w1)
           | Some n \<Rightarrow>
               if map_of (w_fs w1) b = Some Dir then (Some IsADirectory, w1)
               else if a = b then (None, w1)
               else (None, put_key b n (cut_key a w1))))"

text \<open>A write on an open handle: one that fails leaves what it had written.\<close>

definition write_all :: "key \<Rightarrow> bytes \<Rightarrow> world \<Rightarrow> io_error option \<times> world" where
  "write_all k b w =
     (case attempt (OpWriteAt (path_of k) 0 b) w of
        (None, w1) \<Rightarrow> (None, put_key k (File b) w1)
      | (Some e, w1) \<Rightarrow>
          (Some e, case w_short w1 (w_log w1) of None \<Rightarrow> w1 | Some n \<Rightarrow> put_key k (File (take n b)) w1))"

subsection \<open>Errors\<close>

text \<open>A \<^verbatim>\<open>NailsError::io\<close>: the path it names, the kind of the error and its text.\<close>

datatype nails_io = NailsIo path io_error bytes

definition errno_text :: "io_error \<Rightarrow> bytes" where
  "errno_text e =
     (case e of
        NotFound \<Rightarrow> ''ENOENT: No such file or directory''
      | AlreadyExists \<Rightarrow> ''EEXIST: File exists''
      | NotADirectory \<Rightarrow> ''ENOTDIR: Not a directory''
      | IsADirectory \<Rightarrow> ''EISDIR: Is a directory''
      | DirectoryNotEmpty \<Rightarrow> ''ENOTEMPTY: Directory not empty''
      | PermissionDenied \<Rightarrow> ''EACCES: Permission denied''
      | FilesystemLoop \<Rightarrow> ''ELOOP: Too many symbolic links encountered''
      | Unsupported \<Rightarrow> ''ENOSYS: Function not implemented''
      | TimedOut \<Rightarrow> ''ETIMEDOUT: Connection timed out''
      | InvalidInput m \<Rightarrow> m | InvalidData m \<Rightarrow> m | OtherError m \<Rightarrow> m)"

definition resolve_io_error :: "path \<Rightarrow> path \<Rightarrow> io_error \<Rightarrow> bytes" where
  "resolve_io_error root relative e =
     (if e = Unsupported
      then ''openat2 is unavailable on this kernel; refusing to resolve '' @ utf8_lossy relative @ '' under hidden root ''
        @ utf8_lossy root @ '' without symlink containment (failing closed rather than falling back to std::fs)''
      else ''Refusing '' @ utf8_lossy relative @ '': it escapes hidden root '' @ utf8_lossy root
        @ '' or traverses a symlink ('' @ errno_text e @ '')'')"

record safe_root =
  sr_root :: path
  sr_fd :: key

definition resolve_error :: "safe_root \<Rightarrow> path \<Rightarrow> io_error \<Rightarrow> nails_io" where
  "resolve_error s relative e = NailsIo relative e (resolve_io_error (sr_root s) relative e)"

definition at_path :: "path \<Rightarrow> io_error \<Rightarrow> nails_io" where
  "at_path p e = NailsIo p e (show_io_error e)"

subsection \<open>The checked components\<close>

fun safe_loop :: "path \<Rightarrow> path \<Rightarrow> component list \<Rightarrow> nails_io + bytes list" where
  "safe_loop relative root [] = Inr []"
| "safe_loop relative root (c # cs) =
     (case c of
        Normal n \<Rightarrow> (case safe_loop relative root cs of Inl e \<Rightarrow> Inl e | Inr ns \<Rightarrow> Inr (n # ns))
      | CurDir \<Rightarrow> safe_loop relative root cs
      | ParentDir \<Rightarrow> Inl (NailsIo relative (InvalidInput [])
          (''Refusing path '' @ utf8_lossy relative @ '' under hidden root '' @ utf8_lossy root @ '': a `..` component would climb out''))
      | RootDir \<Rightarrow> Inl (NailsIo relative (InvalidInput [])
          (''Refusing path '' @ utf8_lossy relative @ '' under hidden root '' @ utf8_lossy root @ '': it is not a plain relative path'')))"

text \<open>A path is absolute when its first component is the root.  The components are an argument, so that the check
  applies to \<^verbatim>\<open>relative.parent()\<close>, whose components are all but the last.\<close>

definition checked :: "path \<Rightarrow> path \<Rightarrow> component list \<Rightarrow> nails_io + bytes list" where
  "checked relative root cs =
     (case cs of
        RootDir # _ \<Rightarrow> Inl (NailsIo relative (InvalidInput [])
          (''Refusing absolute path '' @ utf8_lossy relative @ '' under hidden root '' @ utf8_lossy root
            @ '': only relative paths are allowed''))
      | _ \<Rightarrow> safe_loop relative root cs)"

definition safe_components :: "path \<Rightarrow> path \<Rightarrow> nails_io + bytes list" where
  "safe_components relative root = checked relative root (components relative)"

subsection \<open>The operations of a safe root\<close>

text \<open>\<^verbatim>\<open>SafeRoot::open\<close> follows links in the root's own path; \<open>real\<close> is the kernel's answer to that.\<close>

definition sr_open :: "(op list \<Rightarrow> path \<Rightarrow> io_error + key) \<Rightarrow> path \<Rightarrow> world \<Rightarrow> (nails_io + safe_root) \<times> world" where
  "sr_open real root w =
     (let failed = (\<lambda>e. NailsIo root e (''Failed to open hidden root '' @ utf8_lossy root @ '' as a directory: '' @ errno_text e)) in
      case attempt (OpOpen root) w of
        (Some e, w1) \<Rightarrow> (Inl (failed e), w1)
      | (None, w1) \<Rightarrow>
          (case real (w_log w1) root of
             Inl e \<Rightarrow> (Inl (failed e), w1)
           | Inr k \<Rightarrow> (Inr \<lparr>sr_root = root, sr_fd = k\<rparr>, w1)))"

definition resolve :: "safe_root \<Rightarrow> path \<Rightarrow> open_how \<Rightarrow> world \<Rightarrow> (nails_io + key) \<times> world" where
  "resolve s relative how w =
     (case safe_components relative (sr_root s) of
        Inl e \<Rightarrow> (Inl e, w)
      | Inr _ \<Rightarrow>
          (case openat2 (sr_fd s) relative how w of
             (Inl e, w1) \<Rightarrow> (Inl (resolve_error s relative e), w1)
           | (Inr k, w1) \<Rightarrow> (Inr k, w1)))"

definition ensure_child_dir :: "safe_root \<Rightarrow> key \<Rightarrow> bytes \<Rightarrow> path \<Rightarrow> world \<Rightarrow> (nails_io + key) \<times> world" where
  "ensure_child_dir s parent name whole w =
     (let how = how_none\<lparr>oh_directory := True, oh_path := True\<rparr> in
      case openat2 parent name how w of
        (Inr k, w1) \<Rightarrow> (Inr k, w1)
      | (Inl NotFound, w1) \<Rightarrow>
          (case mkdirat parent name w1 of
             (r, w2) \<Rightarrow>
               (case r of
                  None \<Rightarrow> (case openat2 parent name how w2 of
                             (Inl e, w3) \<Rightarrow> (Inl (resolve_error s whole e), w3) | (Inr k, w3) \<Rightarrow> (Inr k, w3))
                | Some AlreadyExists \<Rightarrow> (case openat2 parent name how w2 of
                             (Inl e, w3) \<Rightarrow> (Inl (resolve_error s whole e), w3) | (Inr k, w3) \<Rightarrow> (Inr k, w3))
                | Some e \<Rightarrow> (Inl (resolve_error s whole e), w2)))
      | (Inl e, w1) \<Rightarrow> (Inl (resolve_error s whole e), w1))"

fun ensure_dirs :: "safe_root \<Rightarrow> key \<Rightarrow> path \<Rightarrow> bytes list \<Rightarrow> world \<Rightarrow> (nails_io + key) \<times> world" where
  "ensure_dirs s cur whole [] w = (Inr cur, w)"
| "ensure_dirs s cur whole (n # ns) w =
     (case ensure_child_dir s cur n whole w of
        (Inl e, w1) \<Rightarrow> (Inl e, w1)
      | (Inr k, w1) \<Rightarrow> ensure_dirs s k whole ns w1)"

definition create_dirs :: "safe_root \<Rightarrow> path \<Rightarrow> component list \<Rightarrow> world \<Rightarrow> (nails_io option) \<times> world" where
  "create_dirs s relative cs w =
     (case checked relative (sr_root s) cs of
        Inl e \<Rightarrow> (Some e, w)
      | Inr names \<Rightarrow>
          (case ensure_dirs s (sr_fd s) relative names w of (Inl e, w1) \<Rightarrow> (Some e, w1) | (Inr _, w1) \<Rightarrow> (None, w1)))"

definition sr_create_dir_all :: "safe_root \<Rightarrow> path \<Rightarrow> world \<Rightarrow> (nails_io option) \<times> world" where
  "sr_create_dir_all s relative w = create_dirs s relative (components relative) w"

text \<open>The directory of a path's parent, made where it is missing, unless the parent is empty.\<close>

definition parents_made :: "safe_root \<Rightarrow> path \<Rightarrow> world \<Rightarrow> (nails_io option) \<times> world" where
  "parents_made s relative w =
     (let cs = components relative in
      if length cs \<le> 1 then (None, w) else create_dirs s (path_of (butlast cs)) (butlast cs) w)"

fun open_dirs :: "safe_root \<Rightarrow> path \<Rightarrow> key \<Rightarrow> bytes list \<Rightarrow> world \<Rightarrow> (nails_io + key) \<times> world" where
  "open_dirs s relative cur [] w = (Inr cur, w)"
| "open_dirs s relative cur (n # ns) w =
     (case openat2 cur n (how_none\<lparr>oh_directory := True\<rparr>) w of
        (Inl e, w1) \<Rightarrow> (Inl (resolve_error s relative e), w1)
      | (Inr k, w1) \<Rightarrow> open_dirs s relative k ns w1)"

definition open_root_dir_rw :: "safe_root \<Rightarrow> world \<Rightarrow> (nails_io + key) \<times> world" where
  "open_root_dir_rw s w =
     (case openat2 (sr_fd s) ''.'' (how_none\<lparr>oh_directory := True\<rparr>) w of
        (Inl e, w1) \<Rightarrow> (Inl (resolve_error s ''.'' e), w1)
      | (Inr k, w1) \<Rightarrow> (Inr k, w1))"

definition open_parent_rw :: "safe_root \<Rightarrow> path \<Rightarrow> world \<Rightarrow> (nails_io + key \<times> bytes) \<times> world" where
  "open_parent_rw s relative w =
     (case safe_components relative (sr_root s) of
        Inl e \<Rightarrow> (Inl e, w)
      | Inr [] \<Rightarrow> (Inl (NailsIo relative (OtherError []) (''Refusing to operate on the hidden root itself: '' @ utf8_lossy relative)), w)
      | Inr names \<Rightarrow>
          (case open_root_dir_rw s w of
             (Inl e, w1) \<Rightarrow> (Inl e, w1)
           | (Inr root, w1) \<Rightarrow>
               (case open_dirs s relative root (butlast names) w1 of
                  (Inl e, w2) \<Rightarrow> (Inl e, w2)
                | (Inr d, w2) \<Rightarrow> (Inr (d, last names), w2))))"

definition sr_open_dir :: "safe_root \<Rightarrow> path \<Rightarrow> world \<Rightarrow> (nails_io + key) \<times> world" where
  "sr_open_dir s relative w = resolve s relative (how_none\<lparr>oh_directory := True\<rparr>) w"

definition open_rw_create :: "safe_root \<Rightarrow> path \<Rightarrow> world \<Rightarrow> (nails_io + key) \<times> world" where
  "open_rw_create s relative w =
     (case parents_made s relative w of
        (Some e, w1) \<Rightarrow> (Inl e, w1)
      | (None, w1) \<Rightarrow> resolve s relative (how_none\<lparr>oh_create := True, oh_write := True\<rparr>) w1)"

definition open_rw_existing :: "safe_root \<Rightarrow> path \<Rightarrow> world \<Rightarrow> (nails_io + key) \<times> world" where
  "open_rw_existing s relative w = resolve s relative (how_none\<lparr>oh_write := True\<rparr>) w"

definition sr_create_new :: "safe_root \<Rightarrow> path \<Rightarrow> world \<Rightarrow> (nails_io + key) \<times> world" where
  "sr_create_new s relative w =
     (case parents_made s relative w of
        (Some e, w1) \<Rightarrow> (Inl e, w1)
      | (None, w1) \<Rightarrow>
     (case safe_components relative (sr_root s) of
        Inl e \<Rightarrow> (Inl e, w1)
      | Inr _ \<Rightarrow>
     (case openat2 (sr_fd s) relative (how_none\<lparr>oh_create := True, oh_excl := True, oh_write := True\<rparr>) w1 of
        (Inr k, w2) \<Rightarrow> (Inr k, w2)
      | (Inl AlreadyExists, w2) \<Rightarrow>
          (Inl (NailsIo relative AlreadyExists
            (''an entry already exists at '' @ utf8_lossy relative @ '' under hidden root '' @ utf8_lossy (sr_root s))), w2)
      | (Inl e, w2) \<Rightarrow> (Inl (resolve_error s relative e), w2))))"

text \<open>\<^verbatim>\<open>unique_temp_name\<close>: the process, the clock at each call and the counter of the process.\<close>

record temp_source =
  ts_pid :: nat
  ts_nanos :: "nat \<Rightarrow> nat"
  ts_seq :: nat

definition unique_temp_name :: "temp_source \<Rightarrow> nat \<Rightarrow> bytes" where
  "unique_temp_name ts i =
     ''.nails-tmp.'' @ show_nat (ts_pid ts) @ ''.'' @ show_nat (ts_nanos ts i) @ ''.'' @ show_nat (ts_seq ts + i)"

definition temp_names :: "temp_source \<Rightarrow> bytes list" where
  "temp_names ts = map (unique_temp_name ts) [0..<8]"

text \<open>A temporary file of a name not taken, after eight tries at most.\<close>

fun open_temp :: "safe_root \<Rightarrow> path \<Rightarrow> key \<Rightarrow> bytes list \<Rightarrow> world \<Rightarrow> (nails_io + bytes option) \<times> world" where
  "open_temp s relative fd [] w = (Inr None, w)"
| "open_temp s relative fd (t # ts) w =
     (case openat2 fd t (how_none\<lparr>oh_create := True, oh_excl := True, oh_write := True\<rparr>) w of
        (Inr _, w1) \<Rightarrow> (Inr (Some t), w1)
      | (Inl AlreadyExists, w1) \<Rightarrow> open_temp s relative fd ts w1
      | (Inl e, w1) \<Rightarrow> (Inl (resolve_error s relative e), w1))"

definition fill_temp :: "safe_root \<Rightarrow> path \<Rightarrow> key \<Rightarrow> bytes \<Rightarrow> bytes \<Rightarrow> bytes \<Rightarrow> 32 word \<Rightarrow> world \<Rightarrow> (nails_io option) \<times> world" where
  "fill_temp s relative fd temp leaf content mode w =
     (let target = join (sr_root s) relative; k = fd @ [Normal temp] in
      case write_all k content w of
        (Some e, w1) \<Rightarrow> (Some (at_path target e), w1)
      | (None, w1) \<Rightarrow>
     (case act_only (OpChmod (path_of k) mode) w1 of
        (Some e, w2) \<Rightarrow> (Some (NailsIo target e (errno_text e)), w2)
      | (None, w2) \<Rightarrow>
     (case act_only OpSync w2 of
        (Some e, w3) \<Rightarrow> (Some (at_path target e), w3)
      | (None, w3) \<Rightarrow>
     (case renameat fd temp leaf w3 of
        (Some e, w4) \<Rightarrow>
          (Some (NailsIo relative e (''Failed to move temp file into place at '' @ utf8_lossy relative @ '': '' @ errno_text e)), w4)
      | (None, w4) \<Rightarrow> (None, snd (act_only OpSync w4))))))"

definition sr_write_atomic :: "safe_root \<Rightarrow> temp_source \<Rightarrow> path \<Rightarrow> bytes \<Rightarrow> 32 word \<Rightarrow> world \<Rightarrow> (nails_io option) \<times> world" where
  "sr_write_atomic s ts relative content mode w =
     (case parents_made s relative w of
        (Some e, w1) \<Rightarrow> (Some e, w1)
      | (None, w1) \<Rightarrow>
     (case open_parent_rw s relative w1 of
        (Inl e, w2) \<Rightarrow> (Some e, w2)
      | (Inr (fd, leaf), w2) \<Rightarrow>
     (case open_temp s relative fd (temp_names ts) w2 of
        (Inl e, w3) \<Rightarrow> (Some e, w3)
      | (Inr None, w3) \<Rightarrow>
          (Some (NailsIo relative (OtherError [])
            (''Failed to create a unique temp file under hidden root for '' @ utf8_lossy relative @ '' (Some(EEXIST))'')), w3)
      | (Inr (Some temp), w3) \<Rightarrow>
          (case fill_temp s relative fd temp leaf content mode w3 of
             (None, w4) \<Rightarrow> (None, w4)
           | (Some e, w4) \<Rightarrow> (Some e, snd (unlinkat False fd temp w4))))))"

definition sr_read_to_string :: "safe_root \<Rightarrow> path \<Rightarrow> world \<Rightarrow> (nails_io + bytes) \<times> world" where
  "sr_read_to_string s relative w =
     (case resolve s relative how_none w of
        (Inl e, w1) \<Rightarrow> (Inl e, w1)
      | (Inr k, w1) \<Rightarrow>
          (case attempt (OpRead (path_of k)) w1 of
             (Some e, w2) \<Rightarrow> (Inl (at_path (join (sr_root s) relative) e), w2)
           | (None, w2) \<Rightarrow>
               ((case map_of (w_fs w2) k of
                   Some (File b) \<Rightarrow>
                     if utf8_valid b then Inr b
                     else Inl (at_path (join (sr_root s) relative) (InvalidData ''stream did not contain valid UTF-8''))
                 | _ \<Rightarrow> Inl (at_path (join (sr_root s) relative) IsADirectory)), w2)))"

definition sr_unlink :: "bool \<Rightarrow> safe_root \<Rightarrow> path \<Rightarrow> world \<Rightarrow> (nails_io option) \<times> world" where
  "sr_unlink dir s relative w =
     (case open_parent_rw s relative w of
        (Inl e, w1) \<Rightarrow> (Some e, w1)
      | (Inr (fd, leaf), w1) \<Rightarrow>
          (case unlinkat dir fd leaf w1 of
             (None, w2) \<Rightarrow> (None, w2)
           | (Some NotFound, w2) \<Rightarrow> (None, w2)
           | (Some e, w2) \<Rightarrow> (Some (resolve_error s relative e), w2)))"

definition sr_remove_file :: "safe_root \<Rightarrow> path \<Rightarrow> world \<Rightarrow> (nails_io option) \<times> world" where
  "sr_remove_file = sr_unlink False"

definition sr_remove_dir :: "safe_root \<Rightarrow> path \<Rightarrow> world \<Rightarrow> (nails_io option) \<times> world" where
  "sr_remove_dir = sr_unlink True"

definition sr_exists :: "safe_root \<Rightarrow> path \<Rightarrow> world \<Rightarrow> (nails_io + bool) \<times> world" where
  "sr_exists s relative w =
     (case safe_components relative (sr_root s) of
        Inl e \<Rightarrow> (Inl e, w)
      | Inr _ \<Rightarrow>
          (case openat2 (sr_fd s) relative (how_none\<lparr>oh_path := True\<rparr>) w of
             (Inr _, w1) \<Rightarrow> (Inr True, w1)
           | (Inl NotFound, w1) \<Rightarrow> (Inr False, w1)
           | (Inl e, w1) \<Rightarrow> (Inl (resolve_error s relative e), w1)))"

definition sr_is_dir :: "safe_root \<Rightarrow> path \<Rightarrow> world \<Rightarrow> (nails_io + bool) \<times> world" where
  "sr_is_dir s relative w =
     (case safe_components relative (sr_root s) of
        Inl e \<Rightarrow> (Inl e, w)
      | Inr _ \<Rightarrow>
          (case openat2 (sr_fd s) relative (how_none\<lparr>oh_directory := True, oh_path := True\<rparr>) w of
             (Inr _, w1) \<Rightarrow> (Inr True, w1)
           | (Inl NotFound, w1) \<Rightarrow> (Inr False, w1)
           | (Inl NotADirectory, w1) \<Rightarrow> (Inr False, w1)
           | (Inl e, w1) \<Rightarrow> (Inl (resolve_error s relative e), w1)))"

section \<open>Lemmas\<close>

subsection \<open>Names\<close>

lemma component_name_plain: "Normal n \<in> set (components p) \<Longrightarrow> name_ok n"
  by (auto simp: components_def set_filter_map component_of_def name_ok_def split: if_splits dest: split_on_no_delim)

lemma names_of_ok: "n \<in> set (names_of p) \<Longrightarrow> name_ok n"
proof -
  assume "n \<in> set (names_of p)"
  then obtain c where c: "c \<in> set (components p)" "(case c of Normal n \<Rightarrow> Some n | _ \<Rightarrow> None) = Some n"
    unfolding names_of_def set_filter_map by blast
  have "c = Normal n" using c(2) by (simp split: component.splits)
  with c(1) show ?thesis using component_name_plain by blast
qed

lemma components_name: "name_ok n \<Longrightarrow> components n = [Normal n]"
proof -
  assume ok: "name_ok n"
  have "split_on slash n = [n]" using ok by (simp add: name_ok_def split_on_id)
  moreover have "n \<noteq> ''.''" "component_of n = Some (Normal n)" using ok by (auto simp: name_ok_def component_of_def)
  ultimately show ?thesis using name_ok_not_absolute [OF ok] by (simp add: components_def)
qed

lemma names_of_name: "name_ok n \<Longrightarrow> names_of n = [n]"
  by (simp add: names_of_def components_name)

lemma wants_dir_name: "name_ok n \<Longrightarrow> \<not> wants_dir n"
  by (auto simp: name_ok_def wants_dir_def suffix_def)

lemma temp_names_ok: "t \<in> set (temp_names ts) \<Longrightarrow> name_ok t"
proof -
  have "slash \<notin> set (show_nat n)" for n using show_nat_digits [of slash n] by (auto simp: is_digit_def)
  then show "t \<in> set (temp_names ts) \<Longrightarrow> name_ok t"
    by (auto simp: temp_names_def unique_temp_name_def name_ok_def component_of_def)
qed

lemma safe_loop_Inr: "safe_loop relative root cs = Inr ns \<Longrightarrow>
   set cs \<subseteq> {CurDir} \<union> range Normal \<and> map Normal ns = filter (\<lambda>c. c \<noteq> CurDir) cs"
  by (induction cs arbitrary: ns) (auto split: component.splits sum.splits)

lemma checked_Inr:
  assumes "checked relative root cs = Inr ns"
  shows "RootDir \<notin> set cs" "ParentDir \<notin> set cs" "map Normal ns = filter (\<lambda>c. c \<noteq> CurDir) cs"
  using assms safe_loop_Inr [of relative root cs ns]
  by (auto simp: checked_def split: list.splits component.splits)

lemma safe_components_Inr:
  assumes "safe_components p root = Inr ns"
  shows "RootDir \<notin> set (components p)" "ParentDir \<notin> set (components p)" "names_of p = ns" "\<forall>n\<in>set ns. name_ok n"
proof -
  note c = checked_Inr [OF assms [unfolded safe_components_def]]
  show "RootDir \<notin> set (components p)" "ParentDir \<notin> set (components p)" by (rule c)+
  have "map Normal (filter_map (\<lambda>c. case c of Normal n \<Rightarrow> Some n | _ \<Rightarrow> None) cs) = filter (\<lambda>c. c \<noteq> CurDir) cs"
    if "RootDir \<notin> set cs" "ParentDir \<notin> set cs" for cs
    using that by (induction cs) (auto split: component.splits)
  from this [OF c(1,2)] c(3) have "map Normal (names_of p) = map Normal ns" by (simp add: names_of_def)
  then show n: "names_of p = ns" by (simp add: inj_map_eq_map inj_def)
  show "\<forall>n\<in>set ns. name_ok n" using names_of_ok n by blast
qed

subsection \<open>What the calls touch\<close>

abbreviation below_fd :: "key \<Rightarrow> key set" where
  "below_fd k \<equiv> {q. strict_prefix k q}"

lemma put_key_touches: "touches K w w1 \<Longrightarrow> k \<in> K \<Longrightarrow> touches K w (put_key k n w1)"
  by (auto simp: touches_def put_key_def update_conv')

lemma cut_key_touches: "touches K w w1 \<Longrightarrow> k \<in> K \<Longrightarrow> touches K w (cut_key k w1)"
  by (auto simp: touches_def cut_key_def delete_conv')

lemma map_of_put_key [simp]: "map_of (w_fs (put_key k n w)) q = (if k = q then Some n else map_of (w_fs w) q)"
  by (auto simp: put_key_def update_conv')

lemma map_of_cut_key [simp]: "map_of (w_fs (cut_key k w)) q = (if k = q then None else map_of (w_fs w) q)"
  by (auto simp: cut_key_def delete_conv')

lemma walk_names_Inr:
  assumes "walk_names fs k ns = Inr d"
  shows "d = k @ map Normal ns" "\<And>q. strict_prefix k q \<Longrightarrow> prefix q d \<Longrightarrow> map_of fs q = Some Dir"
proof -
  have *: "d = k @ map Normal ns \<and> (\<forall>q. strict_prefix k q \<and> prefix q d \<longrightarrow> map_of fs q = Some Dir)"
    using assms
  proof (induction fs k ns rule: walk_names.induct)
    case (2 fs k n ns)
    let ?k = "k @ [Normal n]"
    have w: "map_of fs ?k = Some Dir" "walk_names fs ?k ns = Inr d" using 2(2) by (auto split: option.splits node.splits)
    note ih = 2(1) [OF w(1) refl w(2)]
    have "map_of fs q = Some Dir" if "strict_prefix k q" "prefix q d" for q
    proof (cases "q = ?k")
      case False
      have "prefix ?k q \<or> prefix q ?k" using that(2) ih prefix_same_cases [of q d ?k] by auto
      then have "strict_prefix ?k q"
        using that(1) False by (auto simp: strict_prefix_def prefix_snoc prefix_order.antisym)
      then show ?thesis using ih that(2) by blast
    qed (use w in simp)
    with ih show ?case by simp
  qed auto
  then show "d = k @ map Normal ns" by simp
  from * show "\<And>q. strict_prefix k q \<Longrightarrow> prefix q d \<Longrightarrow> map_of fs q = Some Dir" by blast
qed

lemma open_leaf_touches:
  assumes "open_leaf k how dirs w = (r, w')"
  shows "touches {k} w w'" "\<not> oh_create how \<Longrightarrow> w' = w" "r = Inr k' \<Longrightarrow> k' = k"
    "r = Inr k' \<Longrightarrow> \<exists>n. map_of (w_fs w') k = Some n \<and> \<not> (\<exists>t. n = Link t) \<and> (oh_directory how \<and> \<not> oh_create how \<longrightarrow> n = Dir)"
    "r = Inr k' \<Longrightarrow> oh_create how \<Longrightarrow> oh_excl how \<Longrightarrow> map_of (w_fs w) k = None \<and> w' = put_key k (File []) w"
  using assms by (auto simp: open_leaf_def split: option.splits node.splits if_splits intro: put_key_touches)

lemma openat2_Inr:
  assumes "openat2 fd p how w = (Inr k, w')" "names_of p \<noteq> []"
  obtains w1 where "w_fs w1 = w_fs w" "touches {} w w1"
    "open_leaf (fd @ map Normal (names_of p)) how (wants_dir p) w1 = (Inr k, w')"
    "\<And>q. strict_prefix fd q \<Longrightarrow> strict_prefix q (fd @ map Normal (names_of p)) \<Longrightarrow> map_of (w_fs w) q = Some Dir"
proof -
  let ?ns = "names_of p"
  obtain w1 where a: "attempt (OpOpenBelow (path_of fd) p) w = (None, w1)"
    using assms(1) by (auto simp: openat2_def split: prod.splits option.splits)
  have t: "touches {} w w1" "w_fs w1 = w_fs w" using attempt_touches [OF a] by auto
  obtain d where d: "walk_names (w_fs w1) fd (butlast ?ns) = Inr d" "open_leaf (d @ [Normal (last ?ns)]) how (wants_dir p) w1 = (Inr k, w')"
    using assms a by (auto simp: openat2_def split: if_splits sum.splits)
  have k: "d @ [Normal (last ?ns)] = fd @ map Normal ?ns"
  proof -
    have "map Normal ?ns = map Normal (butlast ?ns) @ [Normal (last ?ns)]"
      using append_butlast_last_id [OF assms(2)] by (metis list.simps(8,9) map_append)
    then show ?thesis using walk_names_Inr(1) [OF d(1)] by simp
  qed
  have "map_of (w_fs w) q = Some Dir" if "strict_prefix fd q" "strict_prefix q (fd @ map Normal ?ns)" for q
    using walk_names_Inr(2) [OF d(1) that(1)] that(2) t(2) unfolding k [symmetric] by (auto simp: strict_prefix_def prefix_snoc)
  then show ?thesis using that t d(2) unfolding k by blast
qed

lemma openat2_touches:
  assumes "openat2 fd p how w = (r, w')"
  shows "touches (below_fd fd) w w'" "\<not> oh_create how \<Longrightarrow> w_fs w' = w_fs w"
proof -
  obtain x w1 where a: "attempt (OpOpenBelow (path_of fd) p) w = (x, w1)" by fastforce
  note t = attempt_touches [OF a, of "below_fd fd"]
  consider "w' = w1" | d n how where "walk_names (w_fs w1) fd (butlast (names_of p)) = Inr d" "open_leaf (d @ [Normal n]) how (wants_dir p) w1 = (r, w')"
    using assms a by (auto simp: openat2_def split: if_splits sum.splits option.splits)
  then show "touches (below_fd fd) w w'"
  proof cases
    case (2 d n)
    have "strict_prefix fd (d @ [Normal n])" using walk_names_Inr(1) [OF 2(1)] by (simp add: strict_prefix_def)
    then show ?thesis using touches_trans [OF conjunct1 [OF t]] touches_mono [OF open_leaf_touches(1) [OF 2(2)]] by blast
  qed (use t in simp)
  show "\<not> oh_create how \<Longrightarrow> w_fs w' = w_fs w"
    using assms a t by (auto simp: openat2_def split: if_splits sum.splits option.splits dest: open_leaf_touches(2))
qed

lemma openat2_name_Inr:
  assumes "openat2 fd n how w = (Inr k, w')" "name_ok n"
  shows "k = fd @ [Normal n]" "\<exists>m. map_of (w_fs w') k = Some m \<and> \<not> (\<exists>t. m = Link t) \<and> (oh_directory how \<and> \<not> oh_create how \<longrightarrow> m = Dir)"
    "oh_create how \<Longrightarrow> oh_excl how \<Longrightarrow> map_of (w_fs w) k = None \<and> map_of (w_fs w') k = Some (File [])"
proof -
  have ne: "names_of n \<noteq> []" using names_of_name [OF assms(2)] by simp
  obtain w1 where w1: "w_fs w1 = w_fs w" "open_leaf (fd @ map Normal (names_of n)) how (wants_dir n) w1 = (Inr k, w')"
    using openat2_Inr [OF assms(1) ne] by blast
  note o = open_leaf_touches(3-5) [OF w1(2)]
  show "k = fd @ [Normal n]" using o(1) names_of_name [OF assms(2)] by simp
  show "\<exists>m. map_of (w_fs w') k = Some m \<and> \<not> (\<exists>t. m = Link t) \<and> (oh_directory how \<and> \<not> oh_create how \<longrightarrow> m = Dir)"
    using o(1,2) by blast
  show "oh_create how \<Longrightarrow> oh_excl how \<Longrightarrow> map_of (w_fs w) k = None \<and> map_of (w_fs w') k = Some (File [])"
    using o(1,3) w1(1) by auto
qed

lemma mkdirat_touches:
  assumes "mkdirat fd n w = (r, w')"
  shows "touches {fd @ [Normal n]} w w'"
  using assms attempt_touches [where K = "{fd @ [Normal n]}"]
  by (auto simp: mkdirat_def Let_def split: prod.splits option.splits if_splits intro!: put_key_touches)

lemma unlinkat_touches:
  assumes "unlinkat dir fd n w = (r, w')"
  shows "touches {fd @ [Normal n]} w w'"
  using assms attempt_touches [where K = "{fd @ [Normal n]}"]
  by (auto simp: unlinkat_def Let_def split: prod.splits option.splits if_splits node.splits intro!: cut_key_touches)

lemma renameat_touches:
  assumes "renameat fd a b w = (r, w')"
  shows "touches {fd @ [Normal a], fd @ [Normal b]} w w'" "r \<noteq> None \<Longrightarrow> w_fs w' = w_fs w"
    "r = None \<Longrightarrow> map_of (w_fs w') (fd @ [Normal b]) = map_of (w_fs w) (fd @ [Normal a])"
  using assms attempt_touches [where K = "{fd @ [Normal a], fd @ [Normal b]}"]
  by (auto simp: renameat_def Let_def split: prod.splits option.splits if_splits intro!: cut_key_touches put_key_touches)

lemma write_all_touches:
  assumes "write_all k b w = (r, w')"
  shows "touches {k} w w'" "r = None \<Longrightarrow> map_of (w_fs w') k = Some (File b)"
  using assms attempt_touches [where K = "{k}"]
  by (auto simp: write_all_def split: prod.splits option.splits intro!: put_key_touches)

lemma single_below: "strict_prefix fd (fd @ [c])" "prefix fd k \<Longrightarrow> strict_prefix fd (k @ [c])"
  by (auto simp: strict_prefix_def prefix_snoc)

lemma openat2_Inl: "openat2 fd p how w = (Inl e, w') \<Longrightarrow> touches K w w' \<and> w_fs w' = w_fs w"
proof -
  obtain x w1 where a: "attempt (OpOpenBelow (path_of fd) p) w = (x, w1)" by fastforce
  assume "openat2 fd p how w = (Inl e, w')"
  then have "w' = w1"
    using a by (auto simp: openat2_def open_leaf_def split: option.splits if_splits sum.splits node.splits)
  then show ?thesis using attempt_touches [OF a] by simp
qed

lemma openat2_quiet: "openat2 fd p how w = (r, w') \<Longrightarrow> \<not> oh_create how \<Longrightarrow> touches K w w' \<and> w_fs w' = w_fs w"
  using openat2_touches [of fd p how w r w'] by (auto simp: touches_def)

subsection \<open>Directories on the way\<close>

lemma ensure_child_dir_touches:
  assumes "ensure_child_dir s fd n whole w = (r, w')" "name_ok n"
  shows "touches {fd @ [Normal n]} w w'" "r = Inr k \<Longrightarrow> k = fd @ [Normal n] \<and> map_of (w_fs w') k = Some Dir"
proof -
  let ?K = "{fd @ [Normal n]}" and ?how = "how_none\<lparr>oh_directory := True, oh_path := True\<rparr>"
  obtain r1 w1 where 1: "openat2 fd n ?how w = (r1, w1)" by fastforce
  obtain r2 w2 where 2: "mkdirat fd n w1 = (r2, w2)" by fastforce
  obtain r3 w3 where 3: "openat2 fd n ?how w2 = (r3, w3)" by fastforce
  have t: "touches ?K w w1" "touches ?K w1 w2" "touches ?K w2 w3"
    using openat2_quiet [OF 1] mkdirat_touches [OF 2] openat2_quiet [OF 3] by simp_all
  note t13 = touches_trans [OF touches_trans [OF t(1,2)] t(3)] and t12 = touches_trans [OF t(1,2)]
  show "touches ?K w w'"
    using assms(1) 1 2 3 t(1) t12 t13
    by (auto simp: ensure_child_dir_def Let_def split: sum.splits option.splits io_error.splits)
  have "r1 = Inr k \<and> w' = w1 \<or> r3 = Inr k \<and> w' = w3" if "r = Inr k"
    using assms(1) 1 2 3 that
    by (auto simp: ensure_child_dir_def Let_def split: sum.splits option.splits io_error.splits)
  then show "r = Inr k \<Longrightarrow> k = fd @ [Normal n] \<and> map_of (w_fs w') k = Some Dir"
    using openat2_name_Inr(1,2) [OF _ assms(2)] 1 3 by fastforce
qed

text \<open>The directories from one key down to another.\<close>

definition dirs_down :: "tree \<Rightarrow> key \<Rightarrow> key \<Rightarrow> bool" where
  "dirs_down fs fd d \<longleftrightarrow> (\<forall>q. strict_prefix fd q \<and> prefix q d \<longrightarrow> map_of fs q = Some Dir)"

lemma dirs_down_step:
  assumes "dirs_down fs (fd @ [c]) d" "map_of fs (fd @ [c]) = Some Dir" "prefix (fd @ [c]) d"
  shows "dirs_down fs fd d"
  unfolding dirs_down_def
proof (intro allI impI)
  fix q assume q: "strict_prefix fd q \<and> prefix q d"
  have "prefix (fd @ [c]) q \<or> prefix q (fd @ [c])" using q assms(3) prefix_same_cases by blast
  then have "q = fd @ [c] \<or> strict_prefix (fd @ [c]) q"
    using q by (auto simp: strict_prefix_def prefix_snoc prefix_order.antisym)
  then show "map_of fs q = Some Dir" using assms(1,2) q by (auto simp: dirs_down_def)
qed

lemma dirs_down_touches: "dirs_down (w_fs w) fd d \<Longrightarrow> touches K w w' \<Longrightarrow> (\<And>q. q \<in> K \<Longrightarrow> \<not> prefix q d) \<Longrightarrow> dirs_down (w_fs w') fd d"
  by (fastforce simp: dirs_down_def touches_def)

lemma ensure_dirs_touches:
  assumes "ensure_dirs s fd whole ns w = (r, w')" "\<forall>n\<in>set ns. name_ok n"
  shows "touches {q. strict_prefix fd q \<and> prefix q (fd @ map Normal ns)} w w'"
  using assms
proof (induction ns arbitrary: fd w)
  case (Cons n ns)
  let ?k = "fd @ [Normal n]" and ?K = "{q. strict_prefix fd q \<and> prefix q (fd @ map Normal (n # ns))}"
  obtain r1 w1 where 1: "ensure_child_dir s fd n whole w = (r1, w1)" by fastforce
  have t1: "touches ?K w w1"
    by (rule touches_mono [OF ensure_child_dir_touches(1) [OF 1]]) (use Cons.prems in \<open>auto simp: strict_prefix_def\<close>)
  show ?case
  proof (cases r1)
    case (Inr k)
    have "k = ?k" using ensure_child_dir_touches(2) [OF 1] Cons.prems(2) Inr by simp
    then have "touches {q. strict_prefix ?k q \<and> prefix q (?k @ map Normal ns)} w1 w'"
      using Cons.IH [of ?k w1] Cons.prems 1 Inr by simp
    then have "touches ?K w1 w'"
      by (rule touches_mono) (auto simp: strict_prefix_def intro: append_prefixD)
    then show ?thesis by (rule touches_trans [OF t1])
  qed (use Cons.prems 1 t1 in simp)
qed simp

lemma open_dirs_Inr:
  assumes "open_dirs s relative fd ns w = (Inr d, w')" "\<forall>n\<in>set ns. name_ok n"
  shows "d = fd @ map Normal ns" "dirs_down (w_fs w') fd d"
proof -
  have "d = fd @ map Normal ns \<and> dirs_down (w_fs w') fd d \<and> w_fs w' = w_fs w"
    using assms
  proof (induction ns arbitrary: fd w)
    case Nil
    then show ?case by (auto simp: dirs_down_def strict_prefix_def prefix_order.antisym)
  next
    case (Cons n ns)
    let ?how = "how_none\<lparr>oh_directory := True\<rparr>"
    obtain k w1 where 1: "openat2 fd n ?how w = (Inr k, w1)" "open_dirs s relative k ns w1 = (Inr d, w')"
      using Cons.prems(1) by (auto split: prod.splits sum.splits)
    have k: "k = fd @ [Normal n]" "map_of (w_fs w1) k = Some Dir"
      using openat2_name_Inr(1,2) [OF 1(1)] Cons.prems(2) by auto
    have ih: "d = k @ map Normal ns \<and> dirs_down (w_fs w') k d \<and> w_fs w' = w_fs w1"
      by (rule Cons.IH [OF 1(2)]) (use Cons.prems(2) in simp)
    have "dirs_down (w_fs w') fd d" by (rule dirs_down_step) (use ih k in auto)
    then show ?case using ih k openat2_quiet [OF 1(1)] by simp
  qed
  then show "d = fd @ map Normal ns" "dirs_down (w_fs w') fd d" by blast+
qed

lemma open_dirs_quiet: "open_dirs s relative fd ns w = (r, w') \<Longrightarrow> touches K w w' \<and> w_fs w' = w_fs w"
proof (induction ns arbitrary: fd w)
  case (Cons n ns)
  obtain r1 w1 where 1: "openat2 fd n (how_none\<lparr>oh_directory := True\<rparr>) w = (r1, w1)" by fastforce
  show ?case using Cons openat2_quiet [OF 1, of K] 1 touches_trans by (cases r1) fastforce+
qed simp

lemma open_parent_rw_quiet: "open_parent_rw s p w = (r, w') \<Longrightarrow> touches K w w' \<and> w_fs w' = w_fs w"
  by (auto simp: open_parent_rw_def open_root_dir_rw_def split: sum.splits list.splits prod.splits
      dest!: openat2_quiet [where K = K] open_dirs_quiet [where K = K] intro: touches_trans)

lemma open_parent_rw_Inr:
  assumes "open_parent_rw s p w = (Inr (d, leaf), w')"
  obtains ns where "safe_components p (sr_root s) = Inr ns" "ns \<noteq> []" "leaf = last ns"
    "d = sr_fd s @ map Normal (butlast ns)" "dirs_down (w_fs w') (sr_fd s) d"
proof -
  obtain ns root w1 where s: "safe_components p (sr_root s) = Inr ns" "ns \<noteq> []" "leaf = last ns"
    "open_root_dir_rw s w = (Inr root, w1)" "open_dirs s p root (butlast ns) w1 = (Inr d, w')"
    using assms by (auto simp: open_parent_rw_def split: sum.splits list.splits prod.splits)
  have "root = sr_fd s"
    using s(4) by (auto simp: open_root_dir_rw_def openat2_def names_of_def components_def component_of_def is_absolute_def
        split: prod.splits sum.splits option.splits if_splits)
  moreover have "\<forall>n\<in>set (butlast ns). name_ok n" using safe_components_Inr(4) [OF s(1)] in_set_butlastD by fast
  ultimately show ?thesis using that s open_dirs_Inr [OF s(5)] by simp
qed

subsection \<open>What the operations touch\<close>

lemma create_dirs_touches:
  assumes "create_dirs s p cs w = (r, w')" "\<And>n. Normal n \<in> set cs \<Longrightarrow> name_ok n"
  shows "touches (below_fd (sr_fd s)) w w'"
    "touches {q. \<exists>m ns. prefix q (sr_fd s @ m) \<and> m = map Normal ns \<and> m = filter (\<lambda>c. c \<noteq> CurDir) cs} w w'"
proof -
  have "touches {q. strict_prefix (sr_fd s) q \<and> prefix q (sr_fd s @ map Normal ns)} w w'"
    if "checked p (sr_root s) cs = Inr ns" for ns
  proof -
    have "set (map Normal ns) \<subseteq> set cs" using checked_Inr(3) [OF that] by (metis filter_is_subset)
    then have "\<forall>n\<in>set ns. name_ok n" using assms(2) by auto
    then show ?thesis
      using assms(1) that ensure_dirs_touches by (fastforce simp: create_dirs_def split: prod.splits sum.splits)
  qed
  note t = this
  show "touches (below_fd (sr_fd s)) w w'"
    using t assms(1) by (cases "checked p (sr_root s) cs") (auto simp: create_dirs_def intro: touches_mono)
  show "touches {q. \<exists>m ns. prefix q (sr_fd s @ m) \<and> m = map Normal ns \<and> m = filter (\<lambda>c. c \<noteq> CurDir) cs} w w'"
  proof (cases "checked p (sr_root s) cs")
    case (Inr ns)
    show ?thesis by (rule touches_mono [OF t [OF Inr]]) (use checked_Inr(3) [OF Inr] in blast)
  qed (use assms(1) in \<open>simp add: create_dirs_def\<close>)
qed

lemma last_component: "1 < length (components p) \<Longrightarrow> last (components p) \<noteq> CurDir"
proof -
  let ?cs = "filter_map component_of (split_on slash p)"
  assume "1 < length (components p)"
  then have "?cs \<noteq> []" by (auto simp: components_def split: if_splits)
  then have "last (components p) \<in> set ?cs" by (simp add: components_def)
  then show ?thesis by (auto simp: set_filter_map component_of_def split: if_splits)
qed

lemma parents_made_touches:
  assumes "parents_made s p w = (r, w')"
  shows "touches (below_fd (sr_fd s)) w w'"
    "safe_components p (sr_root s) = Inr ns \<Longrightarrow> map_of (w_fs w') (sr_fd s @ map Normal ns) = map_of (w_fs w) (sr_fd s @ map Normal ns)"
proof -
  let ?cs = "components p"
  have ok: "Normal n \<in> set (butlast ?cs) \<Longrightarrow> name_ok n" for n using component_name_plain in_set_butlastD by fast
  have c: "w' = w \<or> 1 < length ?cs \<and> (\<exists>q. create_dirs s q (butlast ?cs) w = (r, w'))"
    using assms by (auto simp: parents_made_def Let_def split: if_splits)
  then show "touches (below_fd (sr_fd s)) w w'" using create_dirs_touches(1) ok by auto
  assume ns: "safe_components p (sr_root s) = Inr ns"
  show "map_of (w_fs w') (sr_fd s @ map Normal ns) = map_of (w_fs w) (sr_fd s @ map Normal ns)"
  proof (cases "w' = w")
    case False
    then obtain q where q: "1 < length ?cs" "create_dirs s q (butlast ?cs) w = (r, w')" using c by blast
    let ?f = "filter (\<lambda>c. c \<noteq> CurDir)"
    have "?cs \<noteq> []" using q(1) by auto
    then have "?f ?cs = ?f (butlast ?cs @ [last ?cs])" by simp
    then have "?f ?cs = ?f (butlast ?cs) @ [last ?cs]" using last_component [OF q(1)] by (simp only: filter_append) simp
    moreover have "map Normal ns = ?f ?cs" using checked_Inr(3) [OF ns [unfolded safe_components_def]] .
    ultimately have "\<not> prefix (sr_fd s @ map Normal ns) (sr_fd s @ ?f (butlast ?cs))"
      by (auto dest: prefix_length_le)
    then have "sr_fd s @ map Normal ns \<notin> {q. \<exists>m ns. prefix q (sr_fd s @ m) \<and> m = map Normal ns \<and> m = ?f (butlast ?cs)}" by auto
    then show ?thesis using create_dirs_touches(2) [OF q(2) ok] unfolding touches_def by blast
  qed simp
qed

lemma open_temp_Inr:
  assumes "open_temp s p fd ts w = (Inr (Some t), w')" "\<forall>t\<in>set ts. name_ok t"
  shows "t \<in> set ts" "touches {fd @ [Normal t]} w w'" "map_of (w_fs w) (fd @ [Normal t]) = None"
proof -
  have "t \<in> set ts \<and> touches {fd @ [Normal t]} w w' \<and> map_of (w_fs w) (fd @ [Normal t]) = None"
    using assms
  proof (induction ts arbitrary: w)
    case (Cons x ts)
    let ?how = "how_none\<lparr>oh_create := True, oh_excl := True, oh_write := True\<rparr>"
    obtain r1 w1 where 1: "openat2 fd x ?how w = (r1, w1)" by fastforce
    show ?case
    proof (cases r1)
      case (Inr k)
      have x: "name_ok x" using Cons.prems(2) by simp
      have "t = x" "w' = w1" using Cons.prems(1) 1 Inr by auto
      moreover have "map_of (w_fs w) (fd @ [Normal x]) = None" using openat2_name_Inr(1,3) [OF 1 [unfolded Inr] x] by simp
      moreover have "touches {fd @ [Normal x]} w w1"
      proof -
        obtain v where v: "w_fs v = w_fs w" "touches {} w v" "open_leaf (fd @ map Normal (names_of x)) ?how (wants_dir x) v = (Inr k, w1)"
          using openat2_Inr [OF 1 [unfolded Inr]] names_of_name [OF x] by (metis list.distinct(1))
        show ?thesis
          using touches_trans [OF touches_mono [OF v(2)] open_leaf_touches(1) [OF v(3)]] names_of_name [OF x] by simp
      qed
      ultimately show ?thesis by simp
    next
      case (Inl e)
      then have "open_temp s p fd ts w1 = (Inr (Some t), w')" using Cons.prems(1) 1 by (auto split: io_error.splits)
      from Cons.IH [OF this] Cons.prems(2) openat2_Inl [OF 1 [unfolded Inl]] show ?thesis
        by (auto intro: touches_trans)
    qed
  qed simp
  then show "t \<in> set ts" "touches {fd @ [Normal t]} w w'" "map_of (w_fs w) (fd @ [Normal t]) = None" by blast+
qed

lemma open_temp_other:
  assumes "open_temp s p fd ts w = (r, w')" "r = Inr None \<or> isl r"
  shows "touches K w w' \<and> w_fs w' = w_fs w"
  using assms
proof (induction ts arbitrary: w)
  case (Cons x ts)
  obtain r1 w1 where 1: "openat2 fd x (how_none\<lparr>oh_create := True, oh_excl := True, oh_write := True\<rparr>) w = (r1, w1)" by fastforce
  then obtain e where e: "r1 = Inl e" using Cons.prems by (cases r1) auto
  note q = openat2_Inl [OF 1 [unfolded e], of K]
  show ?case using Cons.prems Cons.IH [of w1] 1 e q by (auto split: io_error.splits intro: touches_trans)
qed simp

lemma fill_temp_touches:
  assumes "fill_temp s p fd temp leaf b mode w = (r, w')"
  shows "touches {fd @ [Normal temp], fd @ [Normal leaf]} w w'" "r \<noteq> None \<Longrightarrow> touches {fd @ [Normal temp]} w w'"
    "r = None \<Longrightarrow> map_of (w_fs w') (fd @ [Normal leaf]) = Some (File b)"
proof -
  let ?K = "{fd @ [Normal temp], fd @ [Normal leaf]}" and ?t = "fd @ [Normal temp]"
  obtain r1 w1 where 1: "write_all ?t b w = (r1, w1)" by fastforce
  obtain r2 w2 where 2: "act_only (OpChmod (path_of ?t) mode) w1 = (r2, w2)" by fastforce
  obtain r3 w3 where 3: "act_only OpSync w2 = (r3, w3)" by fastforce
  obtain r4 w4 where 4: "renameat fd temp leaf w3 = (r4, w4)" by fastforce
  obtain r5 w5 where 5: "act_only OpSync w4 = (r5, w5)" by fastforce
  note u = write_all_touches [OF 1] and q2 = act_only_touches [OF 2] and q3 = act_only_touches [OF 3] and q5 = act_only_touches [OF 5]
  have t1: "touches ?K w w1" by (rule touches_mono [OF u(1)]) simp
  note t2 = touches_trans [OF t1 conjunct1 [OF q2]] and s2 = touches_trans [OF u(1) conjunct1 [OF q2]]
  note t3 = touches_trans [OF t2 conjunct1 [OF q3]] and s3 = touches_trans [OF s2 conjunct1 [OF q3]]
  note t4 = touches_trans [OF t3 renameat_touches(1) [OF 4]]
  note t5 = touches_trans [OF t4 conjunct1 [OF q5]]
  have c: "w' = w1 \<and> r \<noteq> None \<or> w' = w2 \<and> r \<noteq> None \<or> w' = w3 \<and> r \<noteq> None \<or> w' = w4 \<and> r \<noteq> None \<and> r4 \<noteq> None
      \<or> w' = w5 \<and> r = None \<and> r4 = None \<and> r1 = None"
    using assms 1 2 3 4 5 by (auto simp: fill_temp_def Let_def split: option.splits)
  then show "touches ?K w w'" using t1 t2 t3 t4 t5 by blast
  have "touches {?t} w w4" if "r4 \<noteq> None"
    using s3 renameat_touches(1,2) [OF 4] that by (auto simp: touches_def)
  then show "r \<noteq> None \<Longrightarrow> touches {?t} w w'" using c u(1) s2 s3 by blast
  show "r = None \<Longrightarrow> map_of (w_fs w') (fd @ [Normal leaf]) = Some (File b)"
    using c u(2) q2 q3 q5 renameat_touches(3) [OF 4] by auto
qed

subsection \<open>Whole operations\<close>

lemma sr_write_atomic_cases:
  assumes "sr_write_atomic s ts p b mode w = (r, w')"
  obtains (Refused) e where "r = Some e" "touches (below_fd (sr_fd s)) w w'"
      "\<And>ns. safe_components p (sr_root s) = Inr ns \<Longrightarrow> map_of (w_fs w') (sr_fd s @ map Normal ns) = map_of (w_fs w) (sr_fd s @ map Normal ns)"
  | (Filled) ns d w2 t w3 w4 where "safe_components p (sr_root s) = Inr ns" "ns \<noteq> []" "d = sr_fd s @ map Normal (butlast ns)"
      "dirs_down (w_fs w2) (sr_fd s) d" "touches (below_fd (sr_fd s)) w w2"
      "map_of (w_fs w2) (sr_fd s @ map Normal ns) = map_of (w_fs w) (sr_fd s @ map Normal ns)"
      "t \<in> set (temp_names ts)" "touches {d @ [Normal t]} w2 w3" "fill_temp s p d t (last ns) b mode w3 = (r, w4)"
      "w' = (if r = None then w4 else snd (unlinkat False d t w4))"
proof -
  obtain r1 w1 where 1: "parents_made s p w = (r1, w1)" by fastforce
  note t1 = parents_made_touches [OF 1]
  show ?thesis
  proof (cases r1)
    case (Some e)
    then have "r = Some e" "w' = w1" using assms 1 by (simp_all add: sr_write_atomic_def)
    then show ?thesis using Refused t1 by blast
  next
    case None
    obtain r2 w2 where 2: "open_parent_rw s p w1 = (r2, w2)" by fastforce
    note q2 = open_parent_rw_quiet [OF 2, of "below_fd (sr_fd s)"]
    have t2: "touches (below_fd (sr_fd s)) w w2" using touches_trans t1(1) q2 by blast
    have m2: "safe_components p (sr_root s) = Inr ns \<Longrightarrow> map_of (w_fs w2) (sr_fd s @ map Normal ns) = map_of (w_fs w) (sr_fd s @ map Normal ns)" for ns
      using t1(2) q2 by simp
    show ?thesis
    proof (cases r2)
      case (Inl e)
      then have "r = Some e" "w' = w2" using assms 1 None 2 by (simp_all add: sr_write_atomic_def)
      then show ?thesis using Refused t2 m2 by blast
    next
      case (Inr x)
      obtain d leaf where x: "x = (d, leaf)" by fastforce
      from open_parent_rw_Inr [OF 2 [unfolded Inr x]] obtain ns where ns: "safe_components p (sr_root s) = Inr ns" "ns \<noteq> []"
        "leaf = last ns" "d = sr_fd s @ map Normal (butlast ns)" "dirs_down (w_fs w2) (sr_fd s) d" by blast
      obtain r3 w3 where 3: "open_temp s p d (temp_names ts) w2 = (r3, w3)" by fastforce
      show ?thesis
      proof (cases "r3 = Inr None \<or> isl r3")
        case True
        note q3 = open_temp_other [OF 3 True, of "below_fd (sr_fd s)"]
        obtain e where "r = Some e" "w' = w3" using assms 1 None 2 Inr x 3 True by (cases r3) (auto simp: sr_write_atomic_def)
        then show ?thesis using Refused touches_trans [OF t2] q3 m2 by metis
      next
        case False
        then obtain t where t: "r3 = Inr (Some t)" by (cases r3) auto
        have "\<forall>t\<in>set (temp_names ts). name_ok t" using temp_names_ok by blast
        note o = open_temp_Inr [OF 3 [unfolded t] this]
        obtain r4 w4 where 4: "fill_temp s p d t leaf b mode w3 = (r4, w4)" by fastforce
        have "r = r4" "w' = (if r = None then w4 else snd (unlinkat False d t w4))"
          using assms 1 None 2 Inr x 3 t 4 by (auto simp: sr_write_atomic_def split: option.splits)
        then show ?thesis using Filled [OF ns(1,2,4,5) t2 m2 [OF ns(1)] o(1,2)] 4 ns(3) by blast
      qed
    qed
  qed
qed

lemma below_dir: "touches {d @ [c]} w w' \<Longrightarrow> prefix fd d \<Longrightarrow> touches (below_fd fd) w w'"
  by (erule touches_mono) (auto intro: single_below)

lemma sr_write_atomic_touches:
  assumes "sr_write_atomic s ts p b mode w = (r, w')"
  shows "touches (below_fd (sr_fd s)) w w'"
  using assms
proof (cases rule: sr_write_atomic_cases)
  case (Filled ns d w2 t w3 w4)
  have p: "prefix (sr_fd s) d" using Filled(3) by simp
  note t3 = touches_trans [OF Filled(5) below_dir [OF Filled(8) p]]
  have "touches (below_fd (sr_fd s)) w3 w4"
    by (rule touches_mono [OF fill_temp_touches(1) [OF Filled(9)]]) (use p in \<open>auto intro: single_below\<close>)
  note t4 = touches_trans [OF t3 this]
  obtain x w5 where 5: "unlinkat False d t w4 = (x, w5)" by fastforce
  note t5 = touches_trans [OF t4 below_dir [OF unlinkat_touches [OF 5] p]]
  show ?thesis using t4 t5 5 Filled(10) by simp
qed

lemma resolve_touches: "resolve s p how w = (r, w') \<Longrightarrow> touches (below_fd (sr_fd s)) w w'"
  by (auto simp: resolve_def split: sum.splits prod.splits dest: openat2_touches(1))

lemma sr_unlink_touches: "sr_unlink dir s p w = (r, w') \<Longrightarrow> touches (below_fd (sr_fd s)) w w'"
proof -
  assume u: "sr_unlink dir s p w = (r, w')"
  obtain r1 w1 where 1: "open_parent_rw s p w = (r1, w1)" by fastforce
  note q = open_parent_rw_quiet [OF 1, of "below_fd (sr_fd s)"]
  show ?thesis
  proof (cases r1)
    case (Inr x)
    obtain d leaf where x: "x = (d, leaf)" by fastforce
    obtain r2 w2 where 2: "unlinkat dir d leaf w1 = (r2, w2)" by fastforce
    have "w' = w2" using u 1 Inr x 2 by (auto simp: sr_unlink_def split: option.splits io_error.splits)
    moreover have "prefix (sr_fd s) d" using open_parent_rw_Inr [OF 1 [unfolded Inr x]] by (metis prefixI)
    ultimately show ?thesis using touches_trans q below_dir [OF unlinkat_touches [OF 2]] by blast
  qed (use u 1 q in \<open>simp add: sr_unlink_def\<close>)
qed

text \<open>The key of a plain path is its directory's, with the last name.\<close>

lemma leaf_key: "ns \<noteq> [] \<Longrightarrow> k @ map Normal ns = (k @ map Normal (butlast ns)) @ [Normal (last ns)]"
  by (cases ns rule: rev_cases) simp_all

lemma write_done:
  assumes "sr_write_atomic s ts p b mode w = (None, w')"
  obtains ns where "safe_components p (sr_root s) = Inr ns" "ns \<noteq> []" "map_of (w_fs w') (sr_fd s @ map Normal ns) = Some (File b)"
    "dirs_down (w_fs w') (sr_fd s) (sr_fd s @ map Normal (butlast ns))"
  using assms
proof (cases rule: sr_write_atomic_cases)
  case (Filled ns d w2 t w3 w4)
  have w': "w' = w4" using Filled(10) by simp
  note f = fill_temp_touches [OF Filled(9)]
  have "touches {d @ [Normal t]} w2 w3" by (rule Filled(8))
  then have "dirs_down (w_fs w3) (sr_fd s) d"
    by (rule dirs_down_touches [OF Filled(4)]) (auto dest: prefix_length_le)
  then have "dirs_down (w_fs w4) (sr_fd s) d"
    by (rule dirs_down_touches [OF _ f(1)]) (auto dest: prefix_length_le)
  moreover have "map_of (w_fs w4) (sr_fd s @ map Normal ns) = Some (File b)"
    using f(3) leaf_key [OF Filled(2), of "sr_fd s"] Filled(3) by simp
  ultimately show ?thesis using that Filled(1-3) w' by blast
qed simp

lemma write_refused:
  assumes "sr_write_atomic s ts p b mode w = (Some e, w')" "safe_components p (sr_root s) = Inr ns" "last ns \<notin> set (temp_names ts)"
  shows "map_of (w_fs w') (sr_fd s @ map Normal ns) = map_of (w_fs w) (sr_fd s @ map Normal ns)"
  using assms(1)
proof (cases rule: sr_write_atomic_cases)
  case (Refused e)
  then show ?thesis using assms(2) by blast
next
  case (Filled ms d w2 t w3 w4)
  obtain x w5 where 5: "unlinkat False d t w4 = (x, w5)" by fastforce
  have "touches {d @ [Normal t]} w2 w'"
    using touches_trans [OF touches_trans [OF Filled(8) fill_temp_touches(2) [OF Filled(9)]] unlinkat_touches [OF 5]] 5 Filled(10) by simp
  moreover have "ms = ns" using Filled(1) assms(2) by simp
  moreover have "t \<noteq> last ns" using Filled(7) assms(3) by blast
  ultimately show ?thesis
    using Filled(6) leaf_key [OF Filled(2), of "sr_fd s"] Filled(3) by (simp add: touches_def)
qed

lemma dirs_between:
  assumes "ns \<noteq> []"
  shows "dirs_down fs k (k @ map Normal (butlast ns)) \<longleftrightarrow>
     (\<forall>q. strict_prefix k q \<and> strict_prefix q (k @ map Normal ns) \<longrightarrow> map_of fs q = Some Dir)"
proof -
  have p: "strict_prefix q (d @ [c]) \<longleftrightarrow> prefix q d" for q d :: key and c by (auto simp: strict_prefix_def prefix_snoc)
  show ?thesis unfolding dirs_down_def leaf_key [OF assms] p ..
qed

lemma walk_names_dirs: "dirs_down fs k (k @ map Normal ns) \<Longrightarrow> walk_names fs k ns = Inr (k @ map Normal ns)"
proof (induction ns arbitrary: k)
  case (Cons n ns)
  let ?k = "k @ [Normal n]"
  have "map_of fs ?k = Some Dir" using Cons.prems by (auto simp: dirs_down_def strict_prefix_def)
  moreover have "dirs_down fs ?k (?k @ map Normal ns)"
    using Cons.prems by (auto simp: dirs_down_def strict_prefix_def dest: append_prefixD)
  ultimately show ?case using Cons.IH [of ?k] by simp
qed simp

subsection \<open>Any sequence of operations\<close>

datatype safe_op =
  SafeCreateDirAll path
| SafeOpenDir path
| SafeOpenCreate path
| SafeOpenExisting path
| SafeCreateNew path
| SafeWrite temp_source path bytes "32 word"
| SafeRead path
| SafeRemoveFile path
| SafeRemoveDir path
| SafeExists path
| SafeIsDir path

fun run_safe :: "safe_root \<Rightarrow> safe_op \<Rightarrow> world \<Rightarrow> unit \<times> world" where
  "run_safe s (SafeCreateDirAll p) w = ((), snd (sr_create_dir_all s p w))"
| "run_safe s (SafeOpenDir p) w = ((), snd (sr_open_dir s p w))"
| "run_safe s (SafeOpenCreate p) w = ((), snd (open_rw_create s p w))"
| "run_safe s (SafeOpenExisting p) w = ((), snd (open_rw_existing s p w))"
| "run_safe s (SafeCreateNew p) w = ((), snd (sr_create_new s p w))"
| "run_safe s (SafeWrite ts p b m) w = ((), snd (sr_write_atomic s ts p b m w))"
| "run_safe s (SafeRead p) w = ((), snd (sr_read_to_string s p w))"
| "run_safe s (SafeRemoveFile p) w = ((), snd (sr_remove_file s p w))"
| "run_safe s (SafeRemoveDir p) w = ((), snd (sr_remove_dir s p w))"
| "run_safe s (SafeExists p) w = ((), snd (sr_exists s p w))"
| "run_safe s (SafeIsDir p) w = ((), snd (sr_is_dir s p w))"

lemma opens_touch:
  "open_rw_create s p w = (r, w') \<Longrightarrow> touches (below_fd (sr_fd s)) w w'"
  "sr_create_new s p w = (r, w') \<Longrightarrow> touches (below_fd (sr_fd s)) w w'"
  "sr_read_to_string s p w = (r', w') \<Longrightarrow> touches (below_fd (sr_fd s)) w w'"
  by (auto simp: open_rw_create_def sr_create_new_def sr_read_to_string_def split: prod.splits option.splits sum.splits io_error.splits
      dest!: parents_made_touches(1) resolve_touches openat2_touches(1) attempt_touches [where K = "below_fd (sr_fd s)"] intro: touches_trans)

lemma looks_touch:
  "sr_create_dir_all s p w = (r1, w') \<Longrightarrow> touches (below_fd (sr_fd s)) w w'"
  "sr_exists s p w = (r2, w') \<Longrightarrow> touches (below_fd (sr_fd s)) w w'"
  "sr_is_dir s p w = (r2, w') \<Longrightarrow> touches (below_fd (sr_fd s)) w w'"
  "sr_open_dir s p w = (r3, w') \<Longrightarrow> touches (below_fd (sr_fd s)) w w'"
  "open_rw_existing s p w = (r3, w') \<Longrightarrow> touches (below_fd (sr_fd s)) w w'"
  "sr_remove_file s p w = (r1, w') \<Longrightarrow> touches (below_fd (sr_fd s)) w w'"
  "sr_remove_dir s p w = (r1, w') \<Longrightarrow> touches (below_fd (sr_fd s)) w w'"
  by (auto simp: sr_create_dir_all_def sr_exists_def sr_is_dir_def sr_open_dir_def open_rw_existing_def sr_remove_file_def sr_remove_dir_def
      split: sum.splits prod.splits io_error.splits
      dest: openat2_touches(1) create_dirs_touches(1) resolve_touches sr_unlink_touches component_name_plain)

lemma run_safe_touches: "run_safe s a w = (r, w') \<Longrightarrow> touches (below_fd (sr_fd s)) w w'"
proof -
  have "touches (below_fd (sr_fd s)) w (snd (run_safe s a w))"
  proof (cases a)
    case (SafeCreateDirAll p)
    then show ?thesis by (cases "sr_create_dir_all s p w") (simp add: looks_touch(1))
  next
    case (SafeOpenDir p)
    then show ?thesis by (cases "sr_open_dir s p w") (simp add: looks_touch(4))
  next
    case (SafeOpenCreate p)
    then show ?thesis by (cases "open_rw_create s p w") (simp add: opens_touch(1))
  next
    case (SafeOpenExisting p)
    then show ?thesis by (cases "open_rw_existing s p w") (simp add: looks_touch(5))
  next
    case (SafeCreateNew p)
    then show ?thesis by (cases "sr_create_new s p w") (simp add: opens_touch(2))
  next
    case (SafeWrite ts p b m)
    then show ?thesis by (cases "sr_write_atomic s ts p b m w") (simp add: sr_write_atomic_touches)
  next
    case (SafeRead p)
    then show ?thesis by (cases "sr_read_to_string s p w") (simp add: opens_touch(3))
  next
    case (SafeRemoveFile p)
    then show ?thesis by (cases "sr_remove_file s p w") (simp add: looks_touch(6))
  next
    case (SafeRemoveDir p)
    then show ?thesis by (cases "sr_remove_dir s p w") (simp add: looks_touch(7))
  next
    case (SafeExists p)
    then show ?thesis by (cases "sr_exists s p w") (simp add: looks_touch(2))
  next
    case (SafeIsDir p)
    then show ?thesis by (cases "sr_is_dir s p w") (simp add: looks_touch(3))
  qed
  then show "run_safe s a w = (r, w') \<Longrightarrow> touches (below_fd (sr_fd s)) w w'" by simp
qed

interpretation safe: host_op "run_safe s" "\<lambda>_. below_fd (sr_fd s)" for s
  by unfold_locales (rule run_safe_touches)

section \<open>Properties\<close>


text \<open>C13: a write beneath the safe root lands where its path says, through directories alone, or changes nothing there.
  When \<^verbatim>\<open>write_atomic\<close> succeeds the path is plain and relative, the content is at the key of its names below the
  root, and each key between the two is a directory (no link was followed).  When it fails, what was at that key
  is still there, as long as the name is not one of its own temporary names.\<close>

theorem safe_write_all_or_nothing:
  assumes "sr_write_atomic s ts p b mode w = (r, w')"
  shows "case r of
      None \<Rightarrow> \<exists>ns. safe_components p (sr_root s) = Inr ns \<and> ns \<noteq> []
        \<and> map_of (w_fs w') (sr_fd s @ map Normal ns) = Some (File b)
        \<and> (\<forall>q. strict_prefix (sr_fd s) q \<and> strict_prefix q (sr_fd s @ map Normal ns) \<longrightarrow> map_of (w_fs w') q = Some Dir)
    | Some e \<Rightarrow> \<forall>ns. safe_components p (sr_root s) = Inr ns \<and> last ns \<notin> set (temp_names ts) \<longrightarrow>
        map_of (w_fs w') (sr_fd s @ map Normal ns) = map_of (w_fs w) (sr_fd s @ map Normal ns)"
proof (cases r)
  case None
  then obtain ns where "safe_components p (sr_root s) = Inr ns" "ns \<noteq> []"
    "map_of (w_fs w') (sr_fd s @ map Normal ns) = Some (File b)" "dirs_down (w_fs w') (sr_fd s) (sr_fd s @ map Normal (butlast ns))"
    using write_done [OF assms [unfolded None]] by blast
  with None show ?thesis unfolding dirs_between [OF \<open>ns \<noteq> []\<close>] by auto
next
  case (Some e)
  then show ?thesis using write_refused assms by simp
qed

text \<open>A root with a directory, a file and a link out of it.\<close>

definition safe_world :: world where
  "safe_world =
     \<lparr>w_fs = [(key_of ''/h'', Dir), (key_of ''/h/d'', Dir), (key_of ''/h/l'', Link ''/etc''), (key_of ''/etc'', Dir)],
      w_log = [], w_fault = (\<lambda>_. None), w_dev = (\<lambda>_. 0), w_torn = (\<lambda>_ _. False), w_short = (\<lambda>_. None),
      w_points = (\<lambda>_. []), w_mode = (\<lambda>_. 0), w_reply = (\<lambda>_. [])\<rparr>"

definition sample_safe :: safe_root where
  "sample_safe = \<lparr>sr_root = ''/h'', sr_fd = key_of ''/h''\<rparr>"

definition sample_temps :: temp_source where
  "sample_temps = \<lparr>ts_pid = 7, ts_nanos = (\<lambda>_. 0), ts_seq = 0\<rparr>"

theorem safe_write_all_or_nothing_witness:
  "\<exists>w' ns. sr_write_atomic sample_safe sample_temps ''d/s'' ''x'' 0x180 safe_world = (None, w')
     \<and> safe_components ''d/s'' ''/h'' = Inr ns \<and> map_of (w_fs w') (key_of ''/h'' @ map Normal ns) = Some (File ''x'')"
proof -
  have "fst (sr_write_atomic sample_safe sample_temps ''d/s'' ''x'' 0x180 safe_world) = None" by code_simp
  then obtain w' where w: "sr_write_atomic sample_safe sample_temps ''d/s'' ''x'' 0x180 safe_world = (None, w')"
    by (metis prod.collapse)
  from safe_write_all_or_nothing [OF w] w show ?thesis by (auto simp: sample_safe_def)
qed

text \<open>C38: what was written beneath the safe root is read back: after a write of a text that succeeded, on a host that
  refuses nothing of its own, \<^verbatim>\<open>read_to_string\<close> at the same path gives exactly that text.\<close>

theorem safe_read_after_write:
  assumes "sr_write_atomic s ts p b mode w = (None, w1)" "calm w" "utf8_valid b" "\<not> wants_dir p"
  shows "fst (sr_read_to_string s p w1) = Inr b"
proof -
  obtain ns where ns: "safe_components p (sr_root s) = Inr ns" "ns \<noteq> []" "map_of (w_fs w1) (sr_fd s @ map Normal ns) = Some (File b)"
    "dirs_down (w_fs w1) (sr_fd s) (sr_fd s @ map Normal (butlast ns))" using write_done [OF assms(1)] by blast
  note c = safe_components_Inr [OF ns(1)]
  have calm: "\<And>l. w_fault w1 l = None"
    using calm_touches [OF assms(2) sr_write_atomic_touches [OF assms(1)]] by (simp add: calm_def)
  have "p \<noteq> []" using c(3) ns(2) by (auto simp: names_of_def components_def is_absolute_def component_of_def split: if_splits)
  moreover have "open_leaf ((sr_fd s @ map Normal (butlast ns)) @ [Normal (last ns)]) how_none (wants_dir p) v = (Inr (sr_fd s @ map Normal ns), v)"
    if "w_fs v = w_fs w1" for v
    using ns(3) leaf_key [OF ns(2), of "sr_fd s"] assms(4) that by (simp add: open_leaf_def)
  ultimately show ?thesis
    using calm c ns assms(3) walk_names_dirs [OF ns(4)]
    by (simp add: sr_read_to_string_def resolve_def openat2_def attempt_def)
qed

theorem safe_read_after_write_witness:
  "\<exists>w1. sr_write_atomic sample_safe sample_temps ''d/s'' ''x'' 0x180 safe_world = (None, w1)
     \<and> fst (sr_read_to_string sample_safe ''d/s'' w1) = Inr ''x''"
proof -
  have "fst (sr_write_atomic sample_safe sample_temps ''d/s'' ''x'' 0x180 safe_world) = None" by code_simp
  then obtain w' where w: "sr_write_atomic sample_safe sample_temps ''d/s'' ''x'' 0x180 safe_world = (None, w')"
    by (metis prod.collapse)
  have "calm safe_world" by (simp add: calm_def safe_world_def)
  moreover have "utf8_valid ''x''" "\<not> wants_dir ''d/s''" by code_simp+
  ultimately show ?thesis using safe_read_after_write [OF w] w by blast
qed

text \<open>A link is never taken for what it points to: what \<^verbatim>\<open>exists\<close> affirms is there itself, and no link.\<close>

lemma safe_exists_no_link:
  assumes "sr_exists s p w = (Inr True, w')" "names_of p \<noteq> []"
  shows "\<exists>n. map_of (w_fs w') (sr_fd s @ map Normal (names_of p)) = Some n \<and> (\<forall>t. n \<noteq> Link t)"
proof -
  obtain k where k: "openat2 (sr_fd s) p (how_none\<lparr>oh_path := True\<rparr>) w = (Inr k, w')"
    using assms(1) by (auto simp: sr_exists_def split: sum.splits prod.splits io_error.splits)
  from openat2_Inr [OF k assms(2)] obtain w1 where
    "open_leaf (sr_fd s @ map Normal (names_of p)) (how_none\<lparr>oh_path := True\<rparr>) (wants_dir p) w1 = (Inr k, w')" by blast
  from open_leaf_touches(4) [OF this refl] show ?thesis by blast
qed

end
