(* ===== verification/Spec2Isabelle.thy ===== *)
theory Spec2Isabelle
  imports Attach_Gate Confinement Emergency Entry Safe_Root
begin

text \<open>
  A verification development of NAILS, a program that switches a running Linux machine between a \<^emph>\<open>decoy\<close> system
  on its disks and a \<^emph>\<open>hidden\<close> system on a volume of its own.  The switch is a systemd soft-reboot: \<^verbatim>\<open>prepare\<close> of
  \<^verbatim>\<open>nails-session/src/session/entry.rs\<close> builds the hidden root at \<^verbatim>\<open>/run/nextroot\<close>, writes a plan to \<^verbatim>\<open>/run\<close> and arms
  it; PID 1 stops everything, and as its last step runs the \<^emph>\<open>transition\<close> of \<^verbatim>\<open>nails-teardown/src/whole_root\<close>, which reads
  the plan, masks the units of the decoy's disks and lets the switch go on.  The way back is the same step over
  a next root that holds the decoy's file systems, made again from what the entry recorded; it removes what the
  session left in \<^verbatim>\<open>/run\<close>, and the decoy's first start corrects the login records.  An emergency leaves the hidden
  session in seconds, over a prepared way back or by power off.  Before anything is written to the hidden volume
  the \<^emph>\<open>gate\<close> of \<^verbatim>\<open>nails-base/src/hidden_root\<close> judges whether it is attached and shares no storage with the decoy, and
  what is written there goes through \<^verbatim>\<open>SafeRoot\<close>.  Paths of sources are given below \<^verbatim>\<open>src/\<close>; \<^verbatim>\<open>whole_root/\<close> stands for
  \<^verbatim>\<open>nails-teardown/src/whole_root/\<close> and \<^verbatim>\<open>session/\<close> for \<^verbatim>\<open>nails-session/src/session/\<close>.

  \<^bold>\<open>How the code is modelled.\<close>  Bytes, strings and paths are lists of bytes; a struct is a record, an enum a datatype,
  \<^verbatim>\<open>Result\<close> a sum with the error on the left; \<^verbatim>\<open>i64\<close> mount IDs are integers bounded where they are parsed, \<^verbatim>\<open>i16\<close>, \<^verbatim>\<open>i32\<close>,
  \<^verbatim>\<open>u32\<close> and device numbers are words.  Stateful code takes and returns a \<open>world\<close> (theory World): the file tree with
  its links, and the log of the operations tried.  The host may refuse any operation: \<open>w_fault\<close> answers for the
  log so far, and every theorem holds for every such answer unless it names the assumption.  A mount, an
  ioctl, a signal, a run of \<^verbatim>\<open>systemctl\<close> or of \<^verbatim>\<open>nix\<close> is an entry of the log.  What cannot be read from the sources is a
  parameter: the \<^verbatim>\<open>serde\<close> readers and writers and the live mount table (\<open>host\<close>), \<^verbatim>\<open>/proc\<close> (\<open>procfs\<close>), \<^verbatim>\<open>/sys\<close> (\<open>sysfs\<close>,
  \<open>net_view\<close>), a lookup inside another root (\<open>kernel_view\<close>), and the device walk of \<^verbatim>\<open>nails-base/src/blockdev\<close>; where an
  answer changes as the program acts, it is a function of the log.  A theorem about a world that refuses
  nothing, or about a reader that reads what the writer wrote, says so in its hypotheses, and its witness
  instantiates the parameter.

  \<^bold>\<open>The theories.\<close>
  \<^item> Nails_Prelude, Rust_Str, Rust_Path, Line_Table: collections of rewrite rules, iterator idioms, \<^verbatim>\<open>str\<close> and integer parsing,
    \<^verbatim>\<open>std::path\<close>; the locale \<open>line_table\<close> is the contract of the two line-oriented parsers.
  \<^item> Mountinfo (\<^verbatim>\<open>nails-teardown/src/mountinfo.rs\<close>): the mount table, its escapes, the visible mount at a path.
  \<^item> Fstab (\<^verbatim>\<open>nails-base/src/fstab.rs\<close>, \<^verbatim>\<open>crypttab.rs\<close>), Fstab_Policy (\<^verbatim>\<open>session/policy.rs\<close>, \<^verbatim>\<open>layout.rs\<close>): the decoy's tables, the decision
    for each entry, the masks, the overlay layers.  Every decoy disk is put in place, masked or never mounted.
  \<^item> Separation and Attach_Gate (\<^verbatim>\<open>nails-base/src/hidden_root/\<close>): the judge over mounts, tables and devices, and the gate with the
    locale \<open>gate\<close> that a writer relies on.  What the verdicts rule out, and when the gate returns.
  \<^item> Safe_Root (\<^verbatim>\<open>nails-base/src/filesystem/safe_path.rs\<close>): every operation of \<^verbatim>\<open>SafeRoot\<close> over a tree with links planted in it.
    No sequence of them changes anything outside the root; a write is whole or leaves what was there.
  \<^item> World: the file tree, the operations of \<^verbatim>\<open>std::fs\<close> with their errors, the log; the locale \<open>host_op\<close> is the frame
    condition that the interpretations of the component theories give for their own operations.
  \<^item> Utab, Session_Plan (\<^verbatim>\<open>whole_root/utab.rs\<close>, \<^verbatim>\<open>plan.rs\<close>): libmount's table across a switch; the plan, arming, the version gate.
  \<^item> Run_Scrub, Runtime_Units, Boot_Records, Run_Records (\<^verbatim>\<open>whole_root/run_scrub.rs\<close>, \<^verbatim>\<open>runtime_units.rs\<close>, \<^verbatim>\<open>boot_records.rs\<close>,
    \<^verbatim>\<open>run_records.rs\<close>): what is snapshotted and removed in \<^verbatim>\<open>/run\<close>, the units and masks, the correction of \<^verbatim>\<open>wtmp\<close>, the records
    brought back.  A scrub is complete and reports all it changed; the correction settles and removes itself.
  \<^item> Decoy_Mounts, Network, Disk_Guard (\<^verbatim>\<open>whole_root/decoy_mounts.rs\<close>, \<^verbatim>\<open>network.rs\<close>, \<^verbatim>\<open>disk_guard.rs\<close>): the mounts recorded or reported
    lost, the links restored, the disks set read-only with each recorded first, and released.
  \<^item> Way_Back (\<^verbatim>\<open>whole_root/ret.rs\<close>, \<^verbatim>\<open>nextroot.rs\<close>, \<^verbatim>\<open>carry.rs\<close>, \<^verbatim>\<open>tools.rs\<close>): mounting the decoy's root whole or not at all.
  \<^item> Transition (\<^verbatim>\<open>whole_root/transition.rs\<close>, \<^verbatim>\<open>kernel_helpers.rs\<close>, \<^verbatim>\<open>switch_refusal.rs\<close>) and Confinement: entering, returning and disarming;
    the locale \<open>run_area\<close> carries the proof that none of it writes outside \<^verbatim>\<open>/run\<close> but where the sources say.
  \<^item> Processes (\<^verbatim>\<open>nails-teardown/src/proc.rs\<close>, \<^verbatim>\<open>cgroup.rs\<close>, \<^verbatim>\<open>shells.rs\<close>, \<^verbatim>\<open>whole_root/kill.rs\<close>): who is killed, and that the caller's own
    invocation is spared.
  \<^item> Emergency (\<^verbatim>\<open>whole_root/emergency.rs\<close>): every request ends, and a soft-reboot is started only over an armed way back.
  \<^item> Entry (\<^verbatim>\<open>session/entry.rs\<close> with \<^verbatim>\<open>way_back.rs\<close>, \<^verbatim>\<open>systemd.rs\<close>, \<^verbatim>\<open>units.rs\<close>, \<^verbatim>\<open>network_state.rs\<close>, parts of \<^verbatim>\<open>nixos.rs\<close>): \<^verbatim>\<open>prepare\<close>, \<^verbatim>\<open>build\<close> and
    \<^verbatim>\<open>rollback\<close>; the locale \<open>entry_services\<close> is the contract of the trait \<^verbatim>\<open>EntryHost\<close>, interpreted on its implementation.
  \<^item> This theory: the property that joins the entry, the policy, the units and the transition.

  \<^bold>\<open>Bounds.\<close>  The bounds of the model are those of the sources: 8 rounds of \<^verbatim>\<open>detach_tree\<close>, 3 of the kill, 8 temporary names in
  \<^verbatim>\<open>write_atomic\<close>, 32 devices in the judge's walk (\<^verbatim>\<open>MAX_WALK\<close>), the depths of the listings.  A wait with a time limit is a
  count of polls, \<open>h_polls\<close>, and theorems hold for every count.  One loop of the sources need not end: the search for
  a covered mount in the gate is a partial function, where None is not returning, and a property says when it returns.
  All other recursion is structural or has its termination proof; the worklists over devices and processes end
  because device numbers and pids have a width, the walk of \<^verbatim>\<open>decoy_mounts.rs\<close> because each round takes a mount from the
  pending ones.

  \<^bold>\<open>Not modelled.\<close>  \<^verbatim>\<open>session/leave.rs\<close> and \<^verbatim>\<open>probe.rs\<close>, which compose operations that are; the manager and its commands
  (\<^verbatim>\<open>nails-core\<close>) with the preflight checks, which read the host and advise; the state file (a \<^verbatim>\<open>serde\<close> format with a
  digest and a lock) and the configuration; the walks over sysfs of \<^verbatim>\<open>nails-base/src/blockdev\<close>, a parameter here; the event
  loops of the watcher and the sleep guard; copies of a persona's files and of a nix closure; logging, forensics,
  the oracle of the tests, platform detection, the command line and the API.  Times are counted in seconds and
  durations in reports are left out.  Links are nodes of the file tree: \<^verbatim>\<open>SafeRoot\<close> meets them wherever they stand,
  while below \<^verbatim>\<open>/run\<close> no operation goes through one in a parent.
\<close>

section \<open>From a prepared entry to the hidden session\<close>

lemma session_units_services: "u \<in> set (session_units watch guards) \<Longrightarrow> suffix ''.service'' (ru_name u)"
  by (auto simp: session_units_def session_unit_def WATCH_UNIT_def suffix_def split: if_splits) 

lemma mount_unit_no_session_unit: "mount_unit p \<notin> ru_name ` set (session_units watch guards)"
proof
  assume "mount_unit p \<in> ru_name ` set (session_units watch guards)"
  then have "suffix ''.service'' (mount_unit p)" using session_units_services by auto
  then show False by (auto simp: mount_unit_def suffix_def append_eq_append_conv2 Cons_eq_append_conv append_eq_Cons_conv)
qed

lemma entered_on_written_plan:
  assumes "run_transition h e w = (Entered, w')" "node_at w (join (e_runtime_dir e) PLAN_NAME) = Some (File text)"
    and "h_plan_reader h text = Inr p"
  obtains v where "enter h e p v = (Entered, w')"
  using assms(1)
proof (cases rule: run_transition_cases)
  case (Enter q)
  have "fst (read_to_string (join (e_runtime_dir e) PLAN_NAME) w) \<in> range Inl \<union> {Inr text}"
    using assms(2) by (auto simp: read_to_string_def read_file_def attempt_def split: prod.splits option.splits)
  then have "q = p"
    using Enter(1) assms(3) by (auto simp: plan_found_def load_plan_def from_json_def split: io_error.splits sum.splits if_splits)
  then show ?thesis using Enter(4) that by simp
qed (use leave_outcome disarm_outcome in fastforce)+

text \<open>C3: from a prepared entry to the hidden session, the decoy's disks stay shut.  When \<^verbatim>\<open>prepare\<close> has returned an
  entry, the transition later finds the plan's file as it was written, reads from it the plan that was written
  there, and reports that it entered: then every entry of the decoy's fstab that lies on a disk has a mount of
  the policy in its place, or its mount unit is a link to \<^verbatim>\<open>/dev/null\<close> where the hidden systemd looks for units,
  or it is \<^verbatim>\<open>noauto\<close> and was not mounted.\<close>

theorem entered_session_shuts_disks:
  assumes "prepare kv h pf (real_entry_host h) system_paths i w = (Inr en, w1)" "h_live h (w_log w) = Inr ms"
    and "in_session_units i = session_units watch guards"
    and "node_at w2 (paths_plan system_paths) = node_at w1 (paths_plan system_paths)"
    and "h_plan_reader g (h_plan_text h (en_plan en)) = Inr (en_plan en)"
    and "run_transition g e w2 = (Entered, w3)" "e_run e = ''/run''" "e_runtime_dir e = RUNTIME_DIR"
  shows "\<exists>k ops. w_log w1 = ops @ k \<and>
    (\<forall>f\<in>set (fstab_at kv k ''/''). on_decoy_disk (in_volume i) f \<longrightarrow>
       (\<exists>m\<in>set (p_policy_mounts (en_plan en)). path_eq (pm_target m) (fs_file f) \<and> pm_kind m \<noteq> KindHiddenVolume)
       \<or> node_at w3 (join (join ''/run'' RUNTIME_UNIT_DIR) (mount_unit (fs_file f))) = Some (Link dev_null)
       \<or> is_noauto f \<and> mounted_at (relative_mounts ms ''/'') (fs_file f) = None)"
proof -
  have sys: "paths_root system_paths = ''/''" "paths_plan system_paths = join RUNTIME_DIR PLAN_NAME"
    by (simp_all add: system_paths_def paths_plan_def paths_runtime_def is_system_def)
  have "node_at w1 (paths_plan system_paths) = Some (File (h_plan_text h (en_plan en)))"
    by (rule prepared_plan_armed(2) [OF assms(1)])
  then have "node_at w2 (join (e_runtime_dir e) PLAN_NAME) = Some (File (h_plan_text h (en_plan en)))"
    using assms(4,8) sys(2) by simp
  with assms(6,5) obtain v where v: "enter g e (en_plan en) v = (Entered, w3)" by (elim entered_on_written_plan)
  have "p_session_units (en_plan en) = session_units watch guards" using prepared_session_units [OF assms(1)] assms(3) by simp
  then have m: "node_at w3 (join (join ''/run'' RUNTIME_UNIT_DIR) (mount_unit (fs_file f))) = Some (Link dev_null)"
    if "mount_unit (fs_file f) \<in> set (p_masks (en_plan en))" for f
    using entered_mask_link [OF v assms(7,8) that] mount_unit_no_session_unit by simp
  obtain k ops where k: "w_log w1 = ops @ k"
    "\<forall>f\<in>set (fstab_at kv k ''/''). on_decoy_disk (in_volume i) f \<longrightarrow> shut (en_plan en) (relative_mounts ms ''/'') f"
    using prepared_shut [OF assms(1,2) disjI1 [OF refl]] unfolding sys(1) by blast
  then show ?thesis using m unfolding shut_def by blast
qed

definition reading_host :: "plan \<Rightarrow> host" where
  "reading_host p = entry_sample_host\<lparr>h_plan_reader := \<lambda>_. Inr p\<rparr>"

theorem entered_session_shuts_disks_witness:
  "\<exists>en w1 w3 k ops. sample_entered (\<lambda>_. None) = (Inr en, w1)
     \<and> run_transition (reading_host (en_plan en)) transition_env transition_world = (Entered, w3) \<and> w_log w1 = ops @ k \<and>
    (\<forall>f\<in>set (fstab_at entry_view k ''/''). on_decoy_disk (in_volume sample_inputs) f \<longrightarrow>
       (\<exists>m\<in>set (p_policy_mounts (en_plan en)). path_eq (pm_target m) (fs_file f) \<and> pm_kind m \<noteq> KindHiddenVolume)
       \<or> node_at w3 (join (join ''/run'' RUNTIME_UNIT_DIR) (mount_unit (fs_file f))) = Some (Link dev_null)
       \<or> is_noauto f \<and> mounted_at (relative_mounts entry_mounts ''/'') (fs_file f) = None)"
proof -
  obtain en w1 where e: "sample_entered (\<lambda>_. None) = (Inr en, w1)" and
    p: "p_masks (en_plan en) = [''s.mount'']" "p_hidden (en_plan en) = sample_side" by (rule sample_entered_done)
  let ?p = "en_plan en" and ?e = transition_env
  let ?g = "reading_host ?p" and ?w = "snd (read_to_string (join RUNTIME_DIR PLAN_NAME) transition_world)"
  have a: "p_armed ?p = Some \<lparr>arm_direction = Enter, arm_at = 100\<rparr>" "node_at w1 (paths_plan system_paths) = Some (File ''{}'')"
    using prepared_plan_armed [OF e] by (simp_all add: entry_sample_host_def sample_host_def)
  have env: "e_run ?e = ''/run''" "e_runtime_dir ?e = RUNTIME_DIR" by (simp_all add: transition_env_def)
  have c: "fst (repoint_and_check (reading_host q) ?e sample_side ?w) = None"
    "\<not> isl (fst (mask_units ''/run'' [''s.mount''] (snd (repoint_and_check (reading_host q) ?e sample_side ?w))))" for q by code_simp+
  have "fst (enter ?g ?e ?p ?w) = Entered" using p env c [of ?p] by (auto simp: enter_def split: prod.splits option.splits sum.splits)
  moreover have "nextroot_mounted ?e" by code_simp
  moreover have "plan_found (reading_host q) ?e transition_world = Inr q" for q by code_simp
  moreover have "armed_for ?p Enter (e_now ?e)"
    by (simp add: armed_for_def is_some_and_def a valid_at_def transition_env_def ARM_VALIDITY_SECS_def)
  ultimately have "fst (run_transition ?g ?e transition_world) = Entered"
    using env by (auto simp: run_transition_def plan_found_def split: prod.splits)
  then obtain w3 where r: "run_transition ?g ?e transition_world = (Entered, w3)" by (metis prod.collapse)
  have "node_at transition_world (paths_plan system_paths) = Some (File ''{}'')" by code_simp
  then have n: "node_at transition_world (paths_plan system_paths) = node_at w1 (paths_plan system_paths)" using a by simp
  have l: "h_live entry_sample_host (w_log (entry_world (\<lambda>_. None))) = Inr entry_mounts" "in_session_units sample_inputs = session_units False False"
    by (simp_all add: entry_sample_host_def sample_inputs_def session_units_def)
  have "h_plan_reader ?g (h_plan_text entry_sample_host ?p) = Inr ?p" by (simp add: reading_host_def)
  from entered_session_shuts_disks [OF e l n this r env] e r show ?thesis by blast
qed

end
